(* ===== verification/Prelude.thy ===== *)
theory Prelude
  imports Main "HOL-Library.Word"
begin

text \<open>
  Shared vocabulary of the development: the machine integers of the firmware (a 32-bit
  RISC-V, so \<open>size_t\<close> and \<open>uintptr_t\<close> are 32 bits wide), little-endian byte encodings,
  the FNV-1a hash that the firmware repeats in many places, C strings in fixed buffers,
  and byte-addressed memory with its frame lemmas.
\<close>

unbundle bit_operations_syntax

type_synonym u8 = "8 word"
type_synonym u16 = "16 word"
type_synonym u32 = "32 word"
type_synonym u64 = "64 word"

named_theorems word_bounds \<open>bounds and conversions of machine words\<close>
named_theorems mem_frame \<open>reads of memory that a write leaves alone\<close>
named_theorems layout_defs \<open>address constants of the memory map\<close>

section \<open>Machine words\<close>

lemma unat_u8_lt [word_bounds]: "unat (x :: u8) < 256"
  using unsigned_less [of x] by simp

lemma unat_u16_lt [word_bounds]: "unat (x :: u16) < 65536"
  using unsigned_less [of x] by simp

lemma unat_u32_lt [word_bounds]: "unat (x :: u32) < 4294967296"
  using unsigned_less [of x] by simp

lemma unat_u16_of_nat: "n < 65536 \<Longrightarrow> unat (of_nat n :: u16) = n"
  by (simp add: unat_of_nat)

lemma unat_u32_of_nat: "n < 4294967296 \<Longrightarrow> unat (of_nat n :: u32) = n"
  by (simp add: unat_of_nat)

lemma unat_ucast_u16_u32 [simp]: "unat (ucast (x :: u16) :: u32) = unat x"
  by (simp add: unsigned_ucast_eq take_bit_nat_eq_self_iff less_trans [OF unsigned_less [of x]])

lemma unat_ucast_u8_u32 [simp]: "unat (ucast (x :: u8) :: u32) = unat x"
  by (simp add: unsigned_ucast_eq take_bit_nat_eq_self_iff less_trans [OF unsigned_less [of x]])

lemma unat_ucast_u8_u16 [simp]: "unat (ucast (x :: u8) :: u16) = unat x"
  by (simp add: unsigned_ucast_eq take_bit_nat_eq_self_iff less_trans [OF unsigned_less [of x]])

lemma ucast_data_byte [simp]: "ucast (ucast x :: u32) = (x :: u8)"
  by (rule bit_word_eqI) (simp add: bit_simps)

lemma unat_add_no_wrap:
  fixes a b :: u32
  shows "unat a + unat b < 4294967296 \<Longrightarrow> unat (a + b) = unat a + unat b"
  by (simp add: unat_word_ariths)

lemma unat_add_of_nat:
  fixes a :: u32
  shows "unat a + n < 4294967296 \<Longrightarrow> unat (a + of_nat n) = unat a + n"
  by (simp add: unat_word_ariths unat_of_nat)

lemma unat_sub_ge:
  fixes a b :: u32
  shows "b \<le> a \<Longrightarrow> unat (a - b) = unat a - unat b"
  by (simp add: unat_sub)

lemma sign_bit_unat: "bit (w :: u32) 31 \<longleftrightarrow> odd (unat w div 2 ^ 31)"
proof -
  have "bit (unat w) 31 = bit w 31" by (simp add: bit_unsigned_iff)
  then show ?thesis by (simp only: bit_iff_odd)
qed

section \<open>Little-endian encodings\<close>

definition le16 :: "u16 \<Rightarrow> u8 list" where
  "le16 w = [ucast w, ucast (drop_bit 8 w)]"

definition le32 :: "u32 \<Rightarrow> u8 list" where
  "le32 w = [ucast w, ucast (drop_bit 8 w), ucast (drop_bit 16 w), ucast (drop_bit 24 w)]"

definition rd16 :: "u8 \<Rightarrow> u8 \<Rightarrow> u16" where
  "rd16 b0 b1 = ucast b0 OR push_bit 8 (ucast b1)"

definition rd32 :: "u8 \<Rightarrow> u8 \<Rightarrow> u8 \<Rightarrow> u8 \<Rightarrow> u32" where
  "rd32 b0 b1 b2 b3 =
     ucast b0 OR push_bit 8 (ucast b1) OR push_bit 16 (ucast b2) OR push_bit 24 (ucast b3)"

lemma length_le16 [simp]: "length (le16 w) = 2"
  by (simp add: le16_def)

lemma length_le32 [simp]: "length (le32 w) = 4"
  by (simp add: le32_def)

lemma rd16_le16 [simp]: "rd16 (ucast w) (ucast (drop_bit 8 w)) = w"
  by (rule bit_word_eqI) (auto simp: rd16_def bit_simps)

lemma rd32_le32 [simp]:
  "rd32 (ucast w) (ucast (drop_bit 8 w)) (ucast (drop_bit 16 w)) (ucast (drop_bit 24 w)) = w"
proof (rule bit_word_eqI)
  fix n assume "n < LENGTH(32)"
  then consider "n < 8" | "8 \<le> n" "n < 16" | "16 \<le> n" "n < 24" | "24 \<le> n" "n < 32"
    by fastforce
  then show "bit (rd32 (ucast w) (ucast (drop_bit 8 w)) (ucast (drop_bit 16 w))
      (ucast (drop_bit 24 w))) n = bit w n"
    by cases (auto simp: rd32_def bit_simps)
qed

section \<open>FNV-1a\<close>

definition fnv_offset :: u32 where
  "fnv_offset = 2166136261"

definition fnv_prime :: u32 where
  "fnv_prime = 16777619"

text \<open>One loop of the form \<open>hash ^= byte; hash *= 16777619u\<close> over a byte sequence.\<close>

fun fnv1a :: "u32 \<Rightarrow> u8 list \<Rightarrow> u32" where
  "fnv1a h [] = h"
| "fnv1a h (b # bs) = fnv1a ((h XOR ucast b) * fnv_prime) bs"

lemma fnv1a_append: "fnv1a h (xs @ ys) = fnv1a (fnv1a h xs) ys"
  by (induction xs arbitrary: h) simp_all

section \<open>C strings\<close>

text \<open>
  A \<open>char\<close> buffer is the list of its bytes. \<open>cstr\<close> is the string a C function sees in
  it: the bytes before the first NUL, or the whole buffer when it holds none.
\<close>

definition cstr :: "u8 list \<Rightarrow> u8 list" where
  "cstr buf = takeWhile (\<lambda>c. c \<noteq> 0) buf"

definition lit :: "string \<Rightarrow> u8 list" where
  "lit s = map of_char s"

definition strcmp_eq :: "u8 list \<Rightarrow> u8 list \<Rightarrow> bool" where
  "strcmp_eq a b = (cstr a = cstr b)"

text \<open>\<open>std::strncmp(a, b, n) == 0\<close>.\<close>

definition strncmp_eq :: "nat \<Rightarrow> u8 list \<Rightarrow> u8 list \<Rightarrow> bool" where
  "strncmp_eq n a b = (take n (cstr a) = take n (cstr b))"

text \<open>\<open>std::strncpy(dst, src, n)\<close>: at most \<open>n\<close> bytes, padded with NULs up to \<open>n\<close>.\<close>

definition strncpy :: "u8 list \<Rightarrow> u8 list \<Rightarrow> nat \<Rightarrow> u8 list" where
  "strncpy dst src n =
     (let s = take n (cstr src) in s @ replicate (n - length s) 0 @ drop n dst)"

text \<open>A zero-initialised buffer \<open>char x[n] = {}\<close>, and one that holds a literal.\<close>

definition zbuf :: "nat \<Rightarrow> u8 list" where
  "zbuf n = replicate n 0"

definition buf_of :: "nat \<Rightarrow> string \<Rightarrow> u8 list" where
  "buf_of n s = lit s @ replicate (n - length s) 0"

definition terminated :: "u8 list \<Rightarrow> bool" where
  "terminated buf = (0 \<in> set buf)"

lemma cstr_Nil [simp]: "cstr [] = []"
  by (simp add: cstr_def)

lemma cstr_Cons: "cstr (c # cs) = (if c = 0 then [] else c # cstr cs)"
  by (simp add: cstr_def)

lemma cstr_no_nul: "0 \<notin> set (cstr buf)"
  by (auto simp: cstr_def dest: set_takeWhileD)

lemma cstr_idem [simp]: "cstr (cstr buf) = cstr buf"
  unfolding cstr_def by (rule takeWhile_idem)

lemma cstr_append_nul: "0 \<notin> set xs \<Longrightarrow> cstr (xs @ 0 # ys) = xs"
  unfolding cstr_def by (induction xs) auto

lemma cstr_id: "0 \<notin> set xs \<Longrightarrow> cstr xs = xs"
  unfolding cstr_def by (induction xs) auto

lemma cstr_append_zeros: "0 \<notin> set xs \<Longrightarrow> cstr (xs @ replicate n 0) = xs"
  by (cases n) (simp_all add: cstr_append_nul cstr_id)

lemma cstr_zbuf [simp]: "cstr (zbuf n) = []"
  by (cases n) (simp_all add: zbuf_def cstr_Cons)

lemma length_zbuf [simp]: "length (zbuf n) = n"
  by (simp add: zbuf_def)

lemma length_strncpy [simp]: "n \<le> length dst \<Longrightarrow> length (strncpy dst src n) = length dst"
  by (auto simp: strncpy_def Let_def)

lemma take_cstr_no_nul: "0 \<notin> set (take n (cstr src))"
  using cstr_no_nul [of src] by (auto dest: in_set_takeD)

text \<open>Copying at most \<open>size - 1\<close> bytes into a zeroed buffer leaves a terminated string.\<close>

lemma cstr_strncpy_zbuf:
  assumes "n < sz"
  shows "cstr (strncpy (zbuf sz) src n) = take n (cstr src)"
proof -
  let ?s = "take n (cstr src)"
  have "strncpy (zbuf sz) src n = ?s @ replicate (n - length ?s + (sz - n)) 0"
    by (simp only: strncpy_def Let_def zbuf_def replicate_add drop_replicate)
  then show ?thesis
    using take_cstr_no_nul [of n src] by (simp add: cstr_append_zeros)
qed

lemma terminated_strncpy_zbuf:
  assumes "n < sz"
  shows "terminated (strncpy (zbuf sz) src n)"
proof -
  have "last (strncpy (zbuf sz) src n) = 0"
    using assms by (auto simp: strncpy_def Let_def zbuf_def)
  moreover have "strncpy (zbuf sz) src n \<noteq> []"
    using assms by (auto simp: strncpy_def Let_def zbuf_def)
  ultimately show ?thesis
    unfolding terminated_def by (metis last_in_set)
qed

section \<open>Decimal numerals\<close>

text \<open>\<open>digit n\<close> is the character \<open>'0' + n\<close>; \<open>dec_digits\<close> is what \<open>%u\<close> prints.\<close>

definition digit :: "nat \<Rightarrow> u8" where
  "digit n = 48 + of_nat n"

fun dec_digits :: "nat \<Rightarrow> u8 list" where
  "dec_digits n = (if n < 10 then [digit n] else dec_digits (n div 10) @ [digit (n mod 10)])"

declare dec_digits.simps [simp del]

definition is_ascii_digit :: "u8 \<Rightarrow> bool" where
  "is_ascii_digit c = (48 \<le> c \<and> c \<le> 57)"

lemma unat_digit: "n < 10 \<Longrightarrow> unat (digit n) = 48 + n"
  by (simp add: digit_def unat_word_ariths unat_of_nat)

lemma is_ascii_digit_digit: "n < 10 \<Longrightarrow> is_ascii_digit (digit n)"
  by (simp add: is_ascii_digit_def word_le_nat_alt unat_digit)

lemma digit_nonzero: "n < 10 \<Longrightarrow> digit n \<noteq> 0"
  using unat_digit [of n] by auto

lemma dec_digits_nonempty: "dec_digits n \<noteq> []"
  by (subst dec_digits.simps) simp

lemma dec_digits_all_digits: "c \<in> set (dec_digits n) \<Longrightarrow> is_ascii_digit c \<and> c \<noteq> 0"
proof (induction n arbitrary: c rule: dec_digits.induct)
  case (1 n)
  show ?case
  proof (cases "n < 10")
    case True
    with "1.prems" show ?thesis
      by (simp add: dec_digits.simps [of n] is_ascii_digit_digit digit_nonzero)
  next
    case False
    with "1.prems" have "c \<in> set (dec_digits (n div 10)) \<or> c = digit (n mod 10)"
      by (auto simp: dec_digits.simps [of n])
    with False "1.IH" show ?thesis
      by (auto simp: is_ascii_digit_digit digit_nonzero)
  qed
qed

lemma length_dec_digits_le: "n < 10 ^ k \<Longrightarrow> 0 < k \<Longrightarrow> length (dec_digits n) \<le> k"
proof (induction k arbitrary: n)
  case 0
  then show ?case by simp
next
  case (Suc k)
  show ?case
  proof (cases "n < 10")
    case True
    then show ?thesis by (simp add: dec_digits.simps [of n])
  next
    case False
    with Suc.prems have "n div 10 < 10 ^ k" and "0 < k"
      by (auto simp: less_mult_imp_div_less mult.commute intro: Suc_leI gr0I)
    then have "length (dec_digits (n div 10)) \<le> k" by (rule Suc.IH)
    with False show ?thesis by (simp add: dec_digits.simps [of n])
  qed
qed

section \<open>Byte-addressed memory\<close>

type_synonym mem = "u32 \<Rightarrow> u8"

definition mem_write :: "mem \<Rightarrow> u32 \<Rightarrow> u8 list \<Rightarrow> mem" where
  "mem_write m a bs = (\<lambda>x. if unat (x - a) < length bs then bs ! unat (x - a) else m x)"

definition mem_read :: "mem \<Rightarrow> u32 \<Rightarrow> nat \<Rightarrow> u8 list" where
  "mem_read m a n = map (\<lambda>i. m (a + of_nat i)) [0..<n]"

definition mem_set :: "mem \<Rightarrow> u32 \<Rightarrow> u8 \<Rightarrow> nat \<Rightarrow> mem" where
  "mem_set m a b n = mem_write m a (replicate n b)"

definition rd8_at :: "mem \<Rightarrow> u32 \<Rightarrow> u8" where
  "rd8_at m a = m a"

definition rd16_at :: "mem \<Rightarrow> u32 \<Rightarrow> u16" where
  "rd16_at m a = rd16 (m a) (m (a + 1))"

definition rd32_at :: "mem \<Rightarrow> u32 \<Rightarrow> u32" where
  "rd32_at m a = rd32 (m a) (m (a + 1)) (m (a + 2)) (m (a + 3))"

lemma length_mem_read [simp]: "length (mem_read m a n) = n"
  by (simp add: mem_read_def)

lemma nth_mem_read [simp]: "i < n \<Longrightarrow> mem_read m a n ! i = m (a + of_nat i)"
  by (simp add: mem_read_def)

lemma mem_write_Nil [simp]: "mem_write m a [] = m"
  by (simp add: mem_write_def)

lemma mem_write_inside:
  "i < length bs \<Longrightarrow> length bs \<le> 4294967296 \<Longrightarrow> mem_write m a bs (a + of_nat i) = bs ! i"
  by (simp add: mem_write_def unat_of_nat)

lemma mem_write_outside: "length bs \<le> unat (x - a) \<Longrightarrow> mem_write m a bs x = m x"
  by (simp add: mem_write_def)

lemma mem_read_write_same:
  "length bs \<le> 4294967296 \<Longrightarrow> mem_read (mem_write m a bs) a (length bs) = bs"
  by (rule nth_equalityI) (simp_all add: mem_write_inside)

text \<open>
  Two address ranges that do not wrap and do not meet. Every frame lemma of the
  development goes through \<open>apart\<close>.
\<close>

definition apart :: "u32 \<Rightarrow> nat \<Rightarrow> u32 \<Rightarrow> nat \<Rightarrow> bool" where
  "apart a n b k \<longleftrightarrow>
     unat a + n \<le> 4294967296 \<and> unat b + k \<le> 4294967296 \<and>
     (unat a + n \<le> unat b \<or> unat b + k \<le> unat a)"

lemma apart_outside:
  assumes "apart a n b k" and "i < n"
  shows "k \<le> unat (a + of_nat i - b)"
proof -
  from assms have a: "unat (a + of_nat i) = unat a + i"
    by (intro unat_add_of_nat) (auto simp: apart_def)
  show ?thesis
  proof (cases "unat a + n \<le> unat b")
    case True
    then have "\<not> unat b \<le> unat (a + of_nat i)" using a assms(2) by simp
    then have "unat (a + of_nat i - b) = unat a + i + 4294967296 - unat b"
      using a by (simp add: unat_sub_if')
    then show ?thesis using assms(1) unfolding apart_def by linarith
  next
    case False
    with assms(1) have ge: "unat b + k \<le> unat a" by (simp add: apart_def)
    then have "b \<le> a + of_nat i" using a by (simp add: word_le_nat_alt)
    then have "unat (a + of_nat i - b) = unat a + i - unat b"
      using a by (simp add: unat_sub_ge)
    with ge show ?thesis by simp
  qed
qed

lemma mem_write_apart [mem_frame]:
  "apart a n b (length bs) \<Longrightarrow> i < n \<Longrightarrow> mem_write m b bs (a + of_nat i) = m (a + of_nat i)"
  by (rule mem_write_outside) (rule apart_outside)

lemma mem_read_write_apart [mem_frame]:
  "apart a n b (length bs) \<Longrightarrow> mem_read (mem_write m b bs) a n = mem_read m a n"
  by (rule nth_equalityI) (simp_all add: mem_write_apart)

lemma mem_read_set_apart [mem_frame]:
  "apart a n b k \<Longrightarrow> mem_read (mem_set m b v k) a n = mem_read m a n"
  unfolding mem_set_def by (rule mem_read_write_apart) simp

lemma mem_read_sub:
  assumes "mem_read m a n = mem_read m' a n" and "i + k \<le> n"
  shows "mem_read m (a + of_nat i) k = mem_read m' (a + of_nat i) k"
proof (rule nth_equalityI)
  fix j assume "j < length (mem_read m (a + of_nat i) k)"
  then have j: "j < k" by simp
  with assms(2) have "i + j < n" by simp
  with assms(1) have "m (a + of_nat (i + j)) = m' (a + of_nat (i + j))"
    by (metis nth_mem_read)
  with j show "mem_read m (a + of_nat i) k ! j = mem_read m' (a + of_nat i) k ! j"
    by (simp add: add.assoc)
qed simp

lemma apart_sym: "apart a n b k = apart b k a n"
  by (auto simp: apart_def)

end
