(* ===== verification/PlcTypes.thy ===== *)
theory PlcTypes
  imports Prelude
begin

text \<open>
  The data model of the PLC side of the firmware: the enumerations of \<open>PlcTypes.h\<close> and
  \<open>ModbusTypes.h\<close>, point definitions (\<open>PointDefinition.h\<close>) and point states
  (\<open>PointState.h\<close>). An enum class has an 8-bit underlying type and the code casts raw
  bytes into it, so every enumeration has a last constructor for the raw values that
  name no enumerator. Character arrays are byte lists of their declared length, the union
  \<open>PointValue\<close> is its four bytes as one little-endian word, a \<open>float\<close> is its IEEE bit
  pattern, and the union \<open>PointBackendRef\<close> is its 80 bytes.
\<close>

section \<open>Enumerations\<close>

datatype point_direction = DirInput | DirOutput | DirInOut | DirRaw u8

datatype point_backend = BackendLocal | BackendModbus | BackendNodeNet | BackendRaw u8

datatype point_value_type =
  TyBool | TyUint16 | TyInt16 | TyUint32 | TyInt32 | TyFloat | TyEnum | TyString | TyRaw u8

datatype point_quality =
  QUnknown | QGood | QUncertainInitialValue | QBadNotConnected | QBadNodeMissing | QBadTimeout
| QBadProtocolError | QBadConfigError | QBadInvalidValue | QBadWriteRejected

datatype point_command_quality =
  CmdUnknown | CmdPending | CmdAcked | CmdTimeout | CmdInvalidValue | CmdRejected
| CmdProtocolError

datatype modbus_table =
  TableCoils | TableDiscreteInputs | TableHoldingRegisters | TableInputRegisters | TableRaw u8

datatype modbus_access = AccessRead | AccessWrite | AccessReadWrite | AccessRaw u8

fun direction_raw :: "point_direction \<Rightarrow> u8" where
  "direction_raw DirInput = 0"
| "direction_raw DirOutput = 1"
| "direction_raw DirInOut = 2"
| "direction_raw (DirRaw r) = r"

definition direction_of_raw :: "u8 \<Rightarrow> point_direction" where
  "direction_of_raw r =
     (if r = 0 then DirInput else if r = 1 then DirOutput else if r = 2 then DirInOut
      else DirRaw r)"

fun backend_raw :: "point_backend \<Rightarrow> u8" where
  "backend_raw BackendLocal = 0"
| "backend_raw BackendModbus = 1"
| "backend_raw BackendNodeNet = 2"
| "backend_raw (BackendRaw r) = r"

definition backend_of_raw :: "u8 \<Rightarrow> point_backend" where
  "backend_of_raw r =
     (if r = 0 then BackendLocal else if r = 1 then BackendModbus
      else if r = 2 then BackendNodeNet else BackendRaw r)"

fun value_type_raw :: "point_value_type \<Rightarrow> u8" where
  "value_type_raw TyBool = 0"
| "value_type_raw TyUint16 = 1"
| "value_type_raw TyInt16 = 2"
| "value_type_raw TyUint32 = 3"
| "value_type_raw TyInt32 = 4"
| "value_type_raw TyFloat = 5"
| "value_type_raw TyEnum = 6"
| "value_type_raw TyString = 7"
| "value_type_raw (TyRaw r) = r"

definition value_type_of_raw :: "u8 \<Rightarrow> point_value_type" where
  "value_type_of_raw r =
     (if r = 0 then TyBool else if r = 1 then TyUint16 else if r = 2 then TyInt16
      else if r = 3 then TyUint32 else if r = 4 then TyInt32 else if r = 5 then TyFloat
      else if r = 6 then TyEnum else if r = 7 then TyString else TyRaw r)"

fun quality_raw :: "point_quality \<Rightarrow> u8" where
  "quality_raw QUnknown = 0"
| "quality_raw QGood = 1"
| "quality_raw QUncertainInitialValue = 2"
| "quality_raw QBadNotConnected = 3"
| "quality_raw QBadNodeMissing = 4"
| "quality_raw QBadTimeout = 5"
| "quality_raw QBadProtocolError = 6"
| "quality_raw QBadConfigError = 7"
| "quality_raw QBadInvalidValue = 8"
| "quality_raw QBadWriteRejected = 9"

fun modbus_table_raw :: "modbus_table \<Rightarrow> u8" where
  "modbus_table_raw TableCoils = 1"
| "modbus_table_raw TableDiscreteInputs = 2"
| "modbus_table_raw TableHoldingRegisters = 3"
| "modbus_table_raw TableInputRegisters = 4"
| "modbus_table_raw (TableRaw r) = r"

definition modbus_table_of_raw :: "u8 \<Rightarrow> modbus_table" where
  "modbus_table_of_raw r =
     (if r = 1 then TableCoils else if r = 2 then TableDiscreteInputs
      else if r = 3 then TableHoldingRegisters else if r = 4 then TableInputRegisters
      else TableRaw r)"

fun modbus_access_raw :: "modbus_access \<Rightarrow> u8" where
  "modbus_access_raw AccessRead = 1"
| "modbus_access_raw AccessWrite = 2"
| "modbus_access_raw AccessReadWrite = 3"
| "modbus_access_raw (AccessRaw r) = r"

definition modbus_access_of_raw :: "u8 \<Rightarrow> modbus_access" where
  "modbus_access_of_raw r =
     (if r = 1 then AccessRead else if r = 2 then AccessWrite
      else if r = 3 then AccessReadWrite else AccessRaw r)"

text \<open>
  The interface every enumeration offers: the cast from the raw byte followed by the cast
  back is the identity, so two raw bytes that give the same enumerator are equal.
\<close>

locale raw_enum =
  fixes to_raw :: "'e \<Rightarrow> u8" and of_raw :: "u8 \<Rightarrow> 'e"
  assumes to_of: "to_raw (of_raw r) = r"
begin

lemma of_raw_eq_iff: "of_raw r = of_raw s \<longleftrightarrow> r = s"
  using to_of by metis

lemma of_raw_neq: "of_raw r = e \<Longrightarrow> to_raw e = r"
  using to_of by metis

end

interpretation direction_enum: raw_enum direction_raw direction_of_raw
  by unfold_locales (simp add: direction_of_raw_def)

interpretation backend_enum: raw_enum backend_raw backend_of_raw
  by unfold_locales (simp add: backend_of_raw_def)

interpretation value_type_enum: raw_enum value_type_raw value_type_of_raw
  by unfold_locales (simp add: value_type_of_raw_def)

interpretation table_enum: raw_enum modbus_table_raw modbus_table_of_raw
  by unfold_locales (simp add: modbus_table_of_raw_def)

interpretation access_enum: raw_enum modbus_access_raw modbus_access_of_raw
  by unfold_locales (simp add: modbus_access_of_raw_def)

section \<open>Floats as bit patterns\<close>

definition f32_is_nan :: "u32 \<Rightarrow> bool" where
  "f32_is_nan w = (w AND 0x7F800000 = 0x7F800000 \<and> w AND 0x007FFFFF \<noteq> 0)"

text \<open>C's \<open>==\<close> on \<open>float\<close>: no NaN equals anything, and the two zeros are equal.\<close>

definition f32_eq :: "u32 \<Rightarrow> u32 \<Rightarrow> bool" where
  "f32_eq a b =
     (\<not> f32_is_nan a \<and> \<not> f32_is_nan b \<and>
      (a = b \<or> (a AND 0x7FFFFFFF = 0 \<and> b AND 0x7FFFFFFF = 0)))"

definition f32_one :: u32 where
  "f32_one = 0x3F800000"

lemma f32_eq_refl: "\<not> f32_is_nan a \<Longrightarrow> f32_eq a a"
  by (simp add: f32_eq_def)

lemma f32_eq_sym: "f32_eq a b = f32_eq b a"
  by (auto simp: f32_eq_def)

section \<open>Point definitions\<close>

record polling_settings =
  refresh_ms :: u32
  timeout_ms :: u32

record point_identity =
  device_id :: "u8 list"
  feature :: "u8 list"
  point_id :: "u8 list"

record point_definition =
  pd_id :: point_identity
  display_name :: "u8 list"
  backend :: point_backend
  direction :: point_direction
  value_type :: point_value_type
  polling :: polling_settings
  string_capacity :: u16
  scale :: u32
  unit_text :: "u8 list"
  enum_def :: u32
  ref :: "u8 list"

text \<open>The Modbus member of the union \<open>ref\<close>: its fields by byte offset.\<close>

definition ref_port_index :: "point_definition \<Rightarrow> u8" where
  "ref_port_index d = ref d ! 0"

definition ref_slave_address :: "point_definition \<Rightarrow> u8" where
  "ref_slave_address d = ref d ! 1"

definition ref_address :: "point_definition \<Rightarrow> u16" where
  "ref_address d = rd16 (ref d ! 2) (ref d ! 3)"

definition ref_register_count :: "point_definition \<Rightarrow> u8" where
  "ref_register_count d = ref d ! 4"

definition ref_table :: "point_definition \<Rightarrow> modbus_table" where
  "ref_table d = modbus_table_of_raw (ref d ! 5)"

definition ref_access :: "point_definition \<Rightarrow> modbus_access" where
  "ref_access d = modbus_access_of_raw (ref d ! 6)"

definition ref_size :: nat where
  "ref_size = 80"

definition modbus_ref :: "u8 \<Rightarrow> u8 \<Rightarrow> u16 \<Rightarrow> u8 \<Rightarrow> modbus_table \<Rightarrow> modbus_access \<Rightarrow> u8 list" where
  "modbus_ref port slave addr regs tab acc =
     [port, slave] @ le16 addr @ [regs, modbus_table_raw tab, modbus_access_raw acc] @
     replicate (ref_size - 7) 0"

definition empty_identity :: point_identity where
  "empty_identity = \<lparr>device_id = zbuf 16, feature = zbuf 32, point_id = zbuf 32\<rparr>"

definition empty_definition :: point_definition where
  "empty_definition =
     \<lparr>pd_id = empty_identity, display_name = zbuf 32, backend = BackendLocal,
      direction = DirInput, value_type = TyBool,
      polling = \<lparr>refresh_ms = 1000, timeout_ms = 3000\<rparr>, string_capacity = 0,
      scale = f32_one, unit_text = zbuf 10, enum_def = 0,
      ref = modbus_ref 0 1 0 1 TableHoldingRegisters AccessRead\<rparr>"

text \<open>The definition whose bytes are all zero, as \<open>memset\<close> leaves it.\<close>

definition zeroed_definition :: point_definition where
  "zeroed_definition =
     \<lparr>pd_id = empty_identity, display_name = zbuf 32, backend = BackendLocal,
      direction = DirInput, value_type = TyBool,
      polling = \<lparr>refresh_ms = 0, timeout_ms = 0\<rparr>, string_capacity = 0,
      scale = 0, unit_text = zbuf 10, enum_def = 0, ref = zbuf ref_size\<rparr>"

section \<open>Point values and states\<close>

text \<open>
  The union \<open>PointValue\<close>: a write through a narrow member replaces its low bytes only.
\<close>

type_synonym point_value = u32

definition pv_b :: "point_value \<Rightarrow> bool" where
  "pv_b v = (v AND 0xFF \<noteq> 0)"

definition pv_u16 :: "point_value \<Rightarrow> u16" where
  "pv_u16 v = ucast v"

definition pv_set_b :: "bool \<Rightarrow> point_value \<Rightarrow> point_value" where
  "pv_set_b b v = (v AND 0xFFFFFF00) OR (if b then 1 else 0)"

definition pv_set_u16 :: "u16 \<Rightarrow> point_value \<Rightarrow> point_value" where
  "pv_set_u16 w v = (v AND 0xFFFF0000) OR ucast w"

lemma bit_mask_low16: "bit (0xFFFF0000 :: int) n = (16 \<le> n \<and> n < 32)"
proof -
  have e: "(0xFFFF0000 :: int) = push_bit 16 (mask 16)"
    by (simp add: mask_eq_exp_minus_1 push_bit_eq_mult)
  show ?thesis unfolding e bit_push_bit_iff bit_mask_iff by auto
qed

lemma pv_u16_set_u16 [simp]: "pv_u16 (pv_set_u16 w v) = w"
  by (rule bit_word_eqI) (simp add: pv_u16_def pv_set_u16_def bit_simps bit_mask_low16)

lemma pv_b_set_b [simp]: "pv_b (pv_set_b b v) = b"
proof -
  have "(v AND 0xFFFFFF00 OR w) AND 0xFF = w AND 0xFF" for w :: u32
  proof -
    have "(v AND 0xFFFFFF00 OR w) AND 0xFF = (v AND (0xFFFFFF00 AND 0xFF)) OR (w AND 0xFF)"
      by (simp only: and.assoc bit.conj_disj_distrib2)
    then show ?thesis by simp
  qed
  then show ?thesis by (simp add: pv_b_def pv_set_b_def)
qed

record point_state =
  ps_value :: point_value
  string_value :: "u8 list"
  quality :: point_quality
  last_update_ms :: u32
  last_good_update_ms :: u32

record point_command_state =
  last_commanded_value :: point_value
  last_commanded_string :: "u8 list"
  command_quality :: point_command_quality
  last_command_ts_ms :: u32
  last_ack_ts_ms :: u32
  pending :: bool

definition empty_state :: point_state where
  "empty_state =
     \<lparr>ps_value = 0, string_value = zbuf 64, quality = QUnknown, last_update_ms = 0,
      last_good_update_ms = 0\<rparr>"

definition empty_command_state :: point_command_state where
  "empty_command_state =
     \<lparr>last_commanded_value = 0, last_commanded_string = zbuf 64,
      command_quality = CmdUnknown, last_command_ts_ms = 0, last_ack_ts_ms = 0,
      pending = False\<rparr>"

end
