(* ===== verification/CatalogModel.thy ===== *)
theory CatalogModel
  imports PlcTypes
begin

text \<open>
  The state of \<open>PointCatalog\<close> (\<open>PointCatalog.h\<close>) and the parts of \<open>PointCatalog.cpp\<close> that
  do not change it: the classification of point identities, the comparison of states and
  definitions, the open-addressing index and its lookup. An array member is a function
  from its indices; every access of the code is at an index below the array's capacity.
  The point states, which the code keeps in a reserved SDRAM window, are the array
  \<open>cat_states\<close> of the same record.
\<close>

section \<open>State\<close>

definition kMaxPoints :: nat where
  "kMaxPoints = 1024"

definition kIndexCapacity :: nat where
  "kIndexCapacity = 1024"

definition kInvalidIndex :: u16 where
  "kInvalidIndex = 0xFFFF"

datatype plc_point_kind =
  KindNone | EngineEnabled | EngineClearFault | SlotStart | SlotStop | SlotReset
| SlotClearFault | SlotOther

record plc_point_meta =
  is_local :: bool
  has_slot :: bool
  meta_slot_id :: u16
  point_kind :: plc_point_kind

record browse_device_meta =
  bd_catalog_index :: u16
  feature_start :: u16
  feature_count :: u16
  encoded_features_size :: u16

record point_catalog =
  cat_entries :: "nat \<Rightarrow> point_definition"
  cat_states :: "nat \<Rightarrow> point_state"
  cat_command_states :: "nat \<Rightarrow> point_command_state"
  cat_meta :: "nat \<Rightarrow> plc_point_meta"
  browse_devices :: "nat \<Rightarrow> browse_device_meta"
  browse_feature_indices :: "nat \<Rightarrow> u16"
  index_slots :: "nat \<Rightarrow> u16"
  cat_count :: nat
  browse_device_count :: nat
  browse_feature_count :: nat
  batch_update_depth :: nat
  batch_browse_rebuild_pending :: bool
  dirty_queue :: "nat \<Rightarrow> u16"
  dirty_sequence_queue :: "nat \<Rightarrow> u32"
  dirty_flags :: "nat \<Rightarrow> u8"
  dirty_head :: nat
  dirty_tail :: nat
  dirty_count :: nat
  full_sync_required :: bool
  defs_generation :: u32
  states_sequence :: u32

definition empty_meta :: plc_point_meta where
  "empty_meta = \<lparr>is_local = False, has_slot = False, meta_slot_id = 0, point_kind = KindNone\<rparr>"

definition empty_browse_device :: browse_device_meta where
  "empty_browse_device =
     \<lparr>bd_catalog_index = 0, feature_start = 0, feature_count = 0, encoded_features_size = 0\<rparr>"

section \<open>Identities\<close>

definition identitiesEqual :: "point_identity \<Rightarrow> point_identity \<Rightarrow> bool" where
  "identitiesEqual lhs rhs =
     (strcmp_eq (device_id lhs) (device_id rhs) \<and>
      strcmp_eq (feature lhs) (feature rhs) \<and>
      strcmp_eq (point_id lhs) (point_id rhs))"

text \<open>The lambda \<open>append_text\<close>: the bytes of the string, then its NUL.\<close>

definition append_text :: "u32 \<Rightarrow> u8 list \<Rightarrow> u32" where
  "append_text hash text = (fnv1a hash (cstr text) XOR 0) * fnv_prime"

definition hashIdentity :: "point_identity \<Rightarrow> u32" where
  "hashIdentity pid =
     append_text (append_text (append_text fnv_offset (device_id pid)) (feature pid))
       (point_id pid)"

definition identity_key :: "point_identity \<Rightarrow> u8 list \<times> u8 list \<times> u8 list" where
  "identity_key pid = (cstr (device_id pid), cstr (feature pid), cstr (point_id pid))"

lemma identitiesEqual_iff_key: "identitiesEqual a b \<longleftrightarrow> identity_key a = identity_key b"
  by (simp add: identitiesEqual_def strcmp_eq_def identity_key_def)

lemma hashIdentity_key: "identity_key a = identity_key b \<Longrightarrow> hashIdentity a = hashIdentity b"
  by (simp add: identity_key_def hashIdentity_def append_text_def)

section \<open>Classification of slot points\<close>

definition starts_with :: "u8 list \<Rightarrow> u8 list \<Rightarrow> bool" where
  "starts_with text prefix = strncmp_eq (length (cstr prefix)) text prefix"

definition slot_prefix :: "u8 list" where
  "slot_prefix = lit ''plc.slot''"

text \<open>
  The digit loop of \<open>parse_slot_feature_suffix\<close> from \<open>cursor\<close> on; the string ends at the
  end of the list.
\<close>

fun parse_slot_digits :: "u32 \<Rightarrow> u8 list \<Rightarrow> u16 option" where
  "parse_slot_digits parsed [] = Some (ucast parsed)"
| "parse_slot_digits parsed (c # cs) =
     (if is_ascii_digit c then
        (let parsed' = parsed * 10 + ucast (c - 48) in
         if 0xFFFF < parsed' then None else parse_slot_digits parsed' cs)
      else None)"

definition parse_slot_feature_suffix :: "u8 list \<Rightarrow> u16 option" where
  "parse_slot_feature_suffix feat =
     (if \<not> starts_with feat slot_prefix then None
      else (case drop 8 (cstr feat) of
              [] \<Rightarrow> None
            | c # cs \<Rightarrow> if is_ascii_digit c then parse_slot_digits 0 (c # cs) else None))"

definition reserved_point_ids :: "string list" where
  "reserved_point_ids =
     [''loaded'', ''state'', ''runEnabled'', ''status'', ''cycleCounter'', ''faultCode'',
      ''faultInfo'', ''bytecodeSize'', ''loadEpoch'', ''objectSize'', ''paramsSummary'',
      ''start'', ''stop'', ''reset'', ''clearFault'']"

definition is_transient_slot_variable :: "point_identity \<Rightarrow> bool" where
  "is_transient_slot_variable pid =
     (if \<not> strncmp_eq 8 (feature pid) slot_prefix then False
      else (case drop 8 (cstr (feature pid)) of
              [] \<Rightarrow> False
            | c # cs \<Rightarrow>
                if \<not> is_ascii_digit c then False
                else if dropWhile is_ascii_digit (c # cs) \<noteq> [] then False
                else if list_ex (\<lambda>r. strcmp_eq (point_id pid) (lit r)) reserved_point_ids
                then False
                else cstr (point_id pid) \<noteq> []))"

definition classifyPlcPointMeta :: "point_definition \<Rightarrow> plc_point_meta" where
  "classifyPlcPointMeta d =
     (let meta = empty_meta\<lparr>is_local := (backend d = BackendLocal)\<rparr>;
          feat = feature (pd_id d); pt = point_id (pd_id d)
      in if \<not> is_local meta then meta
         else if strcmp_eq feat (lit ''plc'') then
           (if strcmp_eq pt (lit ''engineEnabled'') then meta\<lparr>point_kind := EngineEnabled\<rparr>
            else if strcmp_eq pt (lit ''engineClearFault'')
            then meta\<lparr>point_kind := EngineClearFault\<rparr>
            else meta)
         else (case parse_slot_feature_suffix feat of
             None \<Rightarrow> meta
           | Some slot \<Rightarrow>
               meta\<lparr>has_slot := True, meta_slot_id := slot,
                 point_kind :=
                   (if strcmp_eq pt (lit ''start'') then SlotStart
                    else if strcmp_eq pt (lit ''stop'') then SlotStop
                    else if strcmp_eq pt (lit ''reset'') then SlotReset
                    else if strcmp_eq pt (lit ''clearFault'') then SlotClearFault
                    else SlotOther)\<rparr>))"

definition is_slot_variable_point :: "point_definition \<Rightarrow> plc_point_meta \<Rightarrow> u16 \<Rightarrow> bool" where
  "is_slot_variable_point d meta slot_id =
     (is_local meta \<and> has_slot meta \<and> meta_slot_id meta = slot_id \<and>
      point_kind meta = SlotOther \<and> is_transient_slot_variable (pd_id d))"

section \<open>Comparisons\<close>

definition point_state_payload_equal :: "point_value_type \<Rightarrow> point_state \<Rightarrow> point_state \<Rightarrow> bool" where
  "point_state_payload_equal ty lhs rhs =
     (if quality lhs \<noteq> quality rhs then False
      else (case ty of
          TyBool \<Rightarrow> pv_b (ps_value lhs) = pv_b (ps_value rhs)
        | TyUint16 \<Rightarrow> pv_u16 (ps_value lhs) = pv_u16 (ps_value rhs)
        | TyInt16 \<Rightarrow> pv_u16 (ps_value lhs) = pv_u16 (ps_value rhs)
        | TyUint32 \<Rightarrow> ps_value lhs = ps_value rhs
        | TyInt32 \<Rightarrow> ps_value lhs = ps_value rhs
        | TyFloat \<Rightarrow> f32_eq (ps_value lhs) (ps_value rhs)
        | TyEnum \<Rightarrow> ps_value lhs = ps_value rhs
        | TyString \<Rightarrow> strncmp_eq 64 (string_value lhs) (string_value rhs)
        | TyRaw _ \<Rightarrow> False))"

definition point_definitions_equal :: "point_definition \<Rightarrow> point_definition \<Rightarrow> bool" where
  "point_definitions_equal lhs rhs =
     (strcmp_eq (device_id (pd_id lhs)) (device_id (pd_id rhs)) \<and>
      strcmp_eq (feature (pd_id lhs)) (feature (pd_id rhs)) \<and>
      strcmp_eq (point_id (pd_id lhs)) (point_id (pd_id rhs)) \<and>
      strcmp_eq (display_name lhs) (display_name rhs) \<and>
      backend lhs = backend rhs \<and>
      direction lhs = direction rhs \<and>
      value_type lhs = value_type rhs \<and>
      refresh_ms (polling lhs) = refresh_ms (polling rhs) \<and>
      timeout_ms (polling lhs) = timeout_ms (polling rhs) \<and>
      string_capacity lhs = string_capacity rhs \<and>
      f32_eq (scale lhs) (scale rhs) \<and>
      strcmp_eq (unit_text lhs) (unit_text rhs) \<and>
      enum_def lhs = enum_def rhs \<and>
      ref lhs = ref rhs)"

definition copy_string :: "u8 list \<Rightarrow> nat \<Rightarrow> u8 list option \<Rightarrow> u8 list" where
  "copy_string dst dst_size src =
     (if dst_size = 0 then dst
      else (case src of
              None \<Rightarrow> dst[0 := 0]
            | Some s \<Rightarrow> (strncpy dst s (dst_size - 1))[dst_size - 1 := 0]))"

section \<open>The identity index\<close>

definition slot_hash :: "point_identity \<Rightarrow> nat" where
  "slot_hash pid = unat (hashIdentity pid AND 0x3FF)"

text \<open>
  The probe loops. The first argument is the number of probes left; \<open>slot\<close> advances
  modulo the capacity, which the code writes as a mask.
\<close>

fun lookup_probe :: "point_catalog \<Rightarrow> point_identity \<Rightarrow> nat \<Rightarrow> nat \<Rightarrow> nat" where
  "lookup_probe c pid 0 slot = cat_count c"
| "lookup_probe c pid (Suc left) slot =
     (let entry_index = index_slots c slot in
      if entry_index = kInvalidIndex then cat_count c
      else if unat entry_index < cat_count c \<and>
              identitiesEqual (pd_id (cat_entries c (unat entry_index))) pid
      then unat entry_index
      else lookup_probe c pid left ((slot + 1) mod kIndexCapacity))"

definition lookupIndex :: "point_catalog \<Rightarrow> point_identity \<Rightarrow> nat" where
  "lookupIndex c pid =
     (if cat_count c = 0 then cat_count c
      else lookup_probe c pid kIndexCapacity (slot_hash pid))"

fun insert_probe :: "point_catalog \<Rightarrow> point_identity \<Rightarrow> nat \<Rightarrow> nat \<Rightarrow> nat \<Rightarrow> point_catalog" where
  "insert_probe c pid i 0 slot = c"
| "insert_probe c pid i (Suc left) slot =
     (let entry_index = index_slots c slot in
      if entry_index = kInvalidIndex
      then c\<lparr>index_slots := (index_slots c)(slot := of_nat i)\<rparr>
      else if unat entry_index < cat_count c \<and>
              identitiesEqual (pd_id (cat_entries c (unat entry_index))) pid
      then c\<lparr>index_slots := (index_slots c)(slot := of_nat i)\<rparr>
      else insert_probe c pid i left ((slot + 1) mod kIndexCapacity))"

definition insertIndex :: "point_catalog \<Rightarrow> point_identity \<Rightarrow> nat \<Rightarrow> point_catalog" where
  "insertIndex c pid i = insert_probe c pid i kIndexCapacity (slot_hash pid)"

definition resetIndex :: "point_catalog \<Rightarrow> point_catalog" where
  "resetIndex c =
     c\<lparr>index_slots := (\<lambda>slot. if slot < kIndexCapacity then kInvalidIndex
                              else index_slots c slot)\<rparr>"

text \<open>The loop of \<open>rebuildIndex\<close> over the indices below \<open>n\<close>.\<close>

fun insert_upto :: "point_catalog \<Rightarrow> nat \<Rightarrow> point_catalog" where
  "insert_upto c 0 = c"
| "insert_upto c (Suc n) =
     (let c' = insert_upto c n in insertIndex c' (pd_id (cat_entries c' n)) n)"

definition rebuildIndex :: "point_catalog \<Rightarrow> point_catalog" where
  "rebuildIndex c = insert_upto (resetIndex c) (cat_count c)"

definition findIndex :: "point_catalog \<Rightarrow> point_identity \<Rightarrow> nat" where
  "findIndex c pid = lookupIndex c pid"

definition find_definition :: "point_catalog \<Rightarrow> point_identity \<Rightarrow> point_definition option" where
  "find_definition c pid =
     (let i = lookupIndex c pid in if i < cat_count c then Some (cat_entries c i) else None)"

definition findState :: "point_catalog \<Rightarrow> point_identity \<Rightarrow> point_state option" where
  "findState c pid =
     (let i = lookupIndex c pid in if i < cat_count c then Some (cat_states c i) else None)"

definition findCommandState ::
  "point_catalog \<Rightarrow> point_identity \<Rightarrow> point_command_state option" where
  "findCommandState c pid =
     (let i = lookupIndex c pid
      in if i < cat_count c then Some (cat_command_states c i) else None)"

definition plcPointMeta :: "point_catalog \<Rightarrow> nat \<Rightarrow> plc_point_meta" where
  "plcPointMeta c i = (if i < cat_count c then cat_meta c i else empty_meta)"

end
