(* ===== verification/CatalogIndex.thy ===== *)
theory CatalogIndex
  imports CatalogModel
begin

text \<open>
  Correctness of the catalog's open-addressing index: after \<open>rebuildIndex\<close>, a lookup
  answers exactly as a linear search from the end of the catalog would, with up to
  \<open>kMaxPoints\<close> entries in a table of the same capacity (so the table may be full), and
  with identities that may repeat.
\<close>

section \<open>The reference: a linear search\<close>

fun last_match_upto :: "point_catalog \<Rightarrow> point_identity \<Rightarrow> nat \<Rightarrow> nat option" where
  "last_match_upto c pid 0 = None"
| "last_match_upto c pid (Suc n) =
     (if identitiesEqual (pd_id (cat_entries c n)) pid then Some n
      else last_match_upto c pid n)"

definition linear_find :: "point_catalog \<Rightarrow> point_identity \<Rightarrow> nat" where
  "linear_find c pid =
     (case last_match_upto c pid (cat_count c) of None \<Rightarrow> cat_count c | Some i \<Rightarrow> i)"

lemma last_match_upto_None:
  "last_match_upto c pid n = None \<longleftrightarrow>
     (\<forall>i<n. \<not> identitiesEqual (pd_id (cat_entries c i)) pid)"
  by (induction n) (auto simp: less_Suc_eq)

lemma last_match_upto_Some:
  "last_match_upto c pid n = Some i \<longleftrightarrow>
     (i < n \<and> identitiesEqual (pd_id (cat_entries c i)) pid \<and>
      (\<forall>j. i < j \<longrightarrow> j < n \<longrightarrow> \<not> identitiesEqual (pd_id (cat_entries c j)) pid))"
proof (induction n)
  case 0
  then show ?case by simp
next
  case (Suc n)
  show ?case
  proof (cases "identitiesEqual (pd_id (cat_entries c n)) pid")
    case True
    then show ?thesis by (auto simp: less_Suc_eq)
  next
    case False
    with Suc show ?thesis by (auto simp: less_Suc_eq)
  qed
qed

section \<open>Probe sequences\<close>

definition key_at :: "point_catalog \<Rightarrow> nat \<Rightarrow> u8 list \<times> u8 list \<times> u8 list" where
  "key_at c i = identity_key (pd_id (cat_entries c i))"

definition probe_pos :: "point_identity \<Rightarrow> nat \<Rightarrow> nat" where
  "probe_pos pid d = (slot_hash pid + d) mod kIndexCapacity"

definition occupied :: "point_catalog \<Rightarrow> nat \<Rightarrow> bool" where
  "occupied c s = (index_slots c s \<noteq> kInvalidIndex)"

definition slot_entry :: "point_catalog \<Rightarrow> nat \<Rightarrow> nat" where
  "slot_entry c s = unat (index_slots c s)"

text \<open>The slots before step \<open>d\<close> hold other identities.\<close>

definition passes :: "point_catalog \<Rightarrow> point_identity \<Rightarrow> nat \<Rightarrow> bool" where
  "passes c pid d =
     (\<forall>e<d. occupied c (probe_pos pid e) \<and>
            key_at c (slot_entry c (probe_pos pid e)) \<noteq> identity_key pid)"

definition entry_id :: "point_catalog \<Rightarrow> nat \<Rightarrow> point_identity" where
  "entry_id c i = pd_id (cat_entries c i)"

text \<open>The table after the entries below \<open>n\<close> were inserted in order.\<close>

definition index_ok :: "point_catalog \<Rightarrow> nat \<Rightarrow> bool" where
  "index_ok c n \<longleftrightarrow>
     n \<le> cat_count c \<and> cat_count c \<le> kMaxPoints \<and>
     (\<forall>s<kIndexCapacity. occupied c s \<longrightarrow>
        slot_entry c s < n \<and>
        (\<forall>j. slot_entry c s < j \<longrightarrow> j < n \<longrightarrow> key_at c j \<noteq> key_at c (slot_entry c s)) \<and>
        (\<exists>d<kIndexCapacity. probe_pos (entry_id c (slot_entry c s)) d = s \<and>
                            passes c (entry_id c (slot_entry c s)) d)) \<and>
     (\<forall>i<n. \<exists>s<kIndexCapacity. occupied c s \<and> key_at c (slot_entry c s) = key_at c i)"

definition catalog_ok :: "point_catalog \<Rightarrow> bool" where
  "catalog_ok c = index_ok c (cat_count c)"

lemma kIndexCapacity_pos [simp]: "0 < kIndexCapacity"
  by (simp add: kIndexCapacity_def)

lemma slot_hash_lt: "slot_hash pid < kIndexCapacity"
proof -
  have "hashIdentity pid AND 0x3FF \<le> 0x3FF"
    by (rule word_and_le1)
  then show ?thesis
    by (simp add: slot_hash_def kIndexCapacity_def word_le_nat_alt)
qed

lemma slot_hash_key: "identity_key a = identity_key b \<Longrightarrow> slot_hash a = slot_hash b"
  using hashIdentity_key [of a b] by (simp add: slot_hash_def)

lemma probe_pos_lt [simp]: "probe_pos pid d < kIndexCapacity"
  by (simp add: probe_pos_def)

lemma probe_pos_0: "probe_pos pid 0 = slot_hash pid"
  using slot_hash_lt [of pid] by (simp add: probe_pos_def)

lemma probe_pos_Suc: "(probe_pos pid d + 1) mod kIndexCapacity = probe_pos pid (Suc d)"
  by (simp add: probe_pos_def mod_simps)

lemma probe_pos_key: "identity_key a = identity_key b \<Longrightarrow> probe_pos a d = probe_pos b d"
  using slot_hash_key [of a b] by (simp add: probe_pos_def)

lemma probe_pos_surj:
  assumes "s < kIndexCapacity"
  shows "\<exists>d<kIndexCapacity. probe_pos pid d = s"
proof -
  let ?d = "(s + (kIndexCapacity - slot_hash pid)) mod kIndexCapacity"
  have "(slot_hash pid + ?d) mod kIndexCapacity =
        (slot_hash pid + (s + (kIndexCapacity - slot_hash pid))) mod kIndexCapacity"
    by (simp add: mod_simps)
  also have "\<dots> = s"
    using assms slot_hash_lt [of pid] by simp
  finally have "probe_pos pid ?d = s" by (simp add: probe_pos_def)
  then show ?thesis by (intro exI [of _ ?d]) simp
qed

lemma passes_key:
  assumes "identity_key a = identity_key b"
  shows "passes c a d = passes c b d"
  using probe_pos_key [OF assms] assms by (simp add: passes_def)

lemma identitiesEqual_key_at:
  "identitiesEqual (pd_id (cat_entries c i)) pid \<longleftrightarrow> key_at c i = identity_key pid"
  by (simp add: identitiesEqual_iff_key key_at_def)

lemma key_at_entry_id: "identity_key (entry_id c i) = key_at c i"
  by (simp add: key_at_def entry_id_def)

section \<open>Lookup\<close>

lemma lookup_probe_result:
  "lookup_probe c pid left slot = cat_count c \<or>
   (lookup_probe c pid left slot < cat_count c \<and>
    key_at c (lookup_probe c pid left slot) = identity_key pid)"
  by (induction c pid left slot rule: lookup_probe.induct)
     (auto simp: Let_def identitiesEqual_key_at)

lemma lookup_probe_walk:
  assumes "passes c pid d" and "d \<le> left"
  shows "lookup_probe c pid left (probe_pos pid 0) =
         lookup_probe c pid (left - d) (probe_pos pid d)"
  using assms
proof (induction d)
  case 0
  then show ?case by simp
next
  case (Suc d)
  from Suc.prems obtain l where l: "left - d = Suc l" and l': "left - Suc d = l"
    by (metis Suc_diff_Suc Suc_le_eq)
  have at: "occupied c (probe_pos pid d)"
    "key_at c (slot_entry c (probe_pos pid d)) \<noteq> identity_key pid"
    using Suc.prems(1) by (auto simp: passes_def)
  have "lookup_probe c pid left (probe_pos pid 0) = lookup_probe c pid (Suc l) (probe_pos pid d)"
    using Suc by (simp add: passes_def l)
  also have "\<dots> = lookup_probe c pid l (probe_pos pid (Suc d))"
    using at probe_pos_Suc [of pid d]
    by (auto simp: Let_def occupied_def slot_entry_def identitiesEqual_key_at)
  finally show ?case by (simp add: l')
qed

lemma index_ok_slotD:
  assumes "index_ok c n" "s < kIndexCapacity" "occupied c s"
  shows "slot_entry c s < n"
    and "\<And>j. slot_entry c s < j \<Longrightarrow> j < n \<Longrightarrow> key_at c j \<noteq> key_at c (slot_entry c s)"
    and "\<exists>d<kIndexCapacity. probe_pos (entry_id c (slot_entry c s)) d = s \<and>
                            passes c (entry_id c (slot_entry c s)) d"
  using assms unfolding index_ok_def by blast+

lemma index_ok_cover:
  "index_ok c n \<Longrightarrow> i < n \<Longrightarrow>
     \<exists>s<kIndexCapacity. occupied c s \<and> key_at c (slot_entry c s) = key_at c i"
  unfolding index_ok_def by blast

text \<open>The table is injective: equal identities share one slot.\<close>

lemma index_ok_unique:
  assumes ok: "index_ok c n"
    and s: "s < kIndexCapacity" "occupied c s"
    and t: "t < kIndexCapacity" "occupied c t"
    and eq: "key_at c (slot_entry c s) = key_at c (slot_entry c t)"
  shows "s = t"
proof -
  let ?is = "entry_id c (slot_entry c s)" and ?it = "entry_id c (slot_entry c t)"
  obtain d where d: "probe_pos ?is d = s" "passes c ?is d"
    using index_ok_slotD(3) [OF ok s] by blast
  obtain e where e: "probe_pos ?it e = t" "passes c ?it e"
    using index_ok_slotD(3) [OF ok t] by blast
  have k: "identity_key ?is = identity_key ?it"
    using eq by (simp add: key_at_entry_id)
  have pos: "probe_pos ?it x = probe_pos ?is x" for x
    using probe_pos_key [OF k] by simp
  have "\<not> d < e"
  proof
    assume "d < e"
    with e(2) have "key_at c (slot_entry c (probe_pos ?it d)) \<noteq> identity_key ?it"
      by (simp add: passes_def)
    then show False using d(1) eq by (simp add: pos key_at_entry_id)
  qed
  moreover have "\<not> e < d"
  proof
    assume "e < d"
    with d(2) have "key_at c (slot_entry c (probe_pos ?is e)) \<noteq> identity_key ?is"
      by (simp add: passes_def)
    then show False using e(1) eq by (simp add: pos key_at_entry_id)
  qed
  ultimately have "d = e" by simp
  have "s = probe_pos ?is d" using d(1) by (rule sym)
  also have "\<dots> = probe_pos ?it d" using pos [of d] by (rule sym)
  also have "\<dots> = t" using e(1) \<open>d = e\<close> by (simp only:)
  finally show ?thesis .
qed

lemma lookupIndex_present:
  assumes ok: "catalog_ok c" and i: "i < cat_count c" "key_at c i = identity_key pid"
  shows "lookupIndex c pid < cat_count c"
    and "key_at c (lookupIndex c pid) = identity_key pid"
    and "\<And>j. lookupIndex c pid < j \<Longrightarrow> j < cat_count c \<Longrightarrow> key_at c j \<noteq> identity_key pid"
proof -
  from ok have ok': "index_ok c (cat_count c)" by (simp add: catalog_ok_def)
  then obtain s where s: "s < kIndexCapacity" "occupied c s"
      "key_at c (slot_entry c s) = identity_key pid"
    using index_ok_cover [OF ok' i(1)] i(2) by auto
  have k: "identity_key (entry_id c (slot_entry c s)) = identity_key pid"
    using s(3) by (simp add: key_at_entry_id)
  obtain d where d: "d < kIndexCapacity"
      "probe_pos (entry_id c (slot_entry c s)) d = s" "passes c (entry_id c (slot_entry c s)) d"
    using index_ok_slotD(3) [OF ok' s(1,2)] by blast
  from d have d': "probe_pos pid d = s" "passes c pid d"
    using probe_pos_key [OF k] passes_key [OF k] by simp_all
  note last = index_ok_slotD(1,2) [OF ok' s(1,2)]
  obtain l where l: "kIndexCapacity - d = Suc l"
    using d(1) by (metis Suc_diff_Suc)
  have "lookupIndex c pid = lookup_probe c pid (Suc l) s"
    using lookup_probe_walk [OF d'(2), of kIndexCapacity] d(1) i(1)
    by (simp add: lookupIndex_def probe_pos_0 d'(1) l del: lookup_probe.simps)
  also have "\<dots> = slot_entry c s"
    using s last(1) by (simp add: Let_def occupied_def slot_entry_def identitiesEqual_key_at)
  finally have eq: "lookupIndex c pid = slot_entry c s" .
  show "lookupIndex c pid < cat_count c" using eq last(1) by simp
  show "key_at c (lookupIndex c pid) = identity_key pid" using eq s(3) by simp
  show "\<And>j. lookupIndex c pid < j \<Longrightarrow> j < cat_count c \<Longrightarrow> key_at c j \<noteq> identity_key pid"
    using eq last(2) s(3) by simp
qed

lemma lookupIndex_found:
  "lookupIndex c pid < cat_count c \<Longrightarrow> key_at c (lookupIndex c pid) = identity_key pid"
  using lookup_probe_result [of c pid kIndexCapacity "slot_hash pid"]
  by (auto simp: lookupIndex_def split: if_splits)

lemma lookupIndex_le: "lookupIndex c pid \<le> cat_count c"
  using lookup_probe_result [of c pid kIndexCapacity "slot_hash pid"]
  by (auto simp: lookupIndex_def split: if_splits)

lemma lookupIndex_eq_linear:
  assumes "catalog_ok c"
  shows "lookupIndex c pid = linear_find c pid"
proof (cases "last_match_upto c pid (cat_count c)")
  case None
  then have "\<forall>i<cat_count c. key_at c i \<noteq> identity_key pid"
    by (simp add: last_match_upto_None identitiesEqual_key_at)
  then have "\<not> lookupIndex c pid < cat_count c"
    using lookupIndex_found [of c pid] by blast
  with lookupIndex_le [of c pid] None show ?thesis
    by (simp add: linear_find_def)
next
  case (Some i)
  then have i: "i < cat_count c" "key_at c i = identity_key pid"
    and last: "\<And>j. i < j \<Longrightarrow> j < cat_count c \<Longrightarrow> key_at c j \<noteq> identity_key pid"
    by (auto simp: last_match_upto_Some identitiesEqual_key_at)
  note p = lookupIndex_present [OF assms i]
  have "\<not> i < lookupIndex c pid" using last p(1,2) by blast
  moreover have "\<not> lookupIndex c pid < i" using p(3) [of i] i by blast
  ultimately show ?thesis using Some by (simp add: linear_find_def)
qed

section \<open>Insertion and rebuild\<close>

lemma insert_probe_walk:
  assumes "passes c pid d" and "d \<le> left"
  shows "insert_probe c pid i left (probe_pos pid 0) =
         insert_probe c pid i (left - d) (probe_pos pid d)"
  using assms
proof (induction d)
  case 0
  then show ?case by simp
next
  case (Suc d)
  from Suc.prems obtain l where l: "left - d = Suc l" and l': "left - Suc d = l"
    by (metis Suc_diff_Suc Suc_le_eq)
  have at: "occupied c (probe_pos pid d)"
    "key_at c (slot_entry c (probe_pos pid d)) \<noteq> identity_key pid"
    using Suc.prems(1) by (auto simp: passes_def)
  have "insert_probe c pid i left (probe_pos pid 0) =
        insert_probe c pid i (Suc l) (probe_pos pid d)"
    using Suc by (simp add: passes_def l)
  also have "\<dots> = insert_probe c pid i l (probe_pos pid (Suc d))"
    using at probe_pos_Suc [of pid d]
    by (auto simp: Let_def occupied_def slot_entry_def identitiesEqual_key_at)
  finally show ?case by (simp add: l')
qed

text \<open>Fewer entries than slots leave a free slot.\<close>

lemma free_slot_exists:
  assumes ok: "index_ok c n" and n: "n < kIndexCapacity"
  shows "\<exists>s<kIndexCapacity. \<not> occupied c s"
proof (rule ccontr)
  assume "\<not> ?thesis"
  then have all: "\<And>s. s < kIndexCapacity \<Longrightarrow> occupied c s" by blast
  have "inj_on (slot_entry c) {..<kIndexCapacity}"
    by (rule inj_onI) (use index_ok_unique [OF ok] all in auto)
  moreover have "slot_entry c ` {..<kIndexCapacity} \<subseteq> {..<n}"
    using index_ok_slotD(1) [OF ok] all by auto
  ultimately have "kIndexCapacity \<le> n"
    by (metis card_inj_on_le card_lessThan finite_lessThan)
  with n show False by simp
qed

text \<open>
  Where an insertion lands: the first slot of its probe sequence that is free or already
  holds the identity.
\<close>

lemma insertion_point:
  assumes ok: "index_ok c n" and n: "n < kIndexCapacity"
  obtains d where "d < kIndexCapacity" and "passes c pid d"
    and "\<not> occupied c (probe_pos pid d) \<or>
         key_at c (slot_entry c (probe_pos pid d)) = identity_key pid"
proof -
  let ?stop = "\<lambda>d. \<not> occupied c (probe_pos pid d) \<or>
                   key_at c (slot_entry c (probe_pos pid d)) = identity_key pid"
  obtain s where s: "s < kIndexCapacity" "\<not> occupied c s"
    using free_slot_exists [OF assms] by blast
  obtain d0 where d0: "d0 < kIndexCapacity" "probe_pos pid d0 = s"
    using probe_pos_surj [OF s(1)] by blast
  with s have "?stop d0" by simp
  define d where "d = (LEAST d. ?stop d)"
  have "?stop d" unfolding d_def by (rule LeastI [of ?stop, OF \<open>?stop d0\<close>])
  moreover have "d \<le> d0" unfolding d_def by (rule Least_le [of ?stop, OF \<open>?stop d0\<close>])
  moreover have "\<not> ?stop e" if "e < d" for e
    using that unfolding d_def by (rule not_less_Least)
  ultimately show ?thesis
    using d0(1) by (intro that [of d]) (auto simp: passes_def)
qed

lemma insertIndex_at:
  assumes "d < kIndexCapacity" and "passes c pid d"
    and stop: "\<not> occupied c (probe_pos pid d) \<or>
         (slot_entry c (probe_pos pid d) < cat_count c \<and>
          key_at c (slot_entry c (probe_pos pid d)) = identity_key pid)"
  shows "insertIndex c pid i =
         c\<lparr>index_slots := (index_slots c)(probe_pos pid d := of_nat i)\<rparr>"
proof -
  obtain l where l: "kIndexCapacity - d = Suc l"
    using assms(1) by (metis Suc_diff_Suc)
  have "insertIndex c pid i = insert_probe c pid i (Suc l) (probe_pos pid d)"
    using insert_probe_walk [OF assms(2), of kIndexCapacity i] assms(1)
    by (simp add: insertIndex_def probe_pos_0 l del: insert_probe.simps)
  also have "\<dots> = c\<lparr>index_slots := (index_slots c)(probe_pos pid d := of_nat i)\<rparr>"
    using stop
    by (auto simp: Let_def occupied_def slot_entry_def identitiesEqual_key_at)
  finally show ?thesis .
qed

text \<open>What one insertion does to the table, without the probing.\<close>

lemma put_slot_observers:
  fixes c :: point_catalog and p :: nat
  assumes "n < kMaxPoints"
  defines "c' \<equiv> c\<lparr>index_slots := (index_slots c)(p := of_nat n)\<rparr>"
  shows "occupied c' s = (s = p \<or> occupied c s)"
    and "slot_entry c' s = (if s = p then n else slot_entry c s)"
    and "key_at c' i = key_at c i"
    and "entry_id c' i = entry_id c i"
    and "cat_count c' = cat_count c"
proof -
  have n: "unat (of_nat n :: u16) = n"
    using assms(1) by (intro unat_u16_of_nat) (simp add: kMaxPoints_def)
  then have "(of_nat n :: u16) \<noteq> kInvalidIndex"
    using assms(1) by (auto simp: kInvalidIndex_def kMaxPoints_def)
  with n show "occupied c' s = (s = p \<or> occupied c s)"
    and "slot_entry c' s = (if s = p then n else slot_entry c s)"
    by (simp_all add: c'_def occupied_def slot_entry_def)
qed (simp_all add: c'_def key_at_def entry_id_def)

text \<open>No slot other than the insertion point holds the inserted identity.\<close>

lemma insertion_point_unique:
  assumes ok: "index_ok c n"
    and d: "d < kIndexCapacity" "passes c pid d"
      "\<not> occupied c (probe_pos pid d) \<or>
       key_at c (slot_entry c (probe_pos pid d)) = identity_key pid"
    and s: "s < kIndexCapacity" "occupied c s" "s \<noteq> probe_pos pid d"
  shows "key_at c (slot_entry c s) \<noteq> identity_key pid"
proof
  assume eq: "key_at c (slot_entry c s) = identity_key pid"
  then have k: "identity_key (entry_id c (slot_entry c s)) = identity_key pid"
    by (simp add: key_at_entry_id)
  obtain ds where "probe_pos (entry_id c (slot_entry c s)) ds = s"
      "passes c (entry_id c (slot_entry c s)) ds"
    using index_ok_slotD(3) [OF ok s(1,2)] by blast
  then have ds: "probe_pos pid ds = s" "passes c pid ds"
    using probe_pos_key [OF k] passes_key [OF k] by simp_all
  have "\<not> ds < d"
    using d(2) ds(1) eq by (auto simp: passes_def)
  moreover have "\<not> d < ds"
    using ds(2) d(3) by (auto simp: passes_def)
  ultimately show False using s(3) ds(1) by simp
qed

lemma index_ok_insert:
  assumes ok: "index_ok c n" and n: "n < cat_count c"
  shows "index_ok (insertIndex c (entry_id c n) n) (Suc n)"
proof -
  let ?pid = "entry_id c n"
  have max: "cat_count c \<le> kMaxPoints" using ok by (simp add: index_ok_def)
  then have lt: "n < kIndexCapacity" "n < kMaxPoints"
    using n by (simp_all add: kIndexCapacity_def kMaxPoints_def)
  obtain d where d: "d < kIndexCapacity" "passes c ?pid d"
      "\<not> occupied c (probe_pos ?pid d) \<or>
       key_at c (slot_entry c (probe_pos ?pid d)) = identity_key ?pid"
    using insertion_point [OF ok lt(1)] by blast
  let ?p = "probe_pos ?pid d"
  let ?c = "c\<lparr>index_slots := (index_slots c)(?p := of_nat n)\<rparr>"
  have ins: "insertIndex c ?pid n = ?c"
  proof (rule insertIndex_at [OF d(1,2)])
    show "\<not> occupied c ?p \<or>
      slot_entry c ?p < cat_count c \<and> key_at c (slot_entry c ?p) = identity_key ?pid"
      using d(3) index_ok_slotD(1) [OF ok, of ?p] n by fastforce
  qed
  note obs = put_slot_observers [OF lt(2), of c ?p]
  note other = insertion_point_unique [OF ok d]
  have keep: "passes ?c pid e" if "passes c pid e" "identity_key pid \<noteq> identity_key ?pid" for pid e
    using that by (auto simp: passes_def obs key_at_entry_id)
  have here: "passes ?c ?pid d"
    using d(2,3) by (auto simp: passes_def obs)
  have slots: "slot_entry ?c s < Suc n \<and>
      (\<forall>j. slot_entry ?c s < j \<longrightarrow> j < Suc n \<longrightarrow> key_at ?c j \<noteq> key_at ?c (slot_entry ?c s)) \<and>
      (\<exists>e<kIndexCapacity. probe_pos (entry_id ?c (slot_entry ?c s)) e = s \<and>
                          passes ?c (entry_id ?c (slot_entry ?c s)) e)"
    if s: "s < kIndexCapacity" "occupied ?c s" for s
  proof (cases "s = ?p")
    case True
    then show ?thesis using d(1) here by (auto simp: obs)
  next
    case False
    with s have s': "occupied c s" by (simp add: obs)
    note old = index_ok_slotD [OF ok s(1) s']
    have diff: "key_at c (slot_entry c s) \<noteq> identity_key ?pid"
      using other [OF s(1) s' False] .
    have "key_at c j \<noteq> key_at c (slot_entry c s)" if "slot_entry c s < j" "j < Suc n" for j
    proof (cases "j = n")
      case True
      then show ?thesis using diff by (simp add: key_at_entry_id)
    next
      case False
      with that old(2) show ?thesis by simp
    qed
    moreover obtain e where "e < kIndexCapacity" "probe_pos (entry_id c (slot_entry c s)) e = s"
        "passes c (entry_id c (slot_entry c s)) e"
      using old(3) by blast
    moreover have "identity_key (entry_id c (slot_entry c s)) \<noteq> identity_key ?pid"
      using diff by (simp add: key_at_entry_id)
    ultimately show ?thesis
      using old(1) False keep by (auto simp: obs)
  qed
  have cover: "\<exists>s<kIndexCapacity. occupied ?c s \<and> key_at ?c (slot_entry ?c s) = key_at ?c i"
    if "i < Suc n" for i
  proof (cases "i = n")
    case True
    then show ?thesis by (intro exI [of _ ?p]) (simp add: obs)
  next
    case False
    with that have "i < n" by simp
    then obtain s where s: "s < kIndexCapacity" "occupied c s"
        "key_at c (slot_entry c s) = key_at c i"
      using index_ok_cover [OF ok] by blast
    show ?thesis
    proof (cases "s = ?p")
      case True
      with s d(3) have "key_at c n = key_at c i" by (simp add: key_at_entry_id)
      then show ?thesis by (intro exI [of _ ?p]) (simp add: obs)
    next
      case False
      with s show ?thesis by (intro exI [of _ s]) (simp add: obs)
    qed
  qed
  show ?thesis
    unfolding ins index_ok_def using n max slots cover by (simp add: Suc_le_eq)
qed

lemma insert_probe_frame:
  "\<exists>f. insert_probe c pid i left slot = c\<lparr>index_slots := f\<rparr>"
proof (induction c pid i left slot rule: insert_probe.induct)
  case (1 c pid i slot)
  then show ?case by (intro exI [of _ "index_slots c"]) simp
next
  case (2 c pid i left slot)
  then show ?case by (auto simp: Let_def)
qed

lemma insert_upto_frame: "\<exists>f. insert_upto c n = c\<lparr>index_slots := f\<rparr>"
proof (induction n)
  case 0
  then show ?case by (intro exI [of _ "index_slots c"]) simp
next
  case (Suc n)
  then obtain f where f: "insert_upto c n = c\<lparr>index_slots := f\<rparr>" by blast
  show ?case
    using insert_probe_frame [of "c\<lparr>index_slots := f\<rparr>" "pd_id (cat_entries c n)" n
        kIndexCapacity "slot_hash (pd_id (cat_entries c n))"]
    by (auto simp: f Let_def insertIndex_def)
qed

text \<open>Rebuilding the index touches nothing but the table.\<close>

lemma rebuildIndex_frame: "\<exists>f. rebuildIndex c = c\<lparr>index_slots := f\<rparr>"
  using insert_upto_frame [of "resetIndex c" "cat_count c"]
  by (auto simp: rebuildIndex_def resetIndex_def)

lemma index_ok_reset: "cat_count c \<le> kMaxPoints \<Longrightarrow> index_ok (resetIndex c) 0"
  by (simp add: index_ok_def resetIndex_def occupied_def)

lemma index_ok_insert_upto:
  assumes "cat_count c \<le> kMaxPoints" and "n \<le> cat_count c"
  shows "index_ok (insert_upto (resetIndex c) n) n"
  using assms(2)
proof (induction n)
  case 0
  then show ?case using index_ok_reset [OF assms(1)] by simp
next
  case (Suc n)
  let ?c = "insert_upto (resetIndex c) n"
  obtain f where "?c = (resetIndex c)\<lparr>index_slots := f\<rparr>"
    using insert_upto_frame by blast
  then have cnt: "cat_count ?c = cat_count c" by (simp add: resetIndex_def)
  from Suc have "index_ok ?c n" by simp
  then have "index_ok (insertIndex ?c (entry_id ?c n) n) (Suc n)"
    by (rule index_ok_insert) (use Suc.prems cnt in simp)
  then show ?case by (simp add: Let_def entry_id_def)
qed

lemma rebuildIndex_ok: "cat_count c \<le> kMaxPoints \<Longrightarrow> catalog_ok (rebuildIndex c)"
proof -
  assume max: "cat_count c \<le> kMaxPoints"
  obtain f where "rebuildIndex c = c\<lparr>index_slots := f\<rparr>"
    using rebuildIndex_frame by blast
  then have "cat_count (rebuildIndex c) = cat_count c" by simp
  with index_ok_insert_upto [OF max, of "cat_count c"] show ?thesis
    by (simp add: catalog_ok_def rebuildIndex_def)
qed

text \<open>The invariant depends on the table, the identities and the count only.\<close>

lemma catalog_ok_cong:
  assumes "index_slots c' = index_slots c" and "cat_count c' = cat_count c"
    and "\<And>i. pd_id (cat_entries c' i) = pd_id (cat_entries c i)"
  shows "catalog_ok c' = catalog_ok c"
proof -
  have "key_at c' = key_at c" and "entry_id c' = entry_id c"
    and "occupied c' = occupied c" and "slot_entry c' = slot_entry c"
    using assms by (auto simp: key_at_def entry_id_def occupied_def slot_entry_def)
  then show ?thesis
    using assms(2) by (simp add: catalog_ok_def index_ok_def passes_def)
qed

section \<open>The directory interface\<close>

text \<open>
  What the linker, the runtime publisher and the PLC core rely on: a search for an
  identity either misses (the result is the size) or gives an index whose entry has that
  identity, and it misses only when no entry has it.
\<close>

locale identity_directory =
  fixes dsize :: "'c \<Rightarrow> nat"
    and ident :: "'c \<Rightarrow> nat \<Rightarrow> point_identity"
    and search :: "'c \<Rightarrow> point_identity \<Rightarrow> nat"
    and dok :: "'c \<Rightarrow> bool"
  assumes sound: "search c pid < dsize c \<Longrightarrow> identitiesEqual (ident c (search c pid)) pid"
    and complete: "dok c \<Longrightarrow> i < dsize c \<Longrightarrow> identitiesEqual (ident c i) pid \<Longrightarrow>
                   search c pid < dsize c"
begin

lemma search_iff:
  "dok c \<Longrightarrow> search c pid < dsize c \<longleftrightarrow> (\<exists>i<dsize c. identitiesEqual (ident c i) pid)"
  using sound complete by blast

lemma search_distinct:
  assumes "dok c" and "i < dsize c" and "identitiesEqual (ident c i) pid"
    and "\<And>j. j < dsize c \<Longrightarrow> identitiesEqual (ident c j) (ident c i) \<Longrightarrow> j = i"
  shows "search c pid = i"
proof -
  have lt: "search c pid < dsize c" using assms by (blast intro: complete)
  then have "identitiesEqual (ident c (search c pid)) pid" by (rule sound)
  with assms(3) have "identitiesEqual (ident c (search c pid)) (ident c i)"
    by (simp add: identitiesEqual_iff_key)
  with lt show ?thesis by (rule assms(4))
qed

lemma search_same_identity:
  assumes "dok c" and "search c a < dsize c" and "identitiesEqual a b"
  shows "search c b < dsize c"
proof -
  have "identitiesEqual (ident c (search c a)) b"
    using sound [OF assms(2)] assms(3) by (simp add: identitiesEqual_iff_key)
  then show ?thesis by (rule complete [OF assms(1,2)])
qed

end

interpretation catalog_dir: identity_directory cat_count entry_id findIndex catalog_ok
proof unfold_locales
  show "findIndex c pid < cat_count c \<Longrightarrow> identitiesEqual (entry_id c (findIndex c pid)) pid"
    for c pid
    using lookupIndex_found [of c pid]
    by (simp add: findIndex_def identitiesEqual_iff_key key_at_entry_id)
  show "catalog_ok c \<Longrightarrow> i < cat_count c \<Longrightarrow> identitiesEqual (entry_id c i) pid \<Longrightarrow>
      findIndex c pid < cat_count c" for c i pid
    using lookupIndex_present(1) [of c i pid]
    by (simp add: findIndex_def identitiesEqual_iff_key key_at_entry_id)
qed

end
