(* ===== verification/CatalogDirty.thy ===== *)
theory CatalogDirty
  imports CatalogIndex
begin

text \<open>
  Change tracking of \<open>PointCatalog\<close>: the ring buffer of dirty point indices, the bit set
  that keeps an index from being queued twice, the sequence numbers, and the full-sync
  latch. The ring buffer is shown to implement a first-in first-out queue without
  repetitions, which never overflows.
\<close>

section \<open>Operations\<close>

definition zeroed :: "nat \<Rightarrow> (nat \<Rightarrow> 'a::zero) \<Rightarrow> nat \<Rightarrow> 'a" where
  "zeroed n f = (\<lambda>k. if k < n then 0 else f k)"

definition flag_bytes :: nat where
  "flag_bytes = (kMaxPoints + 7) div 8"

definition dirtyStateFlag :: "point_catalog \<Rightarrow> nat \<Rightarrow> bool" where
  "dirtyStateFlag c i =
     (if i \<ge> kMaxPoints then False
      else (let byte_index = i div 8; bit_mask = push_bit (i mod 8) 1
            in dirty_flags c byte_index AND bit_mask \<noteq> 0))"

definition setDirtyStateFlag :: "point_catalog \<Rightarrow> nat \<Rightarrow> bool \<Rightarrow> point_catalog" where
  "setDirtyStateFlag c i dirty =
     (if i \<ge> kMaxPoints then c
      else (let byte_index = i div 8; bit_mask = push_bit (i mod 8) 1;
                old = dirty_flags c byte_index
            in c\<lparr>dirty_flags := (dirty_flags c)
                  (byte_index := (if dirty then old OR bit_mask else old AND NOT bit_mask))\<rparr>))"

definition resetDirtyStateTracking :: "point_catalog \<Rightarrow> point_catalog" where
  "resetDirtyStateTracking c =
     c\<lparr>dirty_queue := zeroed kMaxPoints (dirty_queue c),
       dirty_sequence_queue := zeroed kMaxPoints (dirty_sequence_queue c),
       dirty_flags := zeroed flag_bytes (dirty_flags c),
       dirty_head := 0, dirty_tail := 0, dirty_count := 0,
       full_sync_required := True, states_sequence := 0\<rparr>"

definition requestRuntimeFullSync :: "point_catalog \<Rightarrow> point_catalog" where
  "requestRuntimeFullSync c =
     c\<lparr>dirty_queue := zeroed kMaxPoints (dirty_queue c),
       dirty_sequence_queue := zeroed kMaxPoints (dirty_sequence_queue c),
       dirty_flags := zeroed flag_bytes (dirty_flags c),
       dirty_head := 0, dirty_tail := 0, dirty_count := 0,
       states_sequence :=
         (if \<not> full_sync_required c then states_sequence c + 1 else states_sequence c),
       full_sync_required := True\<rparr>"

definition acknowledgeRuntimeFullSync :: "point_catalog \<Rightarrow> point_catalog" where
  "acknowledgeRuntimeFullSync c = c\<lparr>full_sync_required := False\<rparr>"

definition markStateDirty :: "point_catalog \<Rightarrow> nat \<Rightarrow> point_catalog" where
  "markStateDirty c i =
     (if i \<ge> cat_count c then c
      else if full_sync_required c then c
      else if dirtyStateFlag c i then c
      else
        (let c1 = c\<lparr>states_sequence := states_sequence c + 1\<rparr> in
         if dirty_count c1 \<ge> kMaxPoints then requestRuntimeFullSync c1
         else
           setDirtyStateFlag
             (c1\<lparr>dirty_queue := (dirty_queue c1)(dirty_tail c1 := of_nat i),
                 dirty_sequence_queue :=
                   (dirty_sequence_queue c1)(dirty_tail c1 := states_sequence c1),
                 dirty_tail := (dirty_tail c1 + 1) mod kMaxPoints,
                 dirty_count := dirty_count c1 + 1\<rparr>)
             i True))"

definition peekDirtyStateIndex :: "point_catalog \<Rightarrow> (nat \<times> u32) option" where
  "peekDirtyStateIndex c =
     (if dirty_count c = 0 then None
      else Some (unat (dirty_queue c (dirty_head c)), dirty_sequence_queue c (dirty_head c)))"

definition popDirtyStateIndex :: "point_catalog \<Rightarrow> (nat \<times> point_catalog) option" where
  "popDirtyStateIndex c =
     (case peekDirtyStateIndex c of
        None \<Rightarrow> None
      | Some (index_out, sequence_out) \<Rightarrow>
          Some (index_out,
            setDirtyStateFlag
              (c\<lparr>dirty_head := (dirty_head c + 1) mod kMaxPoints,
                 dirty_count := dirty_count c - 1\<rparr>)
              index_out False))"

definition acknowledgeDirtyStateIndex :: "point_catalog \<Rightarrow> bool \<times> point_catalog" where
  "acknowledgeDirtyStateIndex c =
     (case popDirtyStateIndex c of None \<Rightarrow> (False, c) | Some (i, c') \<Rightarrow> (True, c'))"

definition notifyStateChanged_id :: "point_catalog \<Rightarrow> point_identity \<Rightarrow> bool \<times> point_catalog" where
  "notifyStateChanged_id c pid =
     (let i = lookupIndex c pid in
      if i \<ge> cat_count c then (False, c) else (True, markStateDirty c i))"

definition notifyStateChanged :: "point_catalog \<Rightarrow> nat \<Rightarrow> bool \<times> point_catalog" where
  "notifyStateChanged c i =
     (if i \<ge> cat_count c then (False, c) else (True, markStateDirty c i))"

definition updateState ::
  "point_catalog \<Rightarrow> point_identity \<Rightarrow> point_state \<Rightarrow> bool \<times> point_catalog" where
  "updateState c pid st =
     (let i = lookupIndex c pid in
      if i \<ge> cat_count c then (False, c)
      else
        (let stored = cat_states c i; c' = c\<lparr>cat_states := (cat_states c)(i := st)\<rparr> in
         if point_state_payload_equal (value_type (cat_entries c i)) stored st
         then (True, c')
         else (True, markStateDirty c' i)))"

definition updateCommandState ::
  "point_catalog \<Rightarrow> point_identity \<Rightarrow> point_command_state \<Rightarrow> bool \<times> point_catalog" where
  "updateCommandState c pid cs =
     (let i = lookupIndex c pid in
      if i \<ge> cat_count c then (False, c)
      else (True, c\<lparr>cat_command_states := (cat_command_states c)(i := cs)\<rparr>))"

section \<open>The bit set\<close>

lemma dirtyStateFlag_bit:
  "dirtyStateFlag c i = (i < kMaxPoints \<and> bit (dirty_flags c (i div 8)) (i mod 8))"
  unfolding dirtyStateFlag_def Let_def
  by (auto simp: bit_iff_and_push_bit_not_eq_0 simp del: push_bit_of_1)

lemma dirtyStateFlag_cong: "dirty_flags c = dirty_flags c' \<Longrightarrow> dirtyStateFlag c = dirtyStateFlag c'"
  by (auto simp: dirtyStateFlag_def Let_def fun_eq_iff)

lemma dirtyStateFlag_set:
  assumes "i < kMaxPoints"
  shows "dirtyStateFlag (setDirtyStateFlag c i b) j = (if j = i then b else dirtyStateFlag c j)"
proof -
  have ij: "j div 8 = i div 8 \<Longrightarrow> j mod 8 = i mod 8 \<Longrightarrow> j = i"
    by (metis div_mult_mod_eq)
  have ji: "j < kMaxPoints \<Longrightarrow> j mod 8 < 8" by simp
  show ?thesis
    using assms ij
    by (auto simp: dirtyStateFlag_bit setDirtyStateFlag_def Let_def bit_simps)
qed

lemma dirtyStateFlag_zeroed:
  assumes "dirty_flags c' = zeroed flag_bytes (dirty_flags c)"
  shows "\<not> dirtyStateFlag c' i"
  using assms
  by (auto simp: dirtyStateFlag_bit zeroed_def flag_bytes_def kMaxPoints_def)

lemma setDirtyStateFlag_frame: "\<exists>f. setDirtyStateFlag c i b = c\<lparr>dirty_flags := f\<rparr>"
proof (cases "i \<ge> kMaxPoints")
  case True
  then show ?thesis
    by (intro exI [of _ "dirty_flags c"]) (simp add: setDirtyStateFlag_def)
next
  case False
  then show ?thesis by (auto simp: setDirtyStateFlag_def Let_def)
qed

section \<open>The queue the ring buffer implements\<close>

definition ring_pos :: "point_catalog \<Rightarrow> nat \<Rightarrow> nat" where
  "ring_pos c k = (dirty_head c + k) mod kMaxPoints"

definition dirty_list :: "point_catalog \<Rightarrow> nat list" where
  "dirty_list c = map (\<lambda>k. unat (dirty_queue c (ring_pos c k))) [0..<dirty_count c]"

definition sequence_list :: "point_catalog \<Rightarrow> u32 list" where
  "sequence_list c = map (\<lambda>k. dirty_sequence_queue c (ring_pos c k)) [0..<dirty_count c]"

definition dirty_ok :: "point_catalog \<Rightarrow> bool" where
  "dirty_ok c \<longleftrightarrow>
     cat_count c \<le> kMaxPoints \<and> dirty_count c \<le> kMaxPoints \<and> dirty_head c < kMaxPoints \<and>
     dirty_tail c = ring_pos c (dirty_count c) \<and>
     distinct (dirty_list c) \<and> (\<forall>i \<in> set (dirty_list c). i < cat_count c) \<and>
     (\<forall>i. dirtyStateFlag c i \<longleftrightarrow> i \<in> set (dirty_list c)) \<and>
     (full_sync_required c \<longrightarrow> dirty_count c = 0) \<and>
     (\<forall>k<dirty_count c. sequence_list c ! k =
        states_sequence c - of_nat (dirty_count c - 1 - k))"

lemma length_dirty_list [simp]: "length (dirty_list c) = dirty_count c"
  by (simp add: dirty_list_def)

lemma length_sequence_list [simp]: "length (sequence_list c) = dirty_count c"
  by (simp add: sequence_list_def)

lemma kMaxPoints_pos [simp]: "0 < kMaxPoints"
  by (simp add: kMaxPoints_def)

lemma ring_pos_lt [simp]: "ring_pos c k < kMaxPoints"
  by (simp add: ring_pos_def)

lemma mod_add_cancel_below:
  fixes h j k n :: nat
  assumes "(h + j) mod n = (h + k) mod n" "j \<le> k" "k < n"
  shows "j = k"
proof -
  have "n dvd (h + k) - (h + j)"
    using assms(1,2) mod_eq_dvd_iff_nat [of "h + j" "h + k" n] by simp
  then have "n dvd k - j" by simp
  with assms(2,3) show ?thesis
    by (metis diff_is_0_eq dvd_imp_le le_antisym less_imp_diff_less not_less zero_less_diff)
qed

lemma ring_pos_inj:
  assumes "j < kMaxPoints" "k < kMaxPoints" "ring_pos c j = ring_pos c k"
  shows "j = k"
  using assms mod_add_cancel_below [of "dirty_head c" j kMaxPoints k]
    mod_add_cancel_below [of "dirty_head c" k kMaxPoints j]
  unfolding ring_pos_def by (metis nat_le_linear)

lemma dirty_list_nth:
  "k < dirty_count c \<Longrightarrow> dirty_list c ! k = unat (dirty_queue c (ring_pos c k))"
  by (simp add: dirty_list_def)

lemma sequence_list_nth:
  "k < dirty_count c \<Longrightarrow> sequence_list c ! k = dirty_sequence_queue c (ring_pos c k)"
  by (simp add: sequence_list_def)

text \<open>An index that is not queued leaves room: the overflow branch of the code is dead.\<close>

lemma dirty_room:
  assumes ok: "dirty_ok c" and i: "i < cat_count c" "\<not> dirtyStateFlag c i"
  shows "dirty_count c < kMaxPoints"
proof -
  have d: "distinct (i # dirty_list c)"
    using ok i by (auto simp: dirty_ok_def)
  have "set (i # dirty_list c) \<subseteq> {..<cat_count c}"
    using ok i(1) by (auto simp: dirty_ok_def)
  then have "card (set (i # dirty_list c)) \<le> cat_count c"
    by (metis card_lessThan card_mono finite_lessThan)
  then have "Suc (dirty_count c) \<le> cat_count c"
    unfolding distinct_card [OF d] by simp
  then show ?thesis using ok by (simp add: dirty_ok_def)
qed

text \<open>The catalog after the assignments of \<open>markStateDirty\<close>, before the flag is set.\<close>

definition enqueued :: "point_catalog \<Rightarrow> nat \<Rightarrow> point_catalog" where
  "enqueued c i =
     c\<lparr>states_sequence := states_sequence c + 1,
       dirty_queue := (dirty_queue c)(dirty_tail c := of_nat i),
       dirty_sequence_queue := (dirty_sequence_queue c)(dirty_tail c := states_sequence c + 1),
       dirty_tail := (dirty_tail c + 1) mod kMaxPoints,
       dirty_count := dirty_count c + 1\<rparr>"

lemma markStateDirty_enqueued:
  assumes "dirty_ok c" "i < cat_count c" "\<not> full_sync_required c" "\<not> dirtyStateFlag c i"
  shows "markStateDirty c i = setDirtyStateFlag (enqueued c i) i True"
  using assms dirty_room [OF assms(1,2,4)]
  by (simp add: markStateDirty_def enqueued_def Let_def)

lemma ring_pos_cong: "dirty_head c' = dirty_head c \<Longrightarrow> ring_pos c' = ring_pos c"
  by (auto simp: ring_pos_def fun_eq_iff)

lemma lists_set_flag:
  "dirty_list (setDirtyStateFlag c i b) = dirty_list c"
  "sequence_list (setDirtyStateFlag c i b) = sequence_list c"
  using setDirtyStateFlag_frame [of c i b]
  by (auto simp: dirty_list_def sequence_list_def ring_pos_def)

lemma enqueued_lists:
  assumes ok: "dirty_ok c" and room: "dirty_count c < kMaxPoints" and i: "i < cat_count c"
  shows "dirty_list (enqueued c i) = dirty_list c @ [i]"
    and "sequence_list (enqueued c i) = sequence_list c @ [states_sequence c + 1]"
proof -
  have tail: "dirty_tail c = ring_pos c (dirty_count c)"
    using ok by (simp add: dirty_ok_def)
  have keep: "ring_pos c k \<noteq> dirty_tail c" if "k < dirty_count c" for k
    using ring_pos_inj [of k "dirty_count c" c] that room by (auto simp: tail)
  have rp: "ring_pos (enqueued c i) = ring_pos c"
    by (rule ring_pos_cong) (simp add: enqueued_def)
  have i16: "unat (of_nat i :: u16) = i"
    using ok i by (intro unat_u16_of_nat) (simp add: dirty_ok_def kMaxPoints_def)
  show "dirty_list (enqueued c i) = dirty_list c @ [i]"
    using keep by (simp add: dirty_list_def rp) (simp add: enqueued_def tail i16)
  show "sequence_list (enqueued c i) = sequence_list c @ [states_sequence c + 1]"
    using keep by (simp add: sequence_list_def rp) (simp add: enqueued_def tail)
qed

lemma dirty_ok_enqueue:
  assumes ok: "dirty_ok c" and i: "i < cat_count c"
    and nf: "\<not> full_sync_required c" "\<not> dirtyStateFlag c i"
  shows "dirty_ok (setDirtyStateFlag (enqueued c i) i True)" (is "dirty_ok ?c")
proof -
  note room = dirty_room [OF ok i nf(2)]
  note lists = enqueued_lists [OF ok room i]
  obtain f where f: "?c = (enqueued c i)\<lparr>dirty_flags := f\<rparr>"
    using setDirtyStateFlag_frame by blast
  then have fields: "cat_count ?c = cat_count c" "dirty_count ?c = dirty_count c + 1"
    "dirty_head ?c = dirty_head c" "dirty_tail ?c = (dirty_tail c + 1) mod kMaxPoints"
    "full_sync_required ?c = False" "states_sequence ?c = states_sequence c + 1"
    using nf by (simp_all add: enqueued_def)
  have dl: "dirty_list ?c = dirty_list c @ [i]" "sequence_list ?c =
      sequence_list c @ [states_sequence c + 1]"
    using lists by (simp_all add: lists_set_flag)
  have ikm: "i < kMaxPoints" using ok i by (simp add: dirty_ok_def)
  have fl: "dirtyStateFlag ?c j = (if j = i then True else dirtyStateFlag c j)" for j
    using dirtyStateFlag_set [OF ikm, of "enqueued c i" True j]
      dirtyStateFlag_cong [of "enqueued c i" c]
    by (simp add: enqueued_def)
  have seq: "sequence_list ?c ! k = states_sequence ?c - of_nat (dirty_count ?c - 1 - k)"
    if k: "k < dirty_count ?c" for k
  proof (cases "k = dirty_count c")
    case True
    then show ?thesis by (simp add: dl(2) fields nth_append)
  next
    case False
    with k have k': "k < dirty_count c" by (simp add: fields)
    then have "sequence_list c ! k = states_sequence c - of_nat (dirty_count c - 1 - k)"
      using ok by (simp add: dirty_ok_def)
    moreover have "dirty_count c - k = Suc (dirty_count c - 1 - k)" using k' by simp
    ultimately show ?thesis using k' by (simp add: dl(2) fields nth_append)
  qed
  have tail: "dirty_tail ?c = ring_pos ?c (dirty_count ?c)"
    using ok by (simp add: fields ring_pos_def dirty_ok_def mod_Suc_eq)
  show ?thesis
    unfolding dirty_ok_def
    using ok seq tail i nf room unfolding dl(1) fields fl dirty_ok_def by auto
qed

lemma dirty_ok_markStateDirty: "dirty_ok c \<Longrightarrow> dirty_ok (markStateDirty c i)"
proof -
  assume ok: "dirty_ok c"
  show ?thesis
  proof (cases "i < cat_count c \<and> \<not> full_sync_required c \<and> \<not> dirtyStateFlag c i")
    case True
    then show ?thesis
      using dirty_ok_enqueue [OF ok] markStateDirty_enqueued [OF ok] by simp
  next
    case False
    then have "markStateDirty c i = c" by (auto simp: markStateDirty_def)
    with ok show ?thesis by simp
  qed
qed

lemma dirty_list_markStateDirty:
  assumes ok: "dirty_ok c" and i: "i < cat_count c"
  shows "dirty_list (markStateDirty c i) =
    (if full_sync_required c then []
     else if i \<in> set (dirty_list c) then dirty_list c else dirty_list c @ [i])"
proof (cases "full_sync_required c \<or> dirtyStateFlag c i")
  case True
  then have "markStateDirty c i = c" by (auto simp: markStateDirty_def)
  with True ok show ?thesis by (auto simp: dirty_ok_def dirty_list_def)
next
  case False
  then have "i \<notin> set (dirty_list c)" using ok by (simp add: dirty_ok_def)
  with False show ?thesis
    using markStateDirty_enqueued [OF ok i] enqueued_lists(1) [OF ok dirty_room [OF ok i] i]
    by (simp add: lists_set_flag)
qed

lemma popDirtyStateIndex_None: "popDirtyStateIndex c = None \<longleftrightarrow> dirty_count c = 0"
  by (auto simp: popDirtyStateIndex_def peekDirtyStateIndex_def)

lemma upt_shift: "map (\<lambda>k. f (Suc k)) [0..<n] = map f [Suc 0..<Suc n]"
  by (simp add: map_Suc_upt [symmetric] del: map_Suc_upt upt_Suc)

text \<open>The catalog after the head has moved, before the flag is cleared.\<close>

definition dequeued :: "point_catalog \<Rightarrow> point_catalog" where
  "dequeued c = c\<lparr>dirty_head := (dirty_head c + 1) mod kMaxPoints,
                  dirty_count := dirty_count c - 1\<rparr>"

lemma dequeued_lists:
  assumes "0 < dirty_count c"
  shows "dirty_list c = unat (dirty_queue c (dirty_head c mod kMaxPoints)) # dirty_list (dequeued c)"
    and "sequence_list c =
         dirty_sequence_queue c (dirty_head c mod kMaxPoints) # sequence_list (dequeued c)"
proof -
  obtain n where n: "dirty_count c = Suc n" using assms by (cases "dirty_count c") auto
  have rp: "ring_pos (dequeued c) k = ring_pos c (Suc k)" for k
    by (simp add: ring_pos_def dequeued_def mod_Suc_eq mod_add_left_eq)
  have up: "[0..<Suc n] = 0 # [Suc 0..<Suc n]" by (simp add: upt_conv_Cons del: upt_Suc)
  show "dirty_list c = unat (dirty_queue c (dirty_head c mod kMaxPoints)) # dirty_list (dequeued c)"
    unfolding dirty_list_def rp n up
    by (simp add: dequeued_def n ring_pos_def del: upt_Suc)
      (simp add: upt_shift [symmetric] del: upt_Suc)
  show "sequence_list c =
      dirty_sequence_queue c (dirty_head c mod kMaxPoints) # sequence_list (dequeued c)"
    unfolding sequence_list_def rp n up
    by (simp add: dequeued_def n ring_pos_def del: upt_Suc)
      (simp add: upt_shift [symmetric] del: upt_Suc)
qed

lemma popDirtyStateIndex_Some:
  assumes ok: "dirty_ok c" and pop: "popDirtyStateIndex c = Some (i, c')"
  shows "dirty_list c = i # dirty_list c'"
    and "c' = setDirtyStateFlag (dequeued c) i False"
    and "peekDirtyStateIndex c = Some (i, hd (sequence_list c))"
proof -
  have pos: "0 < dirty_count c" and hd: "dirty_head c < kMaxPoints"
    using ok pop by (auto simp: dirty_ok_def popDirtyStateIndex_def peekDirtyStateIndex_def
        split: if_splits)
  then show c': "c' = setDirtyStateFlag (dequeued c) i False"
    and "peekDirtyStateIndex c = Some (i, hd (sequence_list c))"
    using pop dequeued_lists(2) [OF pos]
    by (auto simp: popDirtyStateIndex_def peekDirtyStateIndex_def dequeued_def split: if_splits)
  show "dirty_list c = i # dirty_list c'"
    using pop pos hd dequeued_lists(1) [OF pos]
    by (auto simp: c' lists_set_flag popDirtyStateIndex_def peekDirtyStateIndex_def)
qed

lemma dirty_ok_pop:
  assumes ok: "dirty_ok c" and pop: "popDirtyStateIndex c = Some (i, c')"
  shows "dirty_ok c'"
proof -
  have pos: "0 < dirty_count c"
    using pop by (auto simp: popDirtyStateIndex_def peekDirtyStateIndex_def split: if_splits)
  note dl = popDirtyStateIndex_Some(1) [OF assms] and c' = popDirtyStateIndex_Some(2) [OF assms]
  obtain f where f: "c' = (dequeued c)\<lparr>dirty_flags := f\<rparr>"
    using setDirtyStateFlag_frame c' by blast
  then have fields: "cat_count c' = cat_count c" "dirty_count c' = dirty_count c - 1"
    "dirty_head c' = (dirty_head c + 1) mod kMaxPoints" "dirty_tail c' = dirty_tail c"
    "full_sync_required c' = full_sync_required c" "states_sequence c' = states_sequence c"
    by (simp_all add: dequeued_def)
  have i: "i < kMaxPoints" using ok dl by (auto simp: dirty_ok_def)
  have fl: "dirtyStateFlag c' j = (if j = i then False else dirtyStateFlag c j)" for j
    using dirtyStateFlag_set [OF i, of "dequeued c" False j]
      dirtyStateFlag_cong [of "dequeued c" c]
    by (simp add: c' dequeued_def)
  have sl: "sequence_list c' = tl (sequence_list c)"
    using dequeued_lists(2) [OF pos] by (simp add: c' lists_set_flag)
  have seq: "sequence_list c' ! k = states_sequence c' - of_nat (dirty_count c' - 1 - k)"
    if k: "k < dirty_count c'" for k
  proof -
    have "sequence_list c ! Suc k = states_sequence c - of_nat (dirty_count c - 1 - Suc k)"
      using ok k by (simp add: dirty_ok_def fields)
    then show ?thesis using k by (simp add: sl fields nth_tl)
  qed
  have tail: "dirty_tail c' = ring_pos c' (dirty_count c')"
  proof -
    obtain n where n: "dirty_count c = Suc n" using pos by (cases "dirty_count c") auto
    then have "ring_pos c' (dirty_count c') = (Suc (dirty_head c) mod kMaxPoints + n) mod kMaxPoints"
      by (simp add: ring_pos_def fields)
    also have "\<dots> = ring_pos c (dirty_count c)"
      by (simp add: ring_pos_def n mod_add_left_eq)
    finally show ?thesis using ok by (simp add: dirty_ok_def fields)
  qed
  have mem: "j \<in> set (dirty_list c') \<longleftrightarrow> j \<in> set (dirty_list c) \<and> j \<noteq> i" for j
    using ok by (auto simp: dl dirty_ok_def)
  have dis: "distinct (dirty_list c')" using ok by (simp add: dirty_ok_def dl)
  have below: "\<forall>j\<in>set (dirty_list c'). j < cat_count c'"
    using ok by (auto simp: dirty_ok_def dl fields)
  show ?thesis
    unfolding dirty_ok_def
    using ok seq tail dis pos below unfolding mem fields fl dirty_ok_def by auto
qed

lemma dirty_ok_reset:
  "cat_count c \<le> kMaxPoints \<Longrightarrow> dirty_ok (resetDirtyStateTracking c)"
  "cat_count c \<le> kMaxPoints \<Longrightarrow> dirty_ok (requestRuntimeFullSync c)"
proof -
  have fl: "\<not> dirtyStateFlag (resetDirtyStateTracking c) i"
    "\<not> dirtyStateFlag (requestRuntimeFullSync c) i" for i
    by (rule dirtyStateFlag_zeroed [of _ c];
        simp add: resetDirtyStateTracking_def requestRuntimeFullSync_def)+
  assume "cat_count c \<le> kMaxPoints"
  then show "dirty_ok (resetDirtyStateTracking c)" "dirty_ok (requestRuntimeFullSync c)"
    unfolding dirty_ok_def using fl
    by (simp_all add: dirty_list_def ring_pos_def)
      (simp_all add: resetDirtyStateTracking_def requestRuntimeFullSync_def)
qed

lemma dirty_ok_acknowledge: "dirty_ok c \<Longrightarrow> dirty_ok (acknowledgeRuntimeFullSync c)"
proof -
  have "dirtyStateFlag (acknowledgeRuntimeFullSync c) = dirtyStateFlag c"
    by (rule dirtyStateFlag_cong) (simp add: acknowledgeRuntimeFullSync_def)
  moreover have "dirty_list (acknowledgeRuntimeFullSync c) = dirty_list c"
    "sequence_list (acknowledgeRuntimeFullSync c) = sequence_list c"
    by (simp_all add: dirty_list_def sequence_list_def ring_pos_def acknowledgeRuntimeFullSync_def)
  moreover assume "dirty_ok c"
  ultimately show ?thesis
    by (simp add: dirty_ok_def) (simp add: acknowledgeRuntimeFullSync_def ring_pos_def)
qed

section \<open>The notification queue interface\<close>

text \<open>
  What the mailbox publisher relies on: marking appends a valid item that is not queued,
  popping removes the oldest one. A drain pops until the queue is empty.
\<close>

fun drain :: "('s \<Rightarrow> ('a \<times> 's) option) \<Rightarrow> nat \<Rightarrow> 's \<Rightarrow> 'a list \<times> 's" where
  "drain popf 0 s = ([], s)"
| "drain popf (Suc n) s =
     (case popf s of None \<Rightarrow> ([], s)
      | Some (a, s') \<Rightarrow> (let (as, s'') = drain popf n s' in (a # as, s'')))"

definition add_new :: "'a list \<Rightarrow> 'a list \<Rightarrow> 'a list" where
  "add_new queue xs = fold (\<lambda>x q. if x \<in> set q then q else q @ [x]) xs queue"

lemma set_add_new: "set (add_new q xs) = set q \<union> set xs"
  unfolding add_new_def by (induction xs arbitrary: q) auto

locale notify_queue =
  fixes contents :: "'s \<Rightarrow> 'a list" and valid :: "'s \<Rightarrow> 'a \<Rightarrow> bool" and nq_ok :: "'s \<Rightarrow> bool"
    and put :: "'s \<Rightarrow> 'a \<Rightarrow> 's" and get :: "'s \<Rightarrow> ('a \<times> 's) option"
  assumes put_ok: "nq_ok s \<Longrightarrow> valid s a \<Longrightarrow> nq_ok (put s a)"
    and put_valid: "nq_ok s \<Longrightarrow> valid s a \<Longrightarrow> valid (put s a) b = valid s b"
    and put_contents: "nq_ok s \<Longrightarrow> valid s a \<Longrightarrow>
      contents (put s a) = (if a \<in> set (contents s) then contents s else contents s @ [a])"
    and get_None: "nq_ok s \<Longrightarrow> (get s = None) = (contents s = [])"
    and get_Some: "nq_ok s \<Longrightarrow> get s = Some (a, s') \<Longrightarrow> contents s = a # contents s' \<and> nq_ok s'"
begin

lemma put_all:
  "nq_ok s \<Longrightarrow> (\<And>x. x \<in> set xs \<Longrightarrow> valid s x) \<Longrightarrow>
   nq_ok (fold (\<lambda>x q. put q x) xs s) \<and>
   contents (fold (\<lambda>x q. put q x) xs s) = add_new (contents s) xs"
proof (induction xs arbitrary: s)
  case Nil
  then show ?case by (simp add: add_new_def)
next
  case (Cons x xs)
  then have v: "valid s x" and ok: "nq_ok s" by simp_all
  have "nq_ok (put s x)" and "\<And>y. y \<in> set xs \<Longrightarrow> valid (put s x) y"
    using Cons.prems put_ok [OF ok v] put_valid [OF ok v] by simp_all
  from Cons.IH [OF this] show ?case
    by (simp add: add_new_def put_contents [OF ok v])
qed

lemma drain_contents:
  "nq_ok s \<Longrightarrow> length (contents s) \<le> n \<Longrightarrow>
   fst (drain get n s) = contents s \<and> contents (snd (drain get n s)) = [] \<and>
   nq_ok (snd (drain get n s))"
proof (induction n arbitrary: s)
  case 0
  then show ?case by simp
next
  case (Suc n)
  show ?case
  proof (cases "get s")
    case None
    then have "contents s = []" using Suc.prems(1) get_None by simp
    with None show ?thesis using Suc.prems(1) by simp
  next
    case (Some p)
    then obtain a s' where p: "get s = Some (a, s')" by (cases p) simp
    with Suc.prems get_Some have c: "contents s = a # contents s'" "nq_ok s'" by blast+
    with Suc.prems have "length (contents s') \<le> n" by simp
    with Suc.IH [OF c(2)] show ?thesis
      by (simp add: p c(1) split: prod.split) (metis fst_conv snd_conv)
  qed
qed

lemma put_all_drain:
  assumes "nq_ok s" and "\<And>x. x \<in> set xs \<Longrightarrow> valid s x"
    and "length (add_new (contents s) xs) \<le> n"
  shows "fst (drain get n (fold (\<lambda>x q. put q x) xs s)) = add_new (contents s) xs"
  using drain_contents [of "fold (\<lambda>x q. put q x) xs s" n] put_all [OF assms(1,2)] assms(3)
  by simp

end

lemma markStateDirty_frame:
  "cat_count (markStateDirty c i) = cat_count c"
  "cat_entries (markStateDirty c i) = cat_entries c"
  "cat_states (markStateDirty c i) = cat_states c"
  "cat_meta (markStateDirty c i) = cat_meta c"
  "cat_command_states (markStateDirty c i) = cat_command_states c"
  "index_slots (markStateDirty c i) = index_slots c"
  "full_sync_required c \<Longrightarrow> markStateDirty c i = c"
  by (auto simp: markStateDirty_def Let_def setDirtyStateFlag_def requestRuntimeFullSync_def)

lemma markStateDirty_latch:
  "dirty_ok c \<Longrightarrow> full_sync_required (markStateDirty c i) = full_sync_required c"
  using markStateDirty_enqueued [of c i] setDirtyStateFlag_frame [of "enqueued c i" i True]
  by (cases "i < cat_count c \<and> \<not> full_sync_required c \<and> \<not> dirtyStateFlag c i")
    (auto simp: enqueued_def markStateDirty_def)

interpretation dirty_nq: notify_queue dirty_list
  "\<lambda>c i. i < cat_count c" "\<lambda>c. dirty_ok c \<and> \<not> full_sync_required c"
  markStateDirty popDirtyStateIndex
proof unfold_locales
  fix c i c'
  assume ok: "dirty_ok c \<and> \<not> full_sync_required c"
  show "(popDirtyStateIndex c = None) = (dirty_list c = [])"
    by (simp add: popDirtyStateIndex_None flip: length_dirty_list)
  assume pop: "popDirtyStateIndex c = Some (i, c')"
  then have "full_sync_required c' = full_sync_required c"
    using popDirtyStateIndex_Some(2) [of c i c'] setDirtyStateFlag_frame [of "dequeued c" i False]
      ok by (auto simp: dequeued_def)
  then show "dirty_list c = i # dirty_list c' \<and> dirty_ok c' \<and> \<not> full_sync_required c'"
    using popDirtyStateIndex_Some(1) [OF _ pop] dirty_ok_pop [OF _ pop] ok by simp
qed (simp_all add: dirty_ok_markStateDirty dirty_list_markStateDirty markStateDirty_frame
    markStateDirty_latch)

end
