(* ===== verification/CatalogOps.thy ===== *)
theory CatalogOps
  imports CatalogDirty
begin

text \<open>
  The operations that change the rows of the catalog: construction, \<open>clear\<close>, \<open>upsert\<close>,
  \<open>remove\<close>, \<open>replaceSlotVariableDefinitions\<close> and the batch brackets, with the browse index
  they rebuild. The in-place compaction and the \<open>memmove\<close>s are shown to implement list
  operations on the rows.
\<close>

section \<open>The browse index\<close>

fun escaped_size :: "u8 list \<Rightarrow> nat" where
  "escaped_size [] = 0"
| "escaped_size (c # cs) =
     (if c \<in> {34, 92, 8, 12, 10, 13, 9} then 2 else if c < 0x20 then 6 else 1) + escaped_size cs"

definition json_string_value_size_local :: "u8 list \<Rightarrow> nat" where
  "json_string_value_size_local val = 2 + escaped_size (cstr val)"

definition browseDeviceCount :: "point_catalog \<Rightarrow> nat" where
  "browseDeviceCount c = browse_device_count c"

definition browseDeviceMeta :: "point_catalog \<Rightarrow> nat \<Rightarrow> browse_device_meta" where
  "browseDeviceMeta c i =
     (if i < browse_device_count c then browse_devices c i else empty_browse_device)"

definition browse_device_matches :: "point_catalog \<Rightarrow> u8 list \<Rightarrow> nat \<Rightarrow> bool" where
  "browse_device_matches c name i =
     (let ci = unat (bd_catalog_index (browse_devices c i))
      in ci < cat_count c \<and> strcmp_eq (device_id (pd_id (cat_entries c ci))) name)"

text \<open>The device loop shared by \<open>findBrowseDeviceIndex\<close> and \<open>rebuildBrowseIndex\<close>.\<close>

definition find_browse_device :: "point_catalog \<Rightarrow> u8 list \<Rightarrow> nat" where
  "find_browse_device c name =
     (case find (browse_device_matches c name) [0..<browse_device_count c] of
        None \<Rightarrow> browse_device_count c | Some i \<Rightarrow> i)"

definition findBrowseDeviceIndex :: "point_catalog \<Rightarrow> u8 list option \<Rightarrow> nat" where
  "findBrowseDeviceIndex c name =
     (case name of None \<Rightarrow> browse_device_count c
      | Some s \<Rightarrow> if cstr s = [] then browse_device_count c else find_browse_device c s)"

definition browseFeatureName :: "point_catalog \<Rightarrow> browse_device_meta \<Rightarrow> nat \<Rightarrow> u8 list option" where
  "browseFeatureName c meta offset =
     (if offset \<ge> unat (feature_count meta) then None
      else (let feature_index = unat (feature_start meta) + offset
            in if feature_index \<ge> browse_feature_count c then None
               else (let ci = unat (browse_feature_indices c feature_index)
                     in if ci \<ge> cat_count c then None
                        else Some (feature (pd_id (cat_entries c ci))))))"

text \<open>One iteration of the loop of \<open>rebuildBrowseIndex\<close>.\<close>

definition browse_add :: "point_catalog \<Rightarrow> nat \<Rightarrow> point_catalog" where
  "browse_add c i =
     (let pid = pd_id (cat_entries c i);
          dev = find_browse_device c (device_id pid);
          c1 = (if dev = browse_device_count c then
                  c\<lparr>browse_devices := (browse_devices c)(dev :=
                      \<lparr>bd_catalog_index = of_nat i,
                       feature_start = of_nat (browse_feature_count c),
                       feature_count = 0, encoded_features_size = 0\<rparr>),
                    browse_device_count := browse_device_count c + 1\<rparr>
                else c);
          meta = browse_devices c1 dev;
          feature_exists =
            list_ex (\<lambda>k. case browseFeatureName c1 meta k of None \<Rightarrow> False
                         | Some name \<Rightarrow> strcmp_eq name (feature pid))
              [0..<unat (feature_count meta)]
      in if feature_exists \<or> browse_feature_count c1 \<ge> kMaxPoints then c1
         else
           c1\<lparr>browse_feature_indices :=
                (browse_feature_indices c1)(browse_feature_count c1 := of_nat i),
              browse_feature_count := browse_feature_count c1 + 1,
              browse_devices := (browse_devices c1)(dev :=
                meta\<lparr>encoded_features_size :=
                       of_nat (unat (encoded_features_size meta) +
                               (if feature_count meta = 0 then 0 else 1) +
                               json_string_value_size_local (feature pid)),
                     feature_count := feature_count meta + 1\<rparr>)\<rparr>)"

definition rebuildBrowseIndex :: "point_catalog \<Rightarrow> point_catalog" where
  "rebuildBrowseIndex c =
     fold (\<lambda>i c. browse_add c i) [0..<cat_count c]
       (c\<lparr>browse_device_count := 0, browse_feature_count := 0,
          browse_devices := (\<lambda>k. if k < kMaxPoints then empty_browse_device
                                 else browse_devices c k),
          browse_feature_indices := zeroed kMaxPoints (browse_feature_indices c)\<rparr>)"

section \<open>Construction, clear and batches\<close>

definition new_PointCatalog :: "(nat \<Rightarrow> point_state) \<Rightarrow> point_catalog" where
  "new_PointCatalog sdram =
     resetIndex
       \<lparr>cat_entries = \<lambda>_. empty_definition, cat_states = sdram,
        cat_command_states = \<lambda>_. empty_command_state, cat_meta = \<lambda>_. empty_meta,
        browse_devices = \<lambda>_. empty_browse_device, browse_feature_indices = \<lambda>_. 0,
        index_slots = \<lambda>_. 0, cat_count = 0, browse_device_count = 0,
        browse_feature_count = 0, batch_update_depth = 0,
        batch_browse_rebuild_pending = False, dirty_queue = \<lambda>_. 0,
        dirty_sequence_queue = \<lambda>_. 0, dirty_flags = \<lambda>_. 0, dirty_head = 0,
        dirty_tail = 0, dirty_count = 0, full_sync_required = True, defs_generation = 0,
        states_sequence = 0\<rparr>"

definition cleared :: "'a \<Rightarrow> (nat \<Rightarrow> 'a) \<Rightarrow> nat \<Rightarrow> 'a" where
  "cleared z f = (\<lambda>k. if k < kMaxPoints then z else f k)"

definition clear :: "point_catalog \<Rightarrow> point_catalog" where
  "clear c =
     resetIndex (resetDirtyStateTracking
       (c\<lparr>cat_count := 0, browse_device_count := 0, browse_feature_count := 0,
          cat_entries := cleared zeroed_definition (cat_entries c),
          cat_states := cleared empty_state (cat_states c),
          cat_command_states := cleared empty_command_state (cat_command_states c),
          cat_meta := cleared empty_meta (cat_meta c),
          browse_devices := cleared empty_browse_device (browse_devices c),
          browse_feature_indices := zeroed kMaxPoints (browse_feature_indices c),
          defs_generation := defs_generation c + 1\<rparr>))"

definition beginBatchUpdate :: "point_catalog \<Rightarrow> point_catalog" where
  "beginBatchUpdate c = c\<lparr>batch_update_depth := batch_update_depth c + 1\<rparr>"

definition endBatchUpdate :: "point_catalog \<Rightarrow> point_catalog" where
  "endBatchUpdate c =
     (if batch_update_depth c = 0 then c
      else (let c1 = c\<lparr>batch_update_depth := batch_update_depth c - 1\<rparr>
            in if batch_update_depth c1 = 0 \<and> batch_browse_rebuild_pending c1
               then rebuildBrowseIndex (c1\<lparr>batch_browse_rebuild_pending := False\<rparr>)
               else c1))"

text \<open>The statements every operation that changes the rows ends with.\<close>

definition commit_definitions :: "point_catalog \<Rightarrow> point_catalog" where
  "commit_definitions c =
     (let c1 = rebuildIndex
                 (requestRuntimeFullSync (c\<lparr>defs_generation := defs_generation c + 1\<rparr>))
      in if batch_update_depth c1 \<noteq> 0 then c1\<lparr>batch_browse_rebuild_pending := True\<rparr>
         else rebuildBrowseIndex c1)"

section \<open>Rows\<close>

definition upsert :: "point_catalog \<Rightarrow> point_definition \<Rightarrow> bool \<times> point_catalog" where
  "upsert c d =
     (let existing = lookupIndex c (pd_id d) in
      if existing < cat_count c then
        (True, commit_definitions
           (c\<lparr>cat_entries := (cat_entries c)(existing := d),
              cat_meta := (cat_meta c)(existing := classifyPlcPointMeta d)\<rparr>))
      else if cat_count c \<ge> kMaxPoints then (False, c)
      else
        (True, commit_definitions
           (c\<lparr>cat_entries := (cat_entries c)(cat_count c := d),
              cat_command_states := (cat_command_states c)(cat_count c := empty_command_state),
              cat_meta := (cat_meta c)(cat_count c := classifyPlcPointMeta d),
              cat_states := (cat_states c)(cat_count c := empty_state),
              cat_count := cat_count c + 1\<rparr>)))"

text \<open>\<open>memmove(&a[dst], &a[src], n * sizeof(a[0]))\<close>.\<close>

definition memmove :: "nat \<Rightarrow> nat \<Rightarrow> nat \<Rightarrow> (nat \<Rightarrow> 'a) \<Rightarrow> nat \<Rightarrow> 'a" where
  "memmove dst src n f = (\<lambda>k. if dst \<le> k \<and> k < dst + n then f (src + (k - dst)) else f k)"

definition move_rows :: "nat \<Rightarrow> nat \<Rightarrow> nat \<Rightarrow> point_catalog \<Rightarrow> point_catalog" where
  "move_rows dst src n c =
     c\<lparr>cat_entries := memmove dst src n (cat_entries c),
       cat_command_states := memmove dst src n (cat_command_states c),
       cat_meta := memmove dst src n (cat_meta c),
       cat_states := memmove dst src n (cat_states c)\<rparr>"

definition put_row ::
  "nat \<Rightarrow> point_definition \<Rightarrow> plc_point_meta \<Rightarrow> point_catalog \<Rightarrow> point_catalog" where
  "put_row k d m c =
     c\<lparr>cat_entries := (cat_entries c)(k := d),
       cat_command_states := (cat_command_states c)(k := empty_command_state),
       cat_meta := (cat_meta c)(k := m),
       cat_states := (cat_states c)(k := empty_state)\<rparr>"

definition remove :: "point_catalog \<Rightarrow> point_identity \<Rightarrow> bool \<times> point_catalog" where
  "remove c pid =
     (let i = lookupIndex c pid in
      if i \<ge> cat_count c then (False, c)
      else
        (let moved_count = cat_count c - i - 1;
             c1 = (if moved_count \<noteq> 0 then move_rows i (i + 1) moved_count c else c);
             c2 = put_row (cat_count c - 1) empty_definition empty_meta c1
         in (True, commit_definitions (c2\<lparr>cat_count := cat_count c2 - 1\<rparr>))))"

definition slot_variable_at :: "u16 \<Rightarrow> point_catalog \<Rightarrow> nat \<Rightarrow> bool" where
  "slot_variable_at slot c i = is_slot_variable_point (cat_entries c i) (cat_meta c i) slot"

text \<open>
  The first loop of \<open>replaceSlotVariableDefinitions\<close>: the definitions still to match, the
  number of variables seen and whether the layout changed.
\<close>

fun match_slot_variables ::
  "u16 \<Rightarrow> point_catalog \<Rightarrow> nat list \<Rightarrow> point_definition list \<Rightarrow> nat \<Rightarrow> bool \<Rightarrow> nat \<times> bool" where
  "match_slot_variables slot c [] ds n changed = (n, changed)"
| "match_slot_variables slot c (i # is) ds n changed =
     (if \<not> slot_variable_at slot c i then match_slot_variables slot c is ds n changed
      else (case ds of
          [] \<Rightarrow> match_slot_variables slot c is [] (n + 1) True
        | d # ds' \<Rightarrow>
            match_slot_variables slot c is ds' (n + 1)
              (changed \<or> \<not> point_definitions_equal (cat_entries c i) d)))"

definition compact_step :: "u16 \<Rightarrow> nat \<Rightarrow> nat \<times> point_catalog \<Rightarrow> nat \<times> point_catalog" where
  "compact_step slot i = (\<lambda>(k, c).
     if slot_variable_at slot c i then (k, c)
     else (k + 1,
           if k \<noteq> i then
             c\<lparr>cat_entries := (cat_entries c)(k := cat_entries c i),
               cat_command_states := (cat_command_states c)(k := cat_command_states c i),
               cat_meta := (cat_meta c)(k := cat_meta c i),
               cat_states := (cat_states c)(k := cat_states c i)\<rparr>
           else c))"

definition slot_insert_position :: "u16 \<Rightarrow> point_catalog \<Rightarrow> nat \<Rightarrow> nat" where
  "slot_insert_position slot c n =
     (case find (\<lambda>i. has_slot (cat_meta c i) \<and> point_kind (cat_meta c i) = SlotOther \<and>
                     slot < meta_slot_id (cat_meta c i)) [0..<n] of
        None \<Rightarrow> n | Some i \<Rightarrow> i)"

definition replaceSlotVariableDefinitions ::
  "point_catalog \<Rightarrow> u16 \<Rightarrow> point_definition list option \<Rightarrow> bool \<times> bool \<times> point_catalog" where
  "replaceSlotVariableDefinitions c slot definitions =
     (case definitions of None \<Rightarrow> (False, False, c) | Some ds \<Rightarrow>
      if length ds > kMaxPoints then (False, False, c)
      else
        (let (existing, changed0) = match_slot_variables slot c [0..<cat_count c] ds 0 False in
         if cat_count c - existing + length ds > kMaxPoints then (False, False, c)
         else if \<not> (changed0 \<or> existing \<noteq> length ds) then (True, False, c)
         else
           (let (n, c1) = fold (compact_step slot) [0..<cat_count c] (0, c);
                pos = slot_insert_position slot c1 n;
                c2 = (if pos < n \<and> length ds \<noteq> 0
                      then move_rows (pos + length ds) pos (n - pos) c1 else c1);
                c3 = fold (\<lambda>k c. put_row (pos + k) (ds ! k) (classifyPlcPointMeta (ds ! k)) c)
                       [0..<length ds] c2
            in (True, True, commit_definitions (c3\<lparr>cat_count := n + length ds\<rparr>)))))"

section \<open>What the row operations leave alone\<close>

definition browse_frame :: "point_catalog \<Rightarrow> point_catalog \<Rightarrow> bool" where
  "browse_frame c c' \<longleftrightarrow>
     c' = c\<lparr>browse_devices := browse_devices c',
            browse_feature_indices := browse_feature_indices c',
            browse_device_count := browse_device_count c',
            browse_feature_count := browse_feature_count c'\<rparr>"

lemma browse_frame_refl [simp]: "browse_frame c c"
  by (simp add: browse_frame_def)

lemma browse_frame_trans: "browse_frame a b \<Longrightarrow> browse_frame b c \<Longrightarrow> browse_frame a c"
  unfolding browse_frame_def
  by (cases a, cases b, cases c) auto

lemma browse_frame_add: "browse_frame c (browse_add c i)"
  by (simp add: browse_frame_def browse_add_def Let_def)

lemma browse_frame_fold: "browse_frame c (fold (\<lambda>i c. browse_add c i) xs c)"
  by (induction xs arbitrary: c)
    (auto intro: browse_frame_trans browse_frame_add)

lemma browse_frame_rebuild: "browse_frame c (rebuildBrowseIndex c)"
  unfolding rebuildBrowseIndex_def
  by (rule browse_frame_trans [OF _ browse_frame_fold]) (simp add: browse_frame_def)

lemma browse_frame_fields:
  assumes "browse_frame c c'"
  shows "cat_entries c' = cat_entries c" "cat_states c' = cat_states c"
    "cat_command_states c' = cat_command_states c" "cat_meta c' = cat_meta c"
    "index_slots c' = index_slots c" "cat_count c' = cat_count c"
    "batch_update_depth c' = batch_update_depth c"
    "batch_browse_rebuild_pending c' = batch_browse_rebuild_pending c"
    "dirty_queue c' = dirty_queue c" "dirty_sequence_queue c' = dirty_sequence_queue c"
    "dirty_flags c' = dirty_flags c" "dirty_head c' = dirty_head c"
    "dirty_tail c' = dirty_tail c" "dirty_count c' = dirty_count c"
    "full_sync_required c' = full_sync_required c" "defs_generation c' = defs_generation c"
    "states_sequence c' = states_sequence c"
  by (subst assms [unfolded browse_frame_def], simp)+

lemma dirty_ok_cong:
  assumes "dirty_queue c' = dirty_queue c" "dirty_sequence_queue c' = dirty_sequence_queue c"
    "dirty_flags c' = dirty_flags c" "dirty_head c' = dirty_head c"
    "dirty_tail c' = dirty_tail c" "dirty_count c' = dirty_count c"
    "full_sync_required c' = full_sync_required c" "states_sequence c' = states_sequence c"
    "cat_count c' = cat_count c"
  shows "dirty_ok c' = dirty_ok c" "dirty_list c' = dirty_list c"
proof -
  have "dirtyStateFlag c' = dirtyStateFlag c" by (rule dirtyStateFlag_cong) (rule assms)
  moreover have "ring_pos c' = ring_pos c" by (rule ring_pos_cong) (rule assms)
  ultimately show "dirty_ok c' = dirty_ok c" "dirty_list c' = dirty_list c"
    using assms by (simp_all add: dirty_ok_def dirty_list_def sequence_list_def)
qed

lemma rebuildIndex_fields:
  "cat_entries (rebuildIndex c) = cat_entries c" "cat_states (rebuildIndex c) = cat_states c"
  "cat_command_states (rebuildIndex c) = cat_command_states c"
  "cat_meta (rebuildIndex c) = cat_meta c" "cat_count (rebuildIndex c) = cat_count c"
  "batch_update_depth (rebuildIndex c) = batch_update_depth c"
  "full_sync_required (rebuildIndex c) = full_sync_required c"
  "defs_generation (rebuildIndex c) = defs_generation c"
  "dirty_ok (rebuildIndex c) = dirty_ok c" "dirty_list (rebuildIndex c) = dirty_list c"
  using rebuildIndex_frame [of c] dirty_ok_cong [of "rebuildIndex c" c]
  by auto

lemma commit_definitions_fields:
  "cat_entries (commit_definitions c) = cat_entries c"
  "cat_states (commit_definitions c) = cat_states c"
  "cat_command_states (commit_definitions c) = cat_command_states c"
  "cat_meta (commit_definitions c) = cat_meta c"
  "cat_count (commit_definitions c) = cat_count c"
  "full_sync_required (commit_definitions c)"
  "defs_generation (commit_definitions c) = defs_generation c + 1"
  by (auto simp: commit_definitions_def Let_def browse_frame_fields [OF browse_frame_rebuild]
      rebuildIndex_fields requestRuntimeFullSync_def)

lemma commit_definitions_ok:
  assumes "cat_count c \<le> kMaxPoints"
  shows "catalog_ok (commit_definitions c)" and "dirty_ok (commit_definitions c)"
proof -
  let ?r = "requestRuntimeFullSync (c\<lparr>defs_generation := defs_generation c + 1\<rparr>)"
  let ?i = "rebuildIndex ?r"
  have cnt: "cat_count ?r \<le> kMaxPoints" using assms by (simp add: requestRuntimeFullSync_def)
  have i: "catalog_ok ?i" by (rule rebuildIndex_ok [OF cnt])
  have d: "dirty_ok ?i"
    using dirty_ok_reset(2) [of "c\<lparr>defs_generation := defs_generation c + 1\<rparr>"] assms
    by (simp add: rebuildIndex_fields)
  note b = browse_frame_fields [OF browse_frame_rebuild [of ?i]]
  have ci: "catalog_ok (rebuildBrowseIndex ?i)"
    using catalog_ok_cong [of "rebuildBrowseIndex ?i" ?i] i by (simp add: b)
  have cd: "dirty_ok (rebuildBrowseIndex ?i)"
    using dirty_ok_cong(1) [of "rebuildBrowseIndex ?i" ?i] d by (simp add: b)
  have pi: "catalog_ok (?i\<lparr>batch_browse_rebuild_pending := True\<rparr>)"
    using catalog_ok_cong [of "?i\<lparr>batch_browse_rebuild_pending := True\<rparr>" ?i] i by simp
  have pd: "dirty_ok (?i\<lparr>batch_browse_rebuild_pending := True\<rparr>)"
    using dirty_ok_cong(1) [of "?i\<lparr>batch_browse_rebuild_pending := True\<rparr>" ?i] d by simp
  show "catalog_ok (commit_definitions c)" "dirty_ok (commit_definitions c)"
    unfolding commit_definitions_def Let_def using ci cd pi pd by simp_all
qed

section \<open>The rows as a list\<close>

type_synonym row = "point_definition \<times> point_command_state \<times> plc_point_meta \<times> point_state"

definition row_at :: "point_catalog \<Rightarrow> nat \<Rightarrow> row" where
  "row_at c i = (cat_entries c i, cat_command_states c i, cat_meta c i, cat_states c i)"

definition rows :: "point_catalog \<Rightarrow> row list" where
  "rows c = map (row_at c) [0..<cat_count c]"

definition fresh_row :: "point_definition \<Rightarrow> row" where
  "fresh_row d = (d, empty_command_state, classifyPlcPointMeta d, empty_state)"

definition meta_ok :: "point_catalog \<Rightarrow> bool" where
  "meta_ok c = (\<forall>i<cat_count c. cat_meta c i = classifyPlcPointMeta (cat_entries c i))"

definition catalog_wf :: "point_catalog \<Rightarrow> bool" where
  "catalog_wf c = (catalog_ok c \<and> dirty_ok c \<and> meta_ok c)"

definition row_ok :: "row \<Rightarrow> bool" where
  "row_ok = (\<lambda>(d, _, m, _). m = classifyPlcPointMeta d)"

lemma length_rows [simp]: "length (rows c) = cat_count c"
  by (simp add: rows_def)

lemma nth_rows [simp]: "i < cat_count c \<Longrightarrow> rows c ! i = row_at c i"
  by (simp add: rows_def)

lemma meta_ok_rows: "meta_ok c = (\<forall>r\<in>set (rows c). row_ok r)"
  by (auto simp: meta_ok_def rows_def row_ok_def row_at_def)

lemma rows_cong:
  "cat_count c' = cat_count c \<Longrightarrow> (\<And>i. i < cat_count c \<Longrightarrow> row_at c' i = row_at c i) \<Longrightarrow>
   rows c' = rows c"
  by (simp add: rows_def)

lemma rows_commit [simp]: "rows (commit_definitions c) = rows c"
  by (rule rows_cong) (simp_all add: commit_definitions_fields row_at_def)

lemma commit_wf:
  "cat_count c \<le> kMaxPoints \<Longrightarrow> \<forall>r\<in>set (rows c). row_ok r \<Longrightarrow> catalog_wf (commit_definitions c)"
  by (simp add: catalog_wf_def commit_definitions_ok meta_ok_rows)

lemma row_ok_fresh [simp]: "row_ok (fresh_row d)"
  by (simp add: row_ok_def fresh_row_def)

lemma catalog_wf_count: "catalog_wf c \<Longrightarrow> cat_count c \<le> kMaxPoints"
  by (simp add: catalog_wf_def dirty_ok_def)

lemma catalog_wf_clear: "catalog_wf (clear c)"
  unfolding catalog_wf_def
proof (intro conjI)
  show "meta_ok (clear c)"
    by (simp add: meta_ok_def clear_def resetIndex_def resetDirtyStateTracking_def)
  show "catalog_ok (clear c)"
    by (simp add: catalog_ok_def clear_def index_ok_reset)
      (simp add: index_ok_def clear_def resetIndex_def resetDirtyStateTracking_def occupied_def)
  have "dirty_ok (clear c) = dirty_ok (resetDirtyStateTracking (c\<lparr>cat_count := 0\<rparr>))"
    by (rule dirty_ok_cong(1)) (simp_all add: clear_def resetIndex_def resetDirtyStateTracking_def)
  then show "dirty_ok (clear c)" using dirty_ok_reset(1) by simp
qed

section \<open>The row operations implement list operations\<close>

lemma upsert_rows:
  "rows (snd (upsert c d)) =
    (let i = lookupIndex c (pd_id d) in
     if i < cat_count c
     then (rows c)[i := (d, cat_command_states c i, classifyPlcPointMeta d, cat_states c i)]
     else if cat_count c < kMaxPoints then rows c @ [fresh_row d] else rows c)"
  by (auto simp: upsert_def Let_def commit_definitions_fields row_at_def fresh_row_def
      nth_list_update nth_append less_Suc_eq intro!: nth_equalityI)

lemma upsert_wf:
  assumes "catalog_wf c"
  shows "catalog_wf (snd (upsert c d))"
proof -
  note cnt = catalog_wf_count [OF assms]
  have rows_ok: "\<forall>i<cat_count c. row_ok (row_at c i)"
    using assms by (auto simp: catalog_wf_def meta_ok_def row_ok_def row_at_def)
  let ?i = "lookupIndex c (pd_id d)"
  show ?thesis
  proof (cases "?i < cat_count c")
    case True
    have "catalog_wf (commit_definitions (c\<lparr>cat_entries := (cat_entries c)(?i := d),
        cat_meta := (cat_meta c)(?i := classifyPlcPointMeta d)\<rparr>))"
      by (rule commit_wf) (use cnt rows_ok in \<open>auto simp: rows_def row_ok_def row_at_def\<close>)
    with True show ?thesis by (simp add: upsert_def Let_def)
  next
    case False
    show ?thesis
    proof (cases "cat_count c \<ge> kMaxPoints")
      case True
      with False assms show ?thesis by (simp add: upsert_def Let_def)
    next
      case room: False
      have "catalog_wf (commit_definitions (c\<lparr>cat_entries := (cat_entries c)(cat_count c := d),
          cat_command_states := (cat_command_states c)(cat_count c := empty_command_state),
          cat_meta := (cat_meta c)(cat_count c := classifyPlcPointMeta d),
          cat_states := (cat_states c)(cat_count c := empty_state),
          cat_count := cat_count c + 1\<rparr>))"
        by (rule commit_wf) (use cnt room rows_ok in
            \<open>auto simp: rows_def row_ok_def row_at_def less_Suc_eq\<close>)
      with False room show ?thesis by (simp add: upsert_def Let_def)
    qed
  qed
qed

lemma row_at_move_rows:
  "row_at (move_rows dst src n c) k =
     (if dst \<le> k \<and> k < dst + n then row_at c (src + (k - dst)) else row_at c k)"
  by (simp add: row_at_def move_rows_def memmove_def)

lemma cat_count_move_rows [simp]: "cat_count (move_rows dst src n c) = cat_count c"
  by (simp add: move_rows_def)

lemma row_at_put_row:
  "row_at (put_row k d m c) i = (if i = k then (d, empty_command_state, m, empty_state)
                                 else row_at c i)"
  by (simp add: row_at_def put_row_def)

lemma cat_count_put_row [simp]: "cat_count (put_row k d m c) = cat_count c"
  by (simp add: put_row_def)

lemma row_at_count_update [simp]: "row_at (cat_count_update f c) = row_at c"
  by (simp add: row_at_def fun_eq_iff)

definition remove_prepared :: "point_catalog \<Rightarrow> nat \<Rightarrow> point_catalog" where
  "remove_prepared c i =
     (let moved_count = cat_count c - i - 1;
          c1 = (if moved_count \<noteq> 0 then move_rows i (i + 1) moved_count c else c);
          c2 = put_row (cat_count c - 1) empty_definition empty_meta c1
      in c2\<lparr>cat_count := cat_count c2 - 1\<rparr>)"

lemma remove_prepared_rows:
  assumes "i < cat_count c"
  shows "rows (remove_prepared c i) = take i (rows c) @ drop (Suc i) (rows c)"
    and "cat_count (remove_prepared c i) = cat_count c - 1"
proof -
  show cnt: "cat_count (remove_prepared c i) = cat_count c - 1"
    by (simp add: remove_prepared_def Let_def)
  show "rows (remove_prepared c i) = take i (rows c) @ drop (Suc i) (rows c)"
  proof (rule nth_equalityI)
    show "length (rows (remove_prepared c i)) = length (take i (rows c) @ drop (Suc i) (rows c))"
      using assms by (simp add: cnt)
    fix k assume "k < length (rows (remove_prepared c i))"
    then have k: "k < cat_count c - 1" by (simp add: cnt)
    then have "rows (remove_prepared c i) ! k = row_at (remove_prepared c i) k"
      by (simp add: cnt)
    also have "\<dots> = row_at c (if k < i then k else Suc k)"
      using k assms by (auto simp: remove_prepared_def Let_def row_at_put_row row_at_move_rows)
    also have "\<dots> = (take i (rows c) @ drop (Suc i) (rows c)) ! k"
      using k assms by (auto simp: nth_append)
    finally show "rows (remove_prepared c i) ! k =
        (take i (rows c) @ drop (Suc i) (rows c)) ! k" .
  qed
qed

lemma remove_eq:
  "remove c pid =
     (let i = lookupIndex c pid in
      if i \<ge> cat_count c then (False, c) else (True, commit_definitions (remove_prepared c i)))"
  by (simp add: remove_def remove_prepared_def Let_def)

lemma remove_rows:
  "rows (snd (remove c pid)) =
    (let i = lookupIndex c pid in
     if i < cat_count c then take i (rows c) @ drop (Suc i) (rows c) else rows c)"
  by (auto simp: remove_eq Let_def remove_prepared_rows)

lemma remove_wf:
  assumes "catalog_wf c"
  shows "catalog_wf (snd (remove c pid))"
proof (cases "lookupIndex c pid < cat_count c")
  case True
  have "\<forall>r\<in>set (rows c). row_ok r" using assms by (simp add: catalog_wf_def meta_ok_rows)
  then have "catalog_wf (commit_definitions (remove_prepared c (lookupIndex c pid)))"
    using True catalog_wf_count [OF assms]
    by (intro commit_wf) (auto simp: remove_prepared_rows dest: in_set_takeD in_set_dropD)
  with True show ?thesis by (simp add: remove_eq Let_def)
next
  case False
  with assms show ?thesis by (simp add: remove_eq Let_def)
qed

section \<open>Replacing the variables of a slot\<close>

definition row_is_variable :: "u16 \<Rightarrow> row \<Rightarrow> bool" where
  "row_is_variable slot = (\<lambda>(d, _, m, _). is_slot_variable_point d m slot)"

definition row_after_slot :: "u16 \<Rightarrow> row \<Rightarrow> bool" where
  "row_after_slot slot =
     (\<lambda>(_, _, m, _). has_slot m \<and> point_kind m = SlotOther \<and> slot < meta_slot_id m)"

definition kept_rows :: "u16 \<Rightarrow> row list \<Rightarrow> row list" where
  "kept_rows slot rs = filter (\<lambda>r. \<not> row_is_variable slot r) rs"

definition variable_rows :: "u16 \<Rightarrow> row list \<Rightarrow> row list" where
  "variable_rows slot rs = filter (row_is_variable slot) rs"

definition insert_rows :: "u16 \<Rightarrow> row list \<Rightarrow> row list \<Rightarrow> row list" where
  "insert_rows slot new rs =
     (let pos = length (takeWhile (\<lambda>r. \<not> row_after_slot slot r) rs)
      in take pos rs @ new @ drop pos rs)"

definition same_layout :: "row list \<Rightarrow> point_definition list \<Rightarrow> bool" where
  "same_layout rs ds = list_all2 (\<lambda>r d. point_definitions_equal (fst r) d) rs ds"

lemma variable_rows_simps:
  "variable_rows slot [] = []"
  "variable_rows slot (r # rs) =
     (if row_is_variable slot r then r # variable_rows slot rs else variable_rows slot rs)"
  by (simp_all add: variable_rows_def)

lemma fst_row_at [simp]: "fst (row_at c i) = cat_entries c i"
  by (simp add: row_at_def)

lemma slot_variable_at_row: "slot_variable_at slot c i = row_is_variable slot (row_at c i)"
  by (simp add: slot_variable_at_def row_is_variable_def row_at_def)

lemma match_slot_variables_count:
  "fst (match_slot_variables slot c is ds n b) =
     n + length (variable_rows slot (map (row_at c) is))"
  by (induction slot c "is" ds n b rule: match_slot_variables.induct)
    (auto simp: slot_variable_at_row variable_rows_simps split: list.split)

lemma match_slot_variables_changed:
  "length (variable_rows slot (map (row_at c) is)) = length ds \<Longrightarrow>
   snd (match_slot_variables slot c is ds n b) =
     (b \<or> \<not> same_layout (variable_rows slot (map (row_at c) is)) ds)"
proof (induction slot c "is" ds n b rule: match_slot_variables.induct)
  case (2 slot c i "is" ds n changed)
  then show ?case
    by (cases ds) (auto simp: slot_variable_at_row variable_rows_simps same_layout_def)
qed (simp add: variable_rows_simps same_layout_def)

text \<open>The layout changed iff the variables of the slot are not the given definitions.\<close>

lemma match_slot_variables_spec:
  assumes "match_slot_variables slot c [0..<cat_count c] ds 0 False = (n, b)"
  shows "n = length (variable_rows slot (rows c))"
    and "(b \<or> n \<noteq> length ds) = (\<not> same_layout (variable_rows slot (rows c)) ds)"
proof -
  show n: "n = length (variable_rows slot (rows c))"
    using match_slot_variables_count [of slot c "[0..<cat_count c]" ds 0 False] assms
    by (simp add: rows_def)
  show "(b \<or> n \<noteq> length ds) = (\<not> same_layout (variable_rows slot (rows c)) ds)"
  proof (cases "n = length ds")
    case True
    then show ?thesis
      using match_slot_variables_changed [of slot c "[0..<cat_count c]" ds 0 False] assms n
      by (simp add: rows_def)
  next
    case False
    then show ?thesis
      using n by (auto simp: same_layout_def dest: list_all2_lengthD)
  qed
qed

lemma compact_row:
  "row_at (snd (compact_step slot i (k, c))) j =
     (if \<not> slot_variable_at slot c i \<and> j = k then row_at c i else row_at c j)"
  by (simp add: compact_step_def row_at_def)

lemma compact_count:
  "cat_count (snd (compact_step slot i (k, c))) = cat_count c"
  "fst (compact_step slot i (k, c)) = (if slot_variable_at slot c i then k else k + 1)"
  by (simp_all add: compact_step_def)

text \<open>
  After \<open>m\<close> iterations the kept rows stand at the front and every row from the write
  cursor on is still the original one.
\<close>

lemma compact_loop:
  assumes "m \<le> cat_count c"
  shows "case fold (compact_step slot) [0..<m] (0, c) of (k, c') \<Rightarrow>
    k = length (kept_rows slot (take m (rows c))) \<and> k \<le> m \<and> cat_count c' = cat_count c \<and>
    (\<forall>j<k. row_at c' j = kept_rows slot (take m (rows c)) ! j) \<and>
    (\<forall>j\<ge>k. row_at c' j = row_at c j)"
  using assms
proof (induction m)
  case 0
  then show ?case by (simp add: kept_rows_def)
next
  case (Suc m)
  obtain k c' where f: "fold (compact_step slot) [0..<m] (0, c) = (k, c')" by fastforce
  with Suc have k: "k = length (kept_rows slot (take m (rows c)))" "k \<le> m"
    and cnt: "cat_count c' = cat_count c"
    and front: "\<And>j. j < k \<Longrightarrow> row_at c' j = kept_rows slot (take m (rows c)) ! j"
    and tail: "\<And>j. k \<le> j \<Longrightarrow> row_at c' j = row_at c j"
    by auto
  have tk: "take (Suc m) (rows c) = take m (rows c) @ [row_at c m]"
    using Suc.prems by (simp add: take_Suc_conv_app_nth)
  have fm: "fold (compact_step slot) [0..<Suc m] (0, c) = compact_step slot m (k, c')"
    by (simp add: f)
  obtain k2 c2 where s: "compact_step slot m (k, c') = (k2, c2)" by fastforce
  have v: "slot_variable_at slot c' m = row_is_variable slot (row_at c m)"
    using tail [OF k(2)] by (simp add: slot_variable_at_row)
  have r2: "row_at c2 j = (if \<not> slot_variable_at slot c' m \<and> j = k then row_at c' m
      else row_at c' j)" for j
    using compact_row [of slot m k c' j] s by simp
  have k2: "k2 = (if slot_variable_at slot c' m then k else k + 1)"
    and cnt2: "cat_count c2 = cat_count c"
    using compact_count [of slot m k c'] s cnt by simp_all
  show ?case
  proof (cases "row_is_variable slot (row_at c m)")
    case True
    then show ?thesis
      unfolding fm s using k front tail v r2 k2 cnt2
      by (simp add: tk kept_rows_def)
  next
    case False
    then show ?thesis
      unfolding fm s using k front tail v r2 k2 cnt2
      by (auto simp: tk kept_rows_def nth_append less_Suc_eq)
  qed
qed

lemma find_takeWhile:
  "distinct xs \<Longrightarrow> (case find P xs of None \<Rightarrow> length xs | Some x \<Rightarrow> the_index x) =
     length (takeWhile (\<lambda>x. \<not> P x) xs)" if "\<And>k. k < length xs \<Longrightarrow> the_index (xs ! k) = k"
  for the_index :: "'a \<Rightarrow> nat"
  using that
proof (induction xs arbitrary: the_index)
  case Nil
  then show ?case by simp
next
  case (Cons x xs)
  have x0: "the_index x = 0" using Cons.prems(2) [of 0] by simp
  have shift: "the_index (xs ! k) - 1 = k" if "k < length xs" for k
    using Cons.prems(2) [of "Suc k"] that by simp
  have pos: "0 < the_index y" if "y \<in> set xs" for y
    using that Cons.prems(2) by (metis Suc_less_eq in_set_conv_nth length_Cons nth_Cons_Suc zero_less_Suc)
  have y: "y \<in> set xs" if "find P xs = Some y" for y
    using that by (metis find_Some_iff nth_mem)
  show ?case
    using Cons.IH [of "\<lambda>y. the_index y - 1"] Cons.prems(1) shift x0 pos y
    by (auto split: option.splits) fastforce+
qed

lemma find_upt_takeWhile:
  "(case find P [0..<n] of None \<Rightarrow> n | Some i \<Rightarrow> i) =
     length (takeWhile (\<lambda>i. \<not> P i) [0..<n])"
  using find_takeWhile [of "[0..<n]" "\<lambda>i. i" P] by (simp cong: option.case_cong)

lemma slot_insert_position_spec:
  assumes "length rs = n" and "\<And>j. j < n \<Longrightarrow> row_at c j = rs ! j"
  shows "slot_insert_position slot c n = length (takeWhile (\<lambda>r. \<not> row_after_slot slot r) rs)"
proof -
  have rs: "rs = map (row_at c) [0..<n]" using assms by (auto intro: nth_equalityI)
  show ?thesis
    unfolding slot_insert_position_def rs find_upt_takeWhile takeWhile_map
    by (simp add: row_after_slot_def row_at_def comp_def)
qed

lemma put_rows_loop:
  "row_at (fold (\<lambda>k c. put_row (pos + k) (ds ! k) (classifyPlcPointMeta (ds ! k)) c) [0..<m] c) j =
     (if pos \<le> j \<and> j < pos + m then fresh_row (ds ! (j - pos)) else row_at c j)"
  by (induction m) (auto simp: row_at_put_row fresh_row_def)

lemma put_rows_count:
  "cat_count (fold (\<lambda>k c. put_row (pos + k) (ds ! k) (classifyPlcPointMeta (ds ! k)) c) xs c) =
     cat_count c"
  by (induction xs arbitrary: c) simp_all

text \<open>The catalog after the loops of the replacement, before it is committed.\<close>

definition replace_prepared :: "point_catalog \<Rightarrow> u16 \<Rightarrow> point_definition list \<Rightarrow> point_catalog" where
  "replace_prepared c slot ds =
     (let (n, c1) = fold (compact_step slot) [0..<cat_count c] (0, c);
          pos = slot_insert_position slot c1 n;
          c2 = (if pos < n \<and> length ds \<noteq> 0
                then move_rows (pos + length ds) pos (n - pos) c1 else c1);
          c3 = fold (\<lambda>k c. put_row (pos + k) (ds ! k) (classifyPlcPointMeta (ds ! k)) c)
                 [0..<length ds] c2
      in c3\<lparr>cat_count := n + length ds\<rparr>)"

lemma replace_prepared_rows:
  "rows (replace_prepared c slot ds) =
     insert_rows slot (map fresh_row ds) (kept_rows slot (rows c))"
  "cat_count (replace_prepared c slot ds) = length (kept_rows slot (rows c)) + length ds"
proof -
  obtain n c1 where f: "fold (compact_step slot) [0..<cat_count c] (0, c) = (n, c1)"
    by fastforce
  let ?keep = "kept_rows slot (rows c)"
  have n: "n = length ?keep" and front: "\<And>j. j < n \<Longrightarrow> row_at c1 j = ?keep ! j"
    using compact_loop [of "cat_count c" c slot] by (auto simp: f)
  define pos where "pos = slot_insert_position slot c1 n"
  have pos: "pos = length (takeWhile (\<lambda>r. \<not> row_after_slot slot r) ?keep)"
    unfolding pos_def by (rule slot_insert_position_spec) (simp_all add: n [symmetric] front)
  have posn: "pos \<le> n" unfolding pos n by (rule length_takeWhile_le)
  define c2 where "c2 = (if pos < n \<and> length ds \<noteq> 0
                then move_rows (pos + length ds) pos (n - pos) c1 else c1)"
  define c3 where "c3 = fold (\<lambda>k c. put_row (pos + k) (ds ! k)
      (classifyPlcPointMeta (ds ! k)) c) [0..<length ds] c2"
  have rp: "replace_prepared c slot ds = c3\<lparr>cat_count := n + length ds\<rparr>"
    unfolding replace_prepared_def f prod.case Let_def c3_def c2_def pos_def by (rule refl)
  then show cnt: "cat_count (replace_prepared c slot ds) = length ?keep + length ds"
    by (simp add: n)
  have r3: "row_at c3 j = (if pos \<le> j \<and> j < pos + length ds then fresh_row (ds ! (j - pos))
      else row_at c2 j)" for j
    unfolding c3_def by (rule put_rows_loop)
  have r2: "row_at c2 j = ?keep ! (if j < pos then j else j - length ds)"
    if "j < n + length ds" "\<not> (pos \<le> j \<and> j < pos + length ds)" for j
    using that posn by (auto simp: c2_def row_at_move_rows front)
  show "rows (replace_prepared c slot ds) = insert_rows slot (map fresh_row ds) ?keep"
  proof (rule nth_equalityI)
    show "length (rows (replace_prepared c slot ds)) =
        length (insert_rows slot (map fresh_row ds) ?keep)"
      using posn by (simp add: cnt insert_rows_def pos [symmetric] n [symmetric] Let_def)
    fix j assume "j < length (rows (replace_prepared c slot ds))"
    then have j: "j < n + length ds" by (simp add: cnt n)
    then have "rows (replace_prepared c slot ds) ! j = row_at c3 j"
      by (simp add: rp)
    also have "\<dots> = (if pos \<le> j \<and> j < pos + length ds then fresh_row (ds ! (j - pos))
        else ?keep ! (if j < pos then j else j - length ds))"
      using r2 [OF j] by (simp add: r3)
    also have "\<dots> = insert_rows slot (map fresh_row ds) ?keep ! j"
      using posn j
      by (auto simp: insert_rows_def pos [symmetric] n [symmetric] Let_def nth_append)
    finally show "rows (replace_prepared c slot ds) ! j =
        insert_rows slot (map fresh_row ds) ?keep ! j" .
  qed
qed

lemma length_variable_kept:
  "length (variable_rows slot rs) + length (kept_rows slot rs) = length rs"
  unfolding variable_rows_def kept_rows_def using sum_length_filter_compl by blast

text \<open>The whole operation, on every branch, over the rows.\<close>

lemma replaceSlotVariableDefinitions_eq:
  "replaceSlotVariableDefinitions c slot defs =
     (case defs of None \<Rightarrow> (False, False, c)
      | Some ds \<Rightarrow>
          if length ds > kMaxPoints \<or>
             length (kept_rows slot (rows c)) + length ds > kMaxPoints
          then (False, False, c)
          else if same_layout (variable_rows slot (rows c)) ds then (True, False, c)
          else (True, True, commit_definitions (replace_prepared c slot ds)))"
proof (cases defs)
  case None
  then show ?thesis by (simp add: replaceSlotVariableDefinitions_def)
next
  case (Some ds)
  obtain n b where m: "match_slot_variables slot c [0..<cat_count c] ds 0 False = (n, b)"
    by fastforce
  note sp = match_slot_variables_spec [OF m]
  have k: "cat_count c - n = length (kept_rows slot (rows c))"
    using length_variable_kept [of slot "rows c"] sp(1) by simp
  show ?thesis
    unfolding replaceSlotVariableDefinitions_def Some option.simps m prod.case k Let_def sp(2)
    by (simp add: replace_prepared_def Let_def split: prod.splits)
qed

lemma set_insert_rows: "set (insert_rows slot new rs) = set new \<union> set rs"
proof -
  have "set (take n rs) \<union> set (drop n rs) = set rs" for n
    by (metis append_take_drop_id set_append)
  then show ?thesis by (auto simp: insert_rows_def Let_def)
qed

lemma replace_wf:
  assumes "catalog_wf c"
  shows "catalog_wf (snd (snd (replaceSlotVariableDefinitions c slot defs)))"
proof -
  have "\<forall>r\<in>set (rows c). row_ok r" using assms by (simp add: catalog_wf_def meta_ok_rows)
  then have "\<forall>r\<in>set (rows (replace_prepared c slot ds)). row_ok r" for ds
    by (auto simp: replace_prepared_rows set_insert_rows kept_rows_def)
  then have "catalog_wf (commit_definitions (replace_prepared c slot ds))"
    if "length (kept_rows slot (rows c)) + length ds \<le> kMaxPoints" for ds
    using that by (intro commit_wf) (simp_all add: replace_prepared_rows)
  with assms show ?thesis
    by (auto simp: replaceSlotVariableDefinitions_eq split: option.splits)
qed

lemma updateState_wf:
  assumes "catalog_wf c"
  shows "catalog_wf (snd (updateState c pid st))"
proof -
  let ?i = "lookupIndex c pid"
  let ?c = "c\<lparr>cat_states := (cat_states c)(?i := st)\<rparr>"
  have 1: "catalog_wf ?c"
    using assms catalog_ok_cong [of ?c c] dirty_ok_cong(1) [of ?c c]
    by (simp add: catalog_wf_def meta_ok_def)
  have 2: "catalog_wf (markStateDirty ?c ?i)"
    using 1 catalog_ok_cong [of "markStateDirty ?c ?i" ?c]
    by (simp add: catalog_wf_def meta_ok_def markStateDirty_frame dirty_ok_markStateDirty)
  show ?thesis using assms 1 2 by (auto simp: updateState_def Let_def)
qed

end
