(* ===== verification/CatalogBrowse.thy ===== *)
theory CatalogBrowse
  imports CatalogOps
begin

text \<open>
  The browse index \<open>rebuildBrowseIndex\<close> builds: for every device its first row, and for
  every device the features of its rows. The features of a device are stored as one run
  of a shared array, which is right when the rows of a device are contiguous and wrong
  when devices interleave.
\<close>

definition sample_point :: "string \<Rightarrow> string \<Rightarrow> string \<Rightarrow> point_definition" where
  "sample_point dev feat pt =
     empty_definition\<lparr>pd_id := \<lparr>device_id = buf_of 16 dev, feature = buf_of 32 feat,
                                  point_id = buf_of 32 pt\<rparr>\<rparr>"

definition sample_rows :: "point_definition list \<Rightarrow> point_catalog" where
  "sample_rows ds =
     (new_PointCatalog (\<lambda>_. empty_state))
       \<lparr>cat_entries := (\<lambda>i. if i < length ds then ds ! i else empty_definition),
        cat_count := length ds\<rparr>"

definition interleaved_rows :: point_catalog where
  "interleaved_rows = sample_rows
     [sample_point ''devA'' ''f1'' ''p'', sample_point ''devB'' ''f2'' ''p'',
      sample_point ''devA'' ''f3'' ''p'']"

section \<open>What the browse index holds\<close>

definition dev_key :: "point_catalog \<Rightarrow> nat \<Rightarrow> u8 list" where
  "dev_key c i = cstr (device_id (pd_id (cat_entries c i)))"

definition feat_key :: "point_catalog \<Rightarrow> nat \<Rightarrow> u8 list" where
  "feat_key c i = cstr (feature (pd_id (cat_entries c i)))"

definition first_dev :: "point_catalog \<Rightarrow> nat \<Rightarrow> bool" where
  "first_dev c i = (\<forall>j<i. dev_key c j \<noteq> dev_key c i)"

definition first_feat :: "point_catalog \<Rightarrow> nat \<Rightarrow> bool" where
  "first_feat c i = (\<forall>j<i. \<not> (dev_key c j = dev_key c i \<and> feat_key c j = feat_key c i))"

definition devs :: "point_catalog \<Rightarrow> nat \<Rightarrow> nat list" where
  "devs c m = filter (first_dev c) [0..<m]"

definition feats :: "point_catalog \<Rightarrow> nat \<Rightarrow> nat list" where
  "feats c m = filter (first_feat c) [0..<m]"

definition dev_feats :: "point_catalog \<Rightarrow> nat \<Rightarrow> u8 list \<Rightarrow> nat list" where
  "dev_feats c m key = filter (\<lambda>i. dev_key c i = key) (feats c m)"

definition grouped :: "point_catalog \<Rightarrow> bool" where
  "grouped c = (\<forall>k<cat_count c. \<forall>j<k. \<forall>i<j. dev_key c i = dev_key c k \<longrightarrow>
                  dev_key c j = dev_key c i)"

definition browse_inv :: "point_catalog \<Rightarrow> nat \<Rightarrow> point_catalog \<Rightarrow> bool" where
  "browse_inv c m b \<longleftrightarrow>
     browse_frame c b \<and> browse_device_count b = length (devs c m) \<and>
     browse_feature_count b = length (feats c m) \<and>
     (\<forall>k<length (feats c m). unat (browse_feature_indices b k) = feats c m ! k) \<and>
     (\<forall>d<length (devs c m). let i = devs c m ! d; meta = browse_devices b d in
        unat (bd_catalog_index meta) = i \<and>
        unat (feature_count meta) = length (dev_feats c m (dev_key c i)) \<and>
        unat (feature_start meta) = length (feats c i))"

lemma devs_Suc: "devs c (Suc m) = devs c m @ (if first_dev c m then [m] else [])"
  by (simp add: devs_def)

lemma feats_Suc: "feats c (Suc m) = feats c m @ (if first_feat c m then [m] else [])"
  by (simp add: feats_def)

lemma dev_feats_Suc:
  "dev_feats c (Suc m) key =
     dev_feats c m key @ (if first_feat c m \<and> dev_key c m = key then [m] else [])"
  by (simp add: dev_feats_def feats_Suc)

lemma devs_nth: "d < length (devs c m) \<Longrightarrow> devs c m ! d < m \<and> first_dev c (devs c m ! d)"
  using nth_mem [of d "devs c m"] by (auto simp: devs_def)

lemma devs_inj:
  assumes "d < length (devs c m)" "e < length (devs c m)"
    and "dev_key c (devs c m ! d) = dev_key c (devs c m ! e)"
  shows "d = e"
proof -
  have "devs c m ! d = devs c m ! e"
    using devs_nth [OF assms(1)] devs_nth [OF assms(2)] assms(3)
    unfolding first_dev_def by (metis nat_neq_iff)
  moreover have "distinct (devs c m)" by (simp add: devs_def)
  ultimately show ?thesis using assms nth_eq_iff_index_eq by blast
qed

lemma devs_complete: "j < m \<Longrightarrow> \<exists>d<length (devs c m). dev_key c (devs c m ! d) = dev_key c j"
proof (induction j rule: less_induct)
  case (less j)
  show ?case
  proof (cases "first_dev c j")
    case True
    with less.prems have "j \<in> set (devs c m)" by (simp add: devs_def)
    then show ?thesis by (metis in_set_conv_nth)
  next
    case False
    then obtain h where "h < j" "dev_key c h = dev_key c j" by (auto simp: first_dev_def)
    with less.IH [of h] less.prems show ?thesis by auto
  qed
qed

text \<open>The feature keys of a device are those of its first occurrences.\<close>

lemma dev_feats_complete:
  "(\<exists>i\<in>set (dev_feats c m key). feat_key c i = f) \<longleftrightarrow>
   (\<exists>i<m. dev_key c i = key \<and> feat_key c i = f)"
proof
  show "\<exists>i\<in>set (dev_feats c m key). feat_key c i = f \<Longrightarrow>
      \<exists>i<m. dev_key c i = key \<and> feat_key c i = f"
    by (auto simp: dev_feats_def feats_def)
  assume "\<exists>i<m. dev_key c i = key \<and> feat_key c i = f"
  then obtain i where "i < m" "dev_key c i = key" "feat_key c i = f" by blast
  then show "\<exists>i\<in>set (dev_feats c m key). feat_key c i = f"
  proof (induction i rule: less_induct)
    case (less i)
    show ?case
    proof (cases "first_feat c i")
      case True
      with less.prems show ?thesis by (auto simp: dev_feats_def feats_def)
    next
      case False
      then obtain h where "h < i" "dev_key c h = dev_key c i" "feat_key c h = feat_key c i"
        by (auto simp: first_feat_def)
      with less.IH [of h] less.prems show ?thesis by auto
    qed
  qed
qed

lemma first_dev_no_feats: "first_dev c i \<Longrightarrow> dev_feats c i (dev_key c i) = []"
  by (auto simp: dev_feats_def feats_def first_dev_def filter_empty_conv)

text \<open>In a grouped catalog the features of a device are one run of the feature list.\<close>

lemma grouped_run:
  assumes g: "grouped c" and i: "first_dev c i" and m: "i \<le> m" "m \<le> cat_count c"
  shows "\<exists>rest. feats c m = feats c i @ dev_feats c m (dev_key c i) @ rest \<and>
           (\<forall>j\<in>set rest. i < j \<and> j < m \<and> dev_key c j \<noteq> dev_key c i)"
  using m
proof (induction m)
  case 0
  then show ?case using first_dev_no_feats [OF i] by simp
next
  case (Suc m)
  show ?case
  proof (cases "i = Suc m")
    case True
    then show ?thesis using first_dev_no_feats [OF i] by simp
  next
    case False
    with Suc obtain rest where r: "feats c m = feats c i @ dev_feats c m (dev_key c i) @ rest"
      and out: "\<forall>j\<in>set rest. i < j \<and> j < m \<and> dev_key c j \<noteq> dev_key c i" by auto
    show ?thesis
    proof (cases "first_feat c m \<and> dev_key c m = dev_key c i")
      case True
      have "rest = []"
      proof (rule ccontr)
        assume "rest \<noteq> []"
        then obtain j where "i < j" "j < m" "dev_key c j \<noteq> dev_key c i"
          using out by (metis list.set_intros(1) neq_Nil_conv)
        with g True Suc.prems(2) show False unfolding grouped_def by (metis Suc_le_lessD)
      qed
      with True r show ?thesis by (simp add: feats_Suc dev_feats_Suc)
    next
      case no: False
      show ?thesis
      proof (cases "first_feat c m")
        case True
        with no have "m \<noteq> i" "dev_key c m \<noteq> dev_key c i" by auto
        with True r out False Suc.prems(1) show ?thesis
          by (intro exI [of _ "rest @ [m]"]) (auto simp: feats_Suc dev_feats_Suc)
      next
        case False
        with r out show ?thesis
          by (intro exI [of _ rest]) (auto simp: feats_Suc dev_feats_Suc)
      qed
    qed
  qed
qed

section \<open>The loop invariant\<close>

lemma inv_rows:
  assumes "browse_inv c m b"
  shows "cat_entries b = cat_entries c" "cat_count b = cat_count c"
    "browse_device_count b = length (devs c m)" "browse_feature_count b = length (feats c m)"
  using assms browse_frame_fields [of c b] by (simp_all add: browse_inv_def)

lemma inv_device:
  assumes "browse_inv c m b" and "d < length (devs c m)"
  shows "unat (bd_catalog_index (browse_devices b d)) = devs c m ! d"
    "unat (feature_count (browse_devices b d)) = length (dev_feats c m (dev_key c (devs c m ! d)))"
    "unat (feature_start (browse_devices b d)) = length (feats c (devs c m ! d))"
  using assms by (simp_all add: browse_inv_def Let_def)

lemma inv_matches:
  assumes "browse_inv c m b" "m \<le> cat_count c" "d < length (devs c m)"
  shows "browse_device_matches b name d = (dev_key c (devs c m ! d) = cstr name)"
  using inv_device(1) [OF assms(1,3)] devs_nth [OF assms(3)] assms(2)
  by (simp add: browse_device_matches_def Let_def inv_rows [OF assms(1)] strcmp_eq_def dev_key_def)

lemma inv_find_device:
  assumes "browse_inv c m b" "m \<le> cat_count c"
  shows "d < length (devs c m) \<Longrightarrow> dev_key c (devs c m ! d) = cstr name \<Longrightarrow>
           find_browse_device b name = d"
    and "(\<And>d. d < length (devs c m) \<Longrightarrow> dev_key c (devs c m ! d) \<noteq> cstr name) \<Longrightarrow>
           find_browse_device b name = length (devs c m)"
proof -
  note match = inv_matches [OF assms]
  note cnt = inv_rows(3) [OF assms(1)]
  show "find_browse_device b name = length (devs c m)"
    if "\<And>d. d < length (devs c m) \<Longrightarrow> dev_key c (devs c m ! d) \<noteq> cstr name"
  proof -
    have "find (browse_device_matches b name) [0..<length (devs c m)] = None"
      using that match by (auto simp: find_None_iff)
    then show ?thesis by (simp add: find_browse_device_def cnt)
  qed
  assume d: "d < length (devs c m)" "dev_key c (devs c m ! d) = cstr name"
  have "find (browse_device_matches b name) [0..<length (devs c m)] = Some d"
    unfolding find_Some_iff
  proof (intro exI conjI allI impI)
    show "d < length [0..<length (devs c m)]" "d = [0..<length (devs c m)] ! d"
      using d by simp_all
    show "browse_device_matches b name ([0..<length (devs c m)] ! d)"
      using d match by simp
    fix e assume "e < d"
    then show "\<not> browse_device_matches b name ([0..<length (devs c m)] ! e)"
      using d match [of e] devs_inj [of e c m d] by auto
  qed
  then show "find_browse_device b name = d" by (simp add: find_browse_device_def cnt)
qed

text \<open>The features a device lists, in a grouped catalog.\<close>

lemma inv_feature_name:
  assumes inv: "browse_inv c m b" and m: "m \<le> cat_count c" and g: "grouped c"
    and d: "d < length (devs c m)"
    and k: "k < length (dev_feats c m (dev_key c (devs c m ! d)))"
  shows "browseFeatureName b (browse_devices b d) k =
    Some (feature (pd_id (cat_entries c (dev_feats c m (dev_key c (devs c m ! d)) ! k))))"
proof -
  let ?i = "devs c m ! d"
  let ?fs = "dev_feats c m (dev_key c ?i)"
  have i: "?i \<le> m" "first_dev c ?i" using devs_nth [OF d] by simp_all
  obtain rest where run: "feats c m = feats c ?i @ ?fs @ rest"
    using grouped_run [OF g i(2,1) m] by blast
  then have lt: "length (feats c ?i) + k < length (feats c m)" using k by simp
  have at: "feats c m ! (length (feats c ?i) + k) = ?fs ! k"
    unfolding run using k by (simp add: nth_append)
  have idx: "unat (browse_feature_indices b (length (feats c ?i) + k)) = ?fs ! k"
    using inv lt at by (simp add: browse_inv_def)
  have "?fs ! k \<in> set ?fs" using k by simp
  then have "?fs ! k < cat_count c" using m by (auto simp: dev_feats_def feats_def)
  with k lt show ?thesis
    by (simp add: browseFeatureName_def Let_def inv_rows [OF inv] inv_device [OF inv d] idx)
qed

lemma length_feats_le: "length (feats c m) \<le> m"
  unfolding feats_def by (metis diff_zero length_filter_le length_upt)

lemma length_devs_le: "length (devs c m) \<le> m"
  unfolding devs_def by (metis diff_zero length_filter_le length_upt)

lemma length_dev_feats_le: "length (dev_feats c m key) \<le> m"
  unfolding dev_feats_def by (meson le_trans length_feats_le length_filter_le)

lemma browse_inv_new_device:
  assumes inv: "browse_inv c m b" and n: "cat_count c \<le> kMaxPoints" and m: "m < cat_count c"
    and first: "first_dev c m"
  shows "browse_inv c (Suc m) (browse_add b m)"
proof -
  have m16: "unat (of_nat m :: u16) = m" "unat (of_nat (length (feats c m)) :: u16) = length (feats c m)"
    using m n length_feats_le [of c m] by (auto intro!: unat_u16_of_nat simp: kMaxPoints_def)
  note rows = inv_rows [OF inv]
  have nd: "find_browse_device b (device_id (pd_id (cat_entries c m))) = length (devs c m)"
    using first devs_nth [of _ c m] m
    by (intro inv_find_device(2) [OF inv]) (auto simp: rows first_dev_def dev_key_def [symmetric])
  have full: "length (feats c m) < kMaxPoints" using length_feats_le [of c m] m n by simp
  have ff: "first_feat c m" using first by (auto simp: first_dev_def first_feat_def)
  have nof: "dev_feats c m (dev_key c m) = []" by (rule first_dev_no_feats [OF first])
  have other: "dev_key c m \<noteq> dev_key c (devs c m ! d)" if "d < length (devs c m)" for d
    using devs_nth [OF that] first by (auto simp: first_dev_def)
  have fr: "browse_frame c (browse_add b m)"
    using inv browse_frame_add browse_frame_trans unfolding browse_inv_def by blast
  have old: "\<forall>k<length (feats c m). unat (browse_feature_indices b k) = feats c m ! k"
    using inv by (simp add: browse_inv_def)
  show ?thesis
    unfolding browse_inv_def
  proof (intro conjI)
    show "browse_frame c (browse_add b m)" by (rule fr)
    show "browse_device_count (browse_add b m) = length (devs c (Suc m))"
      "browse_feature_count (browse_add b m) = length (feats c (Suc m))"
      using full by (simp_all add: browse_add_def Let_def nd rows devs_Suc feats_Suc first ff)
    show "\<forall>k<length (feats c (Suc m)). unat (browse_feature_indices (browse_add b m) k) =
        feats c (Suc m) ! k"
      using full old
      by (auto simp: browse_add_def Let_def nd rows feats_Suc ff nth_append m16 less_Suc_eq)
    show "\<forall>d<length (devs c (Suc m)). let i = devs c (Suc m) ! d; meta = browse_devices (browse_add b m) d in
        unat (bd_catalog_index meta) = i \<and>
        unat (feature_count meta) = length (dev_feats c (Suc m) (dev_key c i)) \<and>
        unat (feature_start meta) = length (feats c i)"
      using full inv_device [OF inv] other
      by (auto simp: browse_add_def Let_def nd rows devs_Suc first ff nth_append m16 less_Suc_eq
          dev_feats_Suc nof)
  qed
qed

lemma browse_inv_known_device:
  assumes inv: "browse_inv c m b" and n: "cat_count c \<le> kMaxPoints" and m: "m < cat_count c"
    and g: "grouped c" and known: "\<not> first_dev c m"
  shows "browse_inv c (Suc m) (browse_add b m)"
proof -
  note rows = inv_rows [OF inv]
  have m16: "unat (of_nat m :: u16) = m"
    using m n by (auto intro!: unat_u16_of_nat simp: kMaxPoints_def)
  obtain h where "h < m" "dev_key c h = dev_key c m" using known by (auto simp: first_dev_def)
  then obtain d where d: "d < length (devs c m)" "dev_key c (devs c m ! d) = dev_key c m"
    using devs_complete [of h m c] by auto
  have nd: "find_browse_device b (device_id (pd_id (cat_entries c m))) = d"
    using inv_find_device(1) [OF inv less_imp_le [OF m] d(1)] d(2) by (simp add: dev_key_def)
  let ?meta = "browse_devices b d" and ?fs = "dev_feats c m (dev_key c m)"
  have cnt: "unat (feature_count ?meta) = length ?fs"
    using inv_device(2) [OF inv d(1)] by (simp add: d(2))
  have name: "browseFeatureName b ?meta k = Some (feature (pd_id (cat_entries c (?fs ! k))))"
    if "k < length ?fs" for k
    using inv_feature_name [OF inv less_imp_le [OF m] g d(1), of k] that by (simp add: d(2))
  have ex: "list_ex (\<lambda>k. case browseFeatureName b ?meta k of None \<Rightarrow> False
        | Some nm \<Rightarrow> strcmp_eq nm (feature (pd_id (cat_entries c m))))
      [0..<unat (feature_count ?meta)] = (\<not> first_feat c m)"
  proof -
    have "list_ex (\<lambda>k. case browseFeatureName b ?meta k of None \<Rightarrow> False
        | Some nm \<Rightarrow> strcmp_eq nm (feature (pd_id (cat_entries c m))))
      [0..<unat (feature_count ?meta)] = (\<exists>k<length ?fs. feat_key c (?fs ! k) = feat_key c m)"
      by (auto simp: list_ex_iff cnt name strcmp_eq_def feat_key_def)
    also have "\<dots> = (\<exists>i\<in>set ?fs. feat_key c i = feat_key c m)"
      by (metis in_set_conv_nth)
    finally have "list_ex (\<lambda>k. case browseFeatureName b ?meta k of None \<Rightarrow> False
        | Some nm \<Rightarrow> strcmp_eq nm (feature (pd_id (cat_entries c m))))
      [0..<unat (feature_count ?meta)] = (\<exists>i\<in>set ?fs. feat_key c i = feat_key c m)" .
    then show ?thesis using dev_feats_complete by (auto simp: first_feat_def)
  qed
  have full: "length (feats c m) < kMaxPoints" using length_feats_le [of c m] m n by simp
  have cnt1: "unat (feature_count ?meta + 1) = Suc (length ?fs)"
  proof -
    have "Suc (length ?fs) < 65536"
      using length_dev_feats_le [of c m "dev_key c m"] m n by (simp add: kMaxPoints_def)
    then show ?thesis using cnt by (simp add: unat_word_ariths)
  qed
  have other: "dev_key c m \<noteq> dev_key c (devs c m ! e)" if "e < length (devs c m)" "e \<noteq> d" for e
    using that devs_inj [OF that(1) d(1)] d(2) by auto
  have fr: "browse_frame c (browse_add b m)"
    using inv browse_frame_add browse_frame_trans unfolding browse_inv_def by blast
  have old: "\<forall>k<length (feats c m). unat (browse_feature_indices b k) = feats c m ! k"
    using inv by (simp add: browse_inv_def)
  show ?thesis
  proof (cases "first_feat c m")
    case False
    then have same: "browse_add b m = b"
      using ex d(1) by (simp add: browse_add_def Let_def nd rows)
    show ?thesis using inv False known
      by (simp add: same browse_inv_def devs_Suc feats_Suc dev_feats_Suc)
  next
    case True
    have add: "browse_add b m =
       b\<lparr>browse_feature_indices := (browse_feature_indices b)(length (feats c m) := of_nat m),
         browse_feature_count := Suc (length (feats c m)),
         browse_devices := browse_devices (browse_add b m)\<rparr>"
      using ex True full d(1) by (simp add: browse_add_def Let_def nd rows)
    have dev_d: "feature_count (browse_devices (browse_add b m) d) = feature_count ?meta + 1 \<and>
        bd_catalog_index (browse_devices (browse_add b m) d) = bd_catalog_index ?meta \<and>
        feature_start (browse_devices (browse_add b m) d) = feature_start ?meta"
      and dev_e: "\<And>e. e \<noteq> d \<Longrightarrow> browse_devices (browse_add b m) e = browse_devices b e"
      using ex True full d(1) by (simp_all add: browse_add_def Let_def nd rows)
    show ?thesis
      unfolding browse_inv_def
    proof (intro conjI)
      show "browse_frame c (browse_add b m)" by (rule fr)
      show "browse_device_count (browse_add b m) = length (devs c (Suc m))"
        "browse_feature_count (browse_add b m) = length (feats c (Suc m))"
        by (subst add; simp add: devs_Suc feats_Suc known True rows)+
      show "\<forall>k<length (feats c (Suc m)). unat (browse_feature_indices (browse_add b m) k) =
          feats c (Suc m) ! k"
        using old by (subst add) (auto simp: feats_Suc True nth_append m16 less_Suc_eq)
      show "\<forall>e<length (devs c (Suc m)). let i = devs c (Suc m) ! e;
          meta = browse_devices (browse_add b m) e in
        unat (bd_catalog_index meta) = i \<and>
        unat (feature_count meta) = length (dev_feats c (Suc m) (dev_key c i)) \<and>
        unat (feature_start meta) = length (feats c i)"
      proof (intro allI impI)
        fix e assume "e < length (devs c (Suc m))"
        then have e: "e < length (devs c m)" by (simp add: devs_Suc known)
        show "let i = devs c (Suc m) ! e; meta = browse_devices (browse_add b m) e in
          unat (bd_catalog_index meta) = i \<and>
          unat (feature_count meta) = length (dev_feats c (Suc m) (dev_key c i)) \<and>
          unat (feature_start meta) = length (feats c i)"
          using inv_device [OF inv e] dev_d dev_e [of e] other [OF e] cnt1 d(2)
          by (cases "e = d") (simp_all add: Let_def devs_Suc known dev_feats_Suc True)
      qed
    qed
  qed
qed

lemma browse_inv_start:
  "browse_inv c 0 (c\<lparr>browse_device_count := 0, browse_feature_count := 0,
     browse_devices := f, browse_feature_indices := g\<rparr>)"
  by (simp add: browse_inv_def browse_frame_def devs_def feats_def)

lemma browse_inv_rebuild:
  assumes g: "grouped c" and n: "cat_count c \<le> kMaxPoints"
  shows "browse_inv c (cat_count c) (rebuildBrowseIndex c)"
proof -
  have "browse_inv c m (fold (\<lambda>i c. browse_add c i) [0..<m]
       (c\<lparr>browse_device_count := 0, browse_feature_count := 0,
          browse_devices := (\<lambda>k. if k < kMaxPoints then empty_browse_device
                                 else browse_devices c k),
          browse_feature_indices := zeroed kMaxPoints (browse_feature_indices c)\<rparr>))"
    if "m \<le> cat_count c" for m
    using that
  proof (induction m)
    case 0
    then show ?case by (simp add: browse_inv_start)
  next
    case (Suc m)
    then show ?case
      using browse_inv_new_device [of c m] browse_inv_known_device [of c m] g n
      by (cases "first_dev c m") simp_all
  qed
  then show ?thesis by (simp add: rebuildBrowseIndex_def)
qed

section \<open>Properties\<close>

definition contiguous_rows :: point_catalog where
  "contiguous_rows = sample_rows
     [sample_point ''devA'' ''f1'' ''p'', sample_point ''devA'' ''f1'' ''q'',
      sample_point ''devA'' ''f2'' ''p'', sample_point ''devB'' ''f1'' ''p'']"

text \<open>
  C26: For a catalog whose rows are grouped by device, the entries of the browse index are
  exactly the devices of the catalog, in the order of their first rows, which they refer
  to, and each entry lists exactly the features of the rows of its device, each once, in
  the order of first appearance.
\<close>
theorem browse_features_grouped:
  assumes "grouped c" and "cat_count c \<le> kMaxPoints"
  shows "let b = rebuildBrowseIndex c; n = cat_count c
         in map (\<lambda>d. unat (bd_catalog_index (browseDeviceMeta b d))) [0..<browseDeviceCount b] =
              filter (first_dev c) [0..<n] \<and>
            (\<forall>d<browseDeviceCount b. let meta = browseDeviceMeta b d
               in map (browseFeatureName b meta) [0..<unat (feature_count meta)] =
                  map (\<lambda>j. Some (feature (pd_id (cat_entries c j))))
                    (dev_feats c n (dev_key c (unat (bd_catalog_index meta)))))"
proof -
  note inv = browse_inv_rebuild [OF assms]
  have count: "browseDeviceCount (rebuildBrowseIndex c) = length (devs c (cat_count c))"
    using inv_rows(3) [OF inv] by (simp add: browseDeviceCount_def)
  have meta: "browseDeviceMeta (rebuildBrowseIndex c) d = browse_devices (rebuildBrowseIndex c) d"
    if "d < length (devs c (cat_count c))" for d
    using that inv_rows(3) [OF inv] by (simp add: browseDeviceMeta_def)
  show ?thesis
    using inv_device [OF inv] inv_feature_name [OF inv order.refl assms(1)]
    by (simp add: Let_def count meta list_eq_iff_nth_eq flip: devs_def)
qed

lemma browse_features_grouped_witness:
  "let b = rebuildBrowseIndex contiguous_rows; n = cat_count contiguous_rows
   in map (\<lambda>d. unat (bd_catalog_index (browseDeviceMeta b d))) [0..<browseDeviceCount b] = [0, 3] \<and>
      (\<forall>d<browseDeviceCount b. let meta = browseDeviceMeta b d
         in map (browseFeatureName b meta) [0..<unat (feature_count meta)] =
            map (\<lambda>j. Some (feature (pd_id (cat_entries contiguous_rows j))))
              (dev_feats contiguous_rows n
                (dev_key contiguous_rows (unat (bd_catalog_index meta)))))"
proof -
  note rows = contiguous_rows_def sample_rows_def new_PointCatalog_def resetIndex_def dev_key_def
    sample_point_def All_less_Suc buf_of_def lit_def cstr_def
  have g: "grouped contiguous_rows" by (simp add: grouped_def rows)
  have n: "cat_count contiguous_rows \<le> kMaxPoints"
    by (simp add: contiguous_rows_def sample_rows_def kMaxPoints_def)
  have "filter (first_dev contiguous_rows) [0..<cat_count contiguous_rows] = [0, 3]"
    by (simp add: first_dev_def rows upt_rec)
  with browse_features_grouped [OF g n] show ?thesis by (simp add: Let_def)
qed

text \<open>
  When the rows of two devices interleave, the browse index answers wrongly: for the
  rows (devA, f1), (devB, f2), (devA, f3) device \<open>devA\<close> lists \<open>f1\<close> and \<open>f2\<close>, and its
  feature \<open>f3\<close> is not listed.
\<close>
theorem browse_interleaved_wrong:
  "let b = rebuildBrowseIndex interleaved_rows; meta = browseDeviceMeta b 0
   in device_id (pd_id (cat_entries b (unat (bd_catalog_index meta)))) = buf_of 16 ''devA'' \<and>
      feature_count meta = 2 \<and>
      browseFeatureName b meta 0 = Some (buf_of 32 ''f1'') \<and>
      browseFeatureName b meta 1 = Some (buf_of 32 ''f2'')"
  by code_simp

end
