(* ===== verification/CatalogProps.thy ===== *)
theory CatalogProps
  imports CatalogBrowse
begin

text \<open>
  The contract of \<open>PointCatalog\<close> as properties: lookups, the row operations, and the
  delivery of state changes.
\<close>

section \<open>A catalog to evaluate on\<close>

definition sample_catalog :: point_catalog where
  "sample_catalog =
     snd (upsert (snd (upsert (clear (new_PointCatalog (\<lambda>_. empty_state)))
       (sample_point ''devA'' ''f1'' ''p''))) (sample_point ''devB'' ''f1'' ''p''))"

lemma sample_catalog_wf: "catalog_wf sample_catalog"
  unfolding sample_catalog_def by (intro upsert_wf catalog_wf_clear)

lemma sample_catalog_rows:
  "cat_count sample_catalog = 2"
  "cat_entries sample_catalog 1 = sample_point ''devB'' ''f1'' ''p''"
proof -
  let ?c0 = "clear (new_PointCatalog (\<lambda>_. empty_state))"
  let ?c1 = "snd (upsert ?c0 (sample_point ''devA'' ''f1'' ''p''))"
  let ?b = "sample_point ''devB'' ''f1'' ''p''"
  have c0: "cat_count ?c0 = 0"
    by (simp add: clear_def resetIndex_def resetDirtyStateTracking_def)
  have c1: "cat_count ?c1 = 1" "cat_entries ?c1 0 = sample_point ''devA'' ''f1'' ''p''"
    using c0 by (simp_all add: upsert_def Let_def kMaxPoints_def commit_definitions_fields)
  have wf: "catalog_wf ?c1" by (intro upsert_wf catalog_wf_clear)
  have "\<not> identitiesEqual (pd_id (sample_point ''devA'' ''f1'' ''p'')) (pd_id ?b)"
    by (simp add: identitiesEqual_def strcmp_eq_def sample_point_def buf_of_def lit_def cstr_def)
  then have "lookupIndex ?c1 (pd_id ?b) = 1"
    using wf c1 by (simp add: catalog_wf_def lookupIndex_eq_linear linear_find_def)
  then show "cat_count sample_catalog = 2"
    "cat_entries sample_catalog 1 = sample_point ''devB'' ''f1'' ''p''"
    unfolding sample_catalog_def using c1
    by (simp_all add: upsert_def [of ?c1] Let_def kMaxPoints_def commit_definitions_fields)
qed

section \<open>Lookups\<close>

text \<open>
  C1: On every well-formed catalog, up to a completely full hash table, \<open>findIndex\<close>
  answers as a linear search: the last row with the identity, or the size when there is
  none.
\<close>
theorem findIndex_linear:
  assumes "catalog_wf c"
  shows "findIndex c pid = linear_find c pid"
  using assms by (simp add: findIndex_def catalog_wf_def lookupIndex_eq_linear)

lemma findIndex_linear_witness:
  "findIndex sample_catalog empty_identity = linear_find sample_catalog empty_identity"
  by (rule findIndex_linear [OF sample_catalog_wf])

lemma lookup_last:
  assumes "catalog_ok c" and "i < cat_count c" and "identitiesEqual (entry_id c i) pid"
    and "\<And>j. i < j \<Longrightarrow> j < cat_count c \<Longrightarrow> \<not> identitiesEqual (entry_id c j) pid"
  shows "lookupIndex c pid = i"
proof -
  have "last_match_upto c pid (cat_count c) = Some i"
    using assms by (simp add: last_match_upto_Some entry_id_def)
  then show ?thesis using assms(1) by (simp add: lookupIndex_eq_linear linear_find_def)
qed

lemma lookup_last_known:
  assumes "catalog_ok c" and "lookupIndex c pid < cat_count c"
  shows "identitiesEqual (entry_id c (lookupIndex c pid)) pid"
    and "\<And>j. lookupIndex c pid < j \<Longrightarrow> j < cat_count c \<Longrightarrow> \<not> identitiesEqual (entry_id c j) pid"
proof -
  have "last_match_upto c pid (cat_count c) = Some (lookupIndex c pid)"
    using assms by (simp add: lookupIndex_eq_linear linear_find_def split: option.splits)
  then show "identitiesEqual (entry_id c (lookupIndex c pid)) pid"
    and "\<And>j. lookupIndex c pid < j \<Longrightarrow> j < cat_count c \<Longrightarrow> \<not> identitiesEqual (entry_id c j) pid"
    by (simp_all add: last_match_upto_Some entry_id_def)
qed

lemma identitiesEqual_refl [simp]: "identitiesEqual pid pid"
  by (simp add: identitiesEqual_iff_key)

lemma upsert_find:
  assumes wf: "catalog_wf c" and ok: "fst (upsert c d)"
  shows "find_definition (snd (upsert c d)) (pd_id d) = Some d"
proof -
  let ?i = "lookupIndex c (pd_id d)" and ?c = "snd (upsert c d)"
  have wf': "catalog_ok ?c" using upsert_wf [OF wf] by (simp add: catalog_wf_def)
  have cok: "catalog_ok c" using wf by (simp add: catalog_wf_def)
  show ?thesis
  proof (cases "?i < cat_count c")
    case True
    then have f: "cat_entries ?c = (cat_entries c)(?i := d)" "cat_count ?c = cat_count c"
      by (simp_all add: upsert_def Let_def commit_definitions_fields)
    have "lookupIndex ?c (pd_id d) = ?i"
      using lookup_last_known(2) [OF cok True] True
      by (intro lookup_last [OF wf']) (auto simp: f entry_id_def)
    then show ?thesis using True by (simp add: find_definition_def Let_def f)
  next
    case False
    with ok have f: "cat_entries ?c = (cat_entries c)(cat_count c := d)"
      "cat_count ?c = cat_count c + 1"
      by (auto simp: upsert_def Let_def commit_definitions_fields split: if_splits)
    have "lookupIndex ?c (pd_id d) = cat_count c"
      by (intro lookup_last [OF wf']) (auto simp: f entry_id_def)
    then show ?thesis by (simp add: find_definition_def Let_def f)
  qed
qed

section \<open>Row operations\<close>

text \<open>
  C23: \<open>upsert\<close> preserves the catalog invariant, replaces the row of a known identity (the
  states stay) or appends a fresh row, refuses exactly when the identity is new and the
  catalog is full, and afterwards the identity is found with the new definition.
\<close>
theorem upsert_correct:
  assumes "catalog_wf c"
  shows "let (ok, c') = upsert c d; i = linear_find c (pd_id d) in
     catalog_wf c' \<and>
     ok = (i < cat_count c \<or> cat_count c < kMaxPoints) \<and>
     rows c' =
       (if i < cat_count c
        then (rows c)[i := (d, cat_command_states c i, classifyPlcPointMeta d, cat_states c i)]
        else if cat_count c < kMaxPoints then rows c @ [fresh_row d] else rows c) \<and>
     (ok \<longrightarrow> find_definition c' (pd_id d) = Some d)"
proof -
  have i: "linear_find c (pd_id d) = lookupIndex c (pd_id d)"
    using assms by (simp add: catalog_wf_def lookupIndex_eq_linear)
  have "fst (upsert c d) = (lookupIndex c (pd_id d) < cat_count c \<or> cat_count c < kMaxPoints)"
    by (auto simp: upsert_def Let_def)
  with upsert_wf [OF assms, of d] upsert_rows [of c d] upsert_find [OF assms, of d]
  show ?thesis by (simp add: i Let_def case_prod_unfold)
qed

lemma upsert_correct_witness:
  "let c = sample_catalog; d = sample_point ''devA'' ''f1'' ''q'';
       (ok, c') = upsert c d; i = linear_find c (pd_id d) in
     catalog_wf c' \<and>
     ok = (i < cat_count c \<or> cat_count c < kMaxPoints) \<and>
     rows c' =
       (if i < cat_count c
        then (rows c)[i := (d, cat_command_states c i, classifyPlcPointMeta d, cat_states c i)]
        else if cat_count c < kMaxPoints then rows c @ [fresh_row d] else rows c) \<and>
     (ok \<longrightarrow> find_definition c' (pd_id d) = Some d)"
  using upsert_correct [OF sample_catalog_wf, of "sample_point ''devA'' ''f1'' ''q''"]
  by (simp add: Let_def)

text \<open>
  C24: \<open>remove\<close> preserves the catalog invariant, deletes exactly the row a linear search
  finds, with its states, keeps the order of the others, and reports whether there was one.
\<close>
theorem remove_correct:
  assumes "catalog_wf c"
  shows "let (ok, c') = remove c pid; i = linear_find c pid in
     catalog_wf c' \<and> ok = (i < cat_count c) \<and>
     rows c' = (if ok then take i (rows c) @ drop (Suc i) (rows c) else rows c)"
proof -
  have i: "linear_find c pid = lookupIndex c pid"
    using assms by (simp add: catalog_wf_def lookupIndex_eq_linear)
  have "fst (remove c pid) = (lookupIndex c pid < cat_count c)"
    by (auto simp: remove_def Let_def)
  with remove_wf [OF assms, of pid] remove_rows [of c pid]
  show ?thesis by (simp add: i Let_def case_prod_unfold)
qed

lemma remove_correct_witness:
  "let c = sample_catalog; (ok, c') = remove c (pd_id (sample_point ''devA'' ''f1'' ''p''));
       i = linear_find c (pd_id (sample_point ''devA'' ''f1'' ''p'')) in
     catalog_wf c' \<and> ok = (i < cat_count c) \<and>
     rows c' = (if ok then take i (rows c) @ drop (Suc i) (rows c) else rows c)"
  using remove_correct [OF sample_catalog_wf, of "pd_id (sample_point ''devA'' ''f1'' ''p'')"]
  by (simp add: Let_def)

text \<open>
  C2: \<open>replaceSlotVariableDefinitions\<close>, with its in-place compaction and \<open>memmove\<close>,
  replaces the variable rows of one slot: it refuses when the result would not fit, does
  nothing when the definitions are unchanged, and otherwise the rows are the others in
  their order with the new ones inserted before the first row of a later slot. The
  catalog invariant is preserved on every branch.
\<close>
theorem replace_correct:
  assumes "catalog_wf c"
  shows "let (ok, changed, c') = replaceSlotVariableDefinitions c slot (Some ds);
             keep = kept_rows slot (rows c) in
     catalog_wf c' \<and>
     ok = (length keep + length ds \<le> kMaxPoints) \<and>
     changed = (ok \<and> \<not> same_layout (variable_rows slot (rows c)) ds) \<and>
     rows c' = (if changed then insert_rows slot (map fresh_row ds) keep else rows c)"
proof -
  have "catalog_wf (snd (snd (replaceSlotVariableDefinitions c slot (Some ds))))"
    by (rule replace_wf [OF assms])
  then show ?thesis
    by (auto simp: replaceSlotVariableDefinitions_eq Let_def replace_prepared_rows)
qed

lemma replace_correct_witness:
  "let c = sample_catalog; ds = [sample_point ''devA'' ''plc.slot3'' ''x''];
       (ok, changed, c') = replaceSlotVariableDefinitions c 3 (Some ds);
       keep = kept_rows 3 (rows c) in
     catalog_wf c' \<and>
     ok = (length keep + length ds \<le> kMaxPoints) \<and>
     changed = (ok \<and> \<not> same_layout (variable_rows 3 (rows c)) ds) \<and>
     rows c' = (if changed then insert_rows 3 (map fresh_row ds) keep else rows c)"
  using replace_correct [OF sample_catalog_wf, of 3 "[sample_point ''devA'' ''plc.slot3'' ''x'']"]
  by (simp add: Let_def)

section \<open>Delivery of state changes\<close>

definition synced_catalog :: point_catalog where
  "synced_catalog = acknowledgeRuntimeFullSync sample_catalog"

lemma synced_catalog_wf:
  "catalog_wf synced_catalog" "\<not> full_sync_required synced_catalog" "dirty_list synced_catalog = []"
proof -
  have "catalog_ok synced_catalog = catalog_ok sample_catalog"
    by (rule catalog_ok_cong) (simp_all add: synced_catalog_def acknowledgeRuntimeFullSync_def)
  then show "catalog_wf synced_catalog"
    using sample_catalog_wf dirty_ok_acknowledge [of sample_catalog]
    by (auto simp: catalog_wf_def meta_ok_def synced_catalog_def acknowledgeRuntimeFullSync_def)
  show "\<not> full_sync_required synced_catalog"
    by (simp add: synced_catalog_def acknowledgeRuntimeFullSync_def)
  have "full_sync_required sample_catalog"
    by (simp add: sample_catalog_def upsert_def Let_def commit_definitions_fields kMaxPoints_def
        clear_def resetIndex_def resetDirtyStateTracking_def)
  then have "dirty_count sample_catalog = 0"
    using sample_catalog_wf by (simp add: catalog_wf_def dirty_ok_def)
  then have "dirty_count synced_catalog = 0"
    by (simp add: synced_catalog_def acknowledgeRuntimeFullSync_def)
  then show "dirty_list synced_catalog = []"
    by (simp flip: length_0_conv)
qed

text \<open>
  C3: After any sequence of notifications for existing rows, draining the dirty queue
  delivers the rows queued before and then every notified row exactly once, in the order
  of the first notification; nothing is dropped and the queue cannot overflow, so that a
  notification never latches the full sync. While a full sync is latched (a new or edited
  catalog, until it is acknowledged) the notifications change nothing and nothing is
  delivered.
\<close>
theorem dirty_delivery:
  assumes wf: "catalog_wf c" and xs: "\<forall>i\<in>set xs. i < cat_count c"
  shows "let c' = fold (\<lambda>i c. markStateDirty c i) xs c;
             (delivered, c'') = drain popDirtyStateIndex kMaxPoints c'
         in if full_sync_required c then c' = c \<and> delivered = [] \<and> c'' = c
            else delivered = add_new (dirty_list c) xs \<and> dirty_list c'' = [] \<and>
                 \<not> full_sync_required c' \<and> dirty_ok c''"
proof (cases "full_sync_required c")
  case True
  then have "fold (\<lambda>i c. markStateDirty c i) xs c = c"
    by (induction xs) (simp_all add: markStateDirty_frame)
  moreover have "popDirtyStateIndex c = None"
    using wf True
    by (simp add: catalog_wf_def dirty_ok_def popDirtyStateIndex_def peekDirtyStateIndex_def)
  then have "drain popDirtyStateIndex n c = ([], c)" for n by (cases n) simp_all
  ultimately show ?thesis using True by simp
next
  case False
  let ?c' = "fold (\<lambda>i c. markStateDirty c i) xs c"
  have "dirty_ok c \<and> \<not> full_sync_required c" using wf False by (simp add: catalog_wf_def)
  from dirty_nq.put_all [OF this, of xs] xs
  have c': "dirty_ok ?c'" "\<not> full_sync_required ?c'" "dirty_list ?c' = add_new (dirty_list c) xs"
    by simp_all
  have "length (dirty_list ?c') \<le> kMaxPoints"
    using c'(1) by (simp add: dirty_ok_def)
  from dirty_nq.drain_contents [OF _ this] c'
  show ?thesis by (simp add: Let_def case_prod_unfold False)
qed

lemma dirty_delivery_witness:
  "let c' = fold (\<lambda>i c. markStateDirty c i) [1, 0, 1] synced_catalog;
       (delivered, c'') = drain popDirtyStateIndex kMaxPoints c'
   in delivered = add_new (dirty_list synced_catalog) [1, 0, 1] \<and> dirty_list c'' = [] \<and>
      \<not> full_sync_required c' \<and> dirty_ok c''"
proof -
  have "\<forall>i\<in>set [1, 0, 1]. i < cat_count synced_catalog"
    by (simp add: synced_catalog_def acknowledgeRuntimeFullSync_def sample_catalog_rows)
  from dirty_delivery [OF synced_catalog_wf(1) this] synced_catalog_wf(2)
  show ?thesis by (simp add: Let_def case_prod_unfold)
qed

text \<open>
  C25: \<open>updateState\<close> fails exactly for an unknown identity; otherwise it stores the state,
  and queues the row exactly when the payload changed, the row was not queued and no full
  sync is latched.
\<close>
theorem updateState_correct:
  assumes "catalog_wf c"
  shows "let (ok, c') = updateState c pid st; i = linear_find c pid in
     catalog_wf c' \<and> ok = (i < cat_count c) \<and>
     cat_states c' = (if ok then (cat_states c)(i := st) else cat_states c) \<and>
     dirty_list c' =
       (if ok \<and> \<not> point_state_payload_equal (value_type (cat_entries c i)) (cat_states c i) st \<and>
           \<not> full_sync_required c \<and> i \<notin> set (dirty_list c)
        then dirty_list c @ [i] else dirty_list c)"
proof -
  let ?i = "lookupIndex c pid"
  let ?c = "c\<lparr>cat_states := (cat_states c)(?i := st)\<rparr>"
  have i: "linear_find c pid = ?i"
    using assms by (simp add: catalog_wf_def lookupIndex_eq_linear)
  have d: "dirty_ok ?c" "dirty_list ?c = dirty_list c"
    using assms dirty_ok_cong [of ?c c] by (simp_all add: catalog_wf_def)
  have latch: "full_sync_required c \<Longrightarrow> dirty_list c = []"
    using assms by (simp add: catalog_wf_def dirty_ok_def dirty_list_def)
  have "let (ok, c') = updateState c pid st in ok = (?i < cat_count c) \<and>
     cat_states c' = (if ok then (cat_states c)(?i := st) else cat_states c) \<and>
     dirty_list c' =
       (if ok \<and> \<not> point_state_payload_equal (value_type (cat_entries c ?i)) (cat_states c ?i) st \<and>
           \<not> full_sync_required c \<and> ?i \<notin> set (dirty_list c)
        then dirty_list c @ [?i] else dirty_list c)"
    using latch
    by (auto simp: Let_def updateState_def markStateDirty_frame d
        dirty_list_markStateDirty [OF d(1)])
  with updateState_wf [OF assms, of pid st] show ?thesis
    by (simp add: i Let_def case_prod_unfold)
qed

lemma updateState_correct_witness:
  "let (ok, c') = updateState synced_catalog empty_identity empty_state;
       i = linear_find synced_catalog empty_identity in
     catalog_wf c' \<and> ok = (i < cat_count synced_catalog) \<and>
     cat_states c' = (if ok then (cat_states synced_catalog)(i := empty_state)
                      else cat_states synced_catalog) \<and>
     dirty_list c' =
       (if ok \<and> \<not> point_state_payload_equal (value_type (cat_entries synced_catalog i))
                   (cat_states synced_catalog i) empty_state \<and>
           \<not> full_sync_required synced_catalog \<and> i \<notin> set (dirty_list synced_catalog)
        then dirty_list synced_catalog @ [i] else dirty_list synced_catalog)"
  by (rule updateState_correct [OF synced_catalog_wf(1)])

end
