(* ===== verification/MemWords.thy ===== *)
theory MemWords
  imports Prelude
begin

text \<open>
  Word-sized accesses to byte-addressed memory: \<open>write_words\<close> is a run of 32-bit stores,
  as the firmware writes its shared structures, with what a later 32-bit or 16-bit read
  sees and what the run leaves alone.
\<close>

fun write_words :: "mem \<Rightarrow> u32 \<Rightarrow> u32 list \<Rightarrow> mem" where
  "write_words m a [] = m"
| "write_words m a (w # ws) = write_words (mem_write m a (le32 w)) (a + 4) ws"

definition words_bytes :: "u32 list \<Rightarrow> u8 list" where
  "words_bytes ws = concat (map le32 ws)"

lemma length_words_bytes [simp]: "length (words_bytes ws) = 4 * length ws"
  unfolding words_bytes_def by (induction ws) simp_all

lemma mem_write_append:
  assumes "length xs + length ys \<le> 4294967296"
  shows "mem_write (mem_write m a xs) (a + of_nat (length xs)) ys = mem_write m a (xs @ ys)"
proof
  fix x
  let ?d = "unat (x - a)" and ?n = "length xs"
  have lt: "?d < 4294967296" using unat_u32_lt [of "x - a"] .
  show "mem_write (mem_write m a xs) (a + of_nat ?n) ys x = mem_write m a (xs @ ys) x"
  proof (cases "ys = []")
    case True
    then show ?thesis by simp
  next
    case False
    then have n: "?n < 4294967296" using assms by (cases ys) auto
    then have un: "unat (of_nat ?n :: u32) = ?n" by (rule unat_u32_of_nat)
    have sub: "x - (a + of_nat ?n) = (x - a) - of_nat ?n" by simp
    show ?thesis
    proof (cases "?d < ?n")
      case True
      then have "unat ((x - a) - of_nat ?n) = ?d + 4294967296 - ?n"
        using un lt by (simp add: unat_sub_if')
      then have "length ys \<le> unat (x - (a + of_nat ?n))"
        unfolding sub using assms by linarith
      with True show ?thesis
        by (simp add: mem_write_def nth_append)
    next
      case False
      then have "unat ((x - a) - of_nat ?n) = ?d - ?n"
        using un by (simp add: unat_sub_if')
      then show ?thesis
        unfolding mem_write_def sub using False by (auto simp: nth_append)
    qed
  qed
qed

lemma write_words_bytes:
  "4 * length ws \<le> 4294967296 \<Longrightarrow> write_words m a ws = mem_write m a (words_bytes ws)"
proof (induction ws arbitrary: m a)
  case Nil
  then show ?case by (simp add: words_bytes_def)
next
  case (Cons w ws)
  then have "write_words m a (w # ws) =
      mem_write (mem_write m a (le32 w)) (a + of_nat (length (le32 w))) (words_bytes ws)"
    by simp
  also have "\<dots> = mem_write m a (le32 w @ words_bytes ws)"
    using Cons.prems by (intro mem_write_append) simp
  finally show ?case by (simp add: words_bytes_def)
qed

lemma rd32_at_mem_read:
  "rd32_at m a = rd32 (mem_read m a 4 ! 0) (mem_read m a 4 ! 1) (mem_read m a 4 ! 2)
     (mem_read m a 4 ! 3)"
  by (simp add: rd32_at_def)

lemma rd16_at_mem_read: "rd16_at m a = rd16 (mem_read m a 2 ! 0) (mem_read m a 2 ! 1)"
  by (simp add: rd16_at_def)

lemma words_bytes_nth:
  "k < length ws \<Longrightarrow> j < 4 \<Longrightarrow> words_bytes ws ! (4 * k + j) = le32 (ws ! k) ! j"
proof (induction ws arbitrary: k)
  case Nil
  then show ?case by simp
next
  case (Cons w ws)
  show ?case
  proof (cases k)
    case 0
    with Cons.prems show ?thesis by (simp add: words_bytes_def nth_append)
  next
    case (Suc l)
    with Cons show ?thesis by (simp add: words_bytes_def nth_append)
  qed
qed

lemma write_words_byte:
  assumes "4 * length ws \<le> 4294967296" and "k < length ws" and "j < 4"
  shows "write_words m a ws (a + of_nat (4 * k) + of_nat j) = le32 (ws ! k) ! j"
proof -
  have "4 * k + j < 4 * length ws" using assms(2,3) by simp
  then have "mem_write m a (words_bytes ws) (a + of_nat (4 * k + j)) =
      words_bytes ws ! (4 * k + j)"
    using assms(1) by (intro mem_write_inside) simp_all
  then show ?thesis
    using assms by (simp only: write_words_bytes words_bytes_nth of_nat_add add.assoc)
qed

lemma rd32_write_words:
  assumes "4 * length ws \<le> 4294967296" and "k < length ws"
  shows "rd32_at (write_words m a ws) (a + of_nat (4 * k)) = ws ! k"
  using write_words_byte [OF assms, of 0 m a] write_words_byte [OF assms, of 1 m a]
    write_words_byte [OF assms, of 2 m a] write_words_byte [OF assms, of 3 m a]
  by (simp add: rd32_at_def le32_def)

lemma write_words_apart [mem_frame]:
  assumes "apart a n b (4 * length ws)" and "4 * length ws \<le> 4294967296"
  shows "mem_read (write_words m b ws) a n = mem_read m a n"
  using assms by (simp add: write_words_bytes mem_read_write_apart)

lemma write_words_outside [mem_frame]:
  "4 * length ws \<le> 4294967296 \<Longrightarrow> 4 * length ws \<le> unat (x - a) \<Longrightarrow> write_words m a ws x = m x"
  by (simp add: write_words_bytes mem_write_outside)

text \<open>The memory region \<open>[a, a + n)\<close>, without wrap.\<close>

definition in_region :: "u32 \<Rightarrow> nat \<Rightarrow> u32 \<Rightarrow> bool" where
  "in_region a n x = (unat a \<le> unat x \<and> unat x < unat a + n)"

lemma outside_region:
  assumes "\<not> in_region a n x" and "unat a + n \<le> 4294967296"
  shows "n \<le> unat (x - a)"
proof (cases "a \<le> x")
  case True
  then have "unat (x - a) = unat x - unat a" by (rule unat_sub_ge)
  with assms True show ?thesis by (simp add: in_region_def word_le_nat_alt)
next
  case False
  then have "unat (x - a) = unat x + 4294967296 - unat a"
    by (simp add: unat_sub_if' word_le_nat_alt)
  with assms(2) show ?thesis by linarith
qed

section \<open>Writes inside a region\<close>

text \<open>Two memories that agree outside the \<open>n\<close> bytes from \<open>a\<close> on.\<close>

definition agrees :: "u32 \<Rightarrow> nat \<Rightarrow> mem \<Rightarrow> mem \<Rightarrow> bool" where
  "agrees a n m m' = (\<forall>x. n \<le> unat (x - a) \<longrightarrow> m' x = m x)"

lemma agrees_refl [simp]: "agrees a n m m"
  by (simp add: agrees_def)

lemma agrees_trans: "agrees a n m m' \<Longrightarrow> agrees a n m' m'' \<Longrightarrow> agrees a n m m''"
  by (simp add: agrees_def)

lemma agrees_read:
  assumes "agrees b k m m'" and "apart a n b k"
  shows "mem_read m' a n = mem_read m a n"
  by (rule nth_equalityI) (use assms apart_outside in \<open>auto simp: agrees_def\<close>)

lemma agrees_write:
  assumes "i + length bs \<le> n" and "n < 4294967296"
  shows "agrees a n m (mem_write m (a + of_nat i) bs)"
  unfolding agrees_def
proof (intro allI impI)
  fix x assume far: "n \<le> unat (x - a)"
  have i: "unat (of_nat i :: u32) = i" using assms by (intro unat_u32_of_nat) simp
  have "unat (x - a - of_nat i) = unat (x - a) - i"
    using far assms(1) i by (simp add: unat_sub_if')
  then have "length bs \<le> unat (x - (a + of_nat i))"
    using far assms(1) by (simp add: diff_diff_eq)
  then show "mem_write m (a + of_nat i) bs x = m x" by (rule mem_write_outside)
qed

lemma apart_sub:
  assumes "apart a n b k" and "i + j \<le> n" and "0 < j"
  shows "apart (a + of_nat i) j b k"
proof -
  have "unat (a + of_nat i) = unat a + i"
    using assms by (intro unat_add_of_nat) (simp add: apart_def)
  with assms show ?thesis by (auto simp: apart_def)
qed

definition patch_bytes :: "nat \<Rightarrow> u8 list \<Rightarrow> u8 list \<Rightarrow> u8 list" where
  "patch_bytes off bs xs = take off xs @ bs @ drop (off + length bs) xs"

lemma mem_read_write_inside:
  assumes "off + length bs \<le> n" and "n \<le> 4294967296"
  shows "mem_read (mem_write m (a + of_nat off) bs) a n = patch_bytes off bs (mem_read m a n)"
proof (rule nth_equalityI)
  show "length (mem_read (mem_write m (a + of_nat off) bs) a n) =
      length (patch_bytes off bs (mem_read m a n))"
    using assms by (simp add: patch_bytes_def)
  fix i assume "i < length (mem_read (mem_write m (a + of_nat off) bs) a n)"
  then have i: "i < n" by simp
  have u: "unat (of_nat i :: u32) = i" using i assms(2) by (intro unat_u32_of_nat) simp
  have d: "a + of_nat i - (a + of_nat off) = (of_nat i - of_nat off :: u32)" by simp
  show "mem_read (mem_write m (a + of_nat off) bs) a n ! i =
      patch_bytes off bs (mem_read m a n) ! i"
  proof (cases "bs = []")
    case True
    then show ?thesis using i by (simp add: patch_bytes_def)
  next
    case False
    then have off: "unat (of_nat off :: u32) = off"
      using assms by (intro unat_u32_of_nat) (cases bs; simp)
    show ?thesis
    proof (cases "off \<le> i")
      case True
      then have "unat (of_nat i - of_nat off :: u32) = i - off"
        using u off by (simp add: unat_sub_if')
      then show ?thesis
        using True i assms by (auto simp: mem_write_def d patch_bytes_def nth_append)
    next
      case less: False
      then have "unat (of_nat i - of_nat off :: u32) = i + 4294967296 - off"
        using u off by (simp add: unat_sub_if')
      then have "\<not> unat (of_nat i - of_nat off :: u32) < length bs"
        using assms by linarith
      then show ?thesis
        using less i assms by (simp add: mem_write_def d patch_bytes_def nth_append)
    qed
  qed
qed

end
