(* ===== verification/RuntimeAbi.thy ===== *)
theory RuntimeAbi
  imports CatalogProps MemWords
begin

text \<open>
  The runtime ABI publisher (\<open>plc_runtime_abi.h\<close>): the tables the bytecode engine reads
  from SDRAM (a header and one descriptor per catalog row), the change detection by hash,
  and the resolution of link requests against the catalog.
\<close>

section \<open>The memory map\<close>

definition SDRAM_BASE :: u32 where [layout_defs]: "SDRAM_BASE = 0x20000000"
definition SDRAM_SIZE :: u32 where [layout_defs]: "SDRAM_SIZE = 0x800000"

definition SDRAM_POINT_STATE_WINDOW_SIZE :: u32 where
  [layout_defs]: "SDRAM_POINT_STATE_WINDOW_SIZE = 0x20000"

definition SDRAM_POINT_STATE_BASE :: u32 where
  [layout_defs]: "SDRAM_POINT_STATE_BASE =
     SDRAM_BASE + SDRAM_SIZE - SDRAM_POINT_STATE_WINDOW_SIZE"

definition kPlcRuntimeAbiV1Magic :: u32 where "kPlcRuntimeAbiV1Magic = 0x31564D50"
definition kPlcRuntimeAbiV1Version :: u16 where "kPlcRuntimeAbiV1Version = 1"

definition kPlcRuntimeHeaderAddr :: u32 where
  [layout_defs]: "kPlcRuntimeHeaderAddr = SDRAM_BASE + 0x00100000"

definition kPlcRuntimeDescriptorBase :: u32 where
  [layout_defs]: "kPlcRuntimeDescriptorBase = SDRAM_BASE + 0x00100100"

definition kPlcRuntimeDescriptorWindowSize :: u32 where
  [layout_defs]: "kPlcRuntimeDescriptorWindowSize = 0x00010000"

definition kPlcSharedPointStateBase :: u32 where
  [layout_defs]: "kPlcSharedPointStateBase = SDRAM_POINT_STATE_BASE"

text \<open>\<open>sizeof(PointState)\<close> and \<open>offsetof(PointState, quality)\<close>.\<close>

definition kPlcSharedPointStateStride :: u32 where
  [layout_defs]: "kPlcSharedPointStateStride = 80"

definition kPlcSharedPointStateQualityOffset :: u32 where
  [layout_defs]: "kPlcSharedPointStateQualityOffset = 68"

section \<open>Descriptors\<close>

record plc_descriptor =
  d_index :: u16
  d_type :: u8
  d_flags :: u8
  d_value_offset :: u32
  d_quality_offset :: u32
  d_reserved0 :: u32
  d_reserved1 :: u32

record plc_runtime_header =
  h_magic :: u32
  h_version :: u16
  h_flags :: u16
  h_count :: u32
  h_descriptor_base :: u32
  h_point_state_base :: u32
  h_stride :: u32
  h_epoch :: u32

definition kPlcRuntimeTypeInvalid :: u8 where "kPlcRuntimeTypeInvalid = 0"

fun mapValueType :: "point_value_type \<Rightarrow> u8" where
  "mapValueType TyBool = 1"
| "mapValueType TyUint16 = 2"
| "mapValueType TyInt16 = 3"
| "mapValueType TyUint32 = 4"
| "mapValueType TyInt32 = 5"
| "mapValueType TyFloat = 6"
| "mapValueType TyEnum = 3"
| "mapValueType TyString = kPlcRuntimeTypeInvalid"
| "mapValueType (TyRaw _) = kPlcRuntimeTypeInvalid"

definition isSupported :: "point_value_type \<Rightarrow> bool" where
  "isSupported ty = (mapValueType ty \<noteq> kPlcRuntimeTypeInvalid)"

definition isDynamicSlotVariablePoint :: "point_definition \<Rightarrow> bool" where
  "isDynamicSlotVariablePoint d =
     (if \<not> starts_with (feature (pd_id d)) slot_prefix then False
      else (case drop 8 (cstr (feature (pd_id d))) of
              [] \<Rightarrow> False
            | ch # cs \<Rightarrow>
                if \<not> is_ascii_digit ch then False
                else if dropWhile is_ascii_digit (ch # cs) \<noteq> [] then False
                else if list_ex (\<lambda>r. strcmp_eq (point_id (pd_id d)) (lit r)) reserved_point_ids
                then False
                else cstr (point_id (pd_id d)) \<noteq> []))"

definition shouldPublishDefinition :: "point_definition \<Rightarrow> bool" where
  "shouldPublishDefinition d =
     (if \<not> isSupported (value_type d) then False
      else let feat = feature (pd_id d) in
        \<not> (strcmp_eq feat (lit ''core'') \<or> strcmp_eq feat (lit ''modbus0'') \<or>
           strcmp_eq feat (lit ''plc'') \<or>
           (starts_with feat slot_prefix \<and> \<not> isDynamicSlotVariablePoint d)))"

definition flag_readable :: u8 where "flag_readable = 1"
definition flag_writable :: u8 where "flag_writable = 2"
definition flag_input :: u8 where "flag_input = 4"
definition flag_output :: u8 where "flag_output = 8"
definition flag_internal :: u8 where "flag_internal = 16"
definition flag_float :: u8 where "flag_float = 32"
definition flag_shared :: u8 where "flag_shared = 64"

definition or_if :: "bool \<Rightarrow> u8 \<Rightarrow> u8 \<Rightarrow> u8" where
  "or_if b f flags = (if b then flags OR f else flags)"

definition mapFlags :: "point_definition \<Rightarrow> u8" where
  "mapFlags d =
     or_if (value_type d \<in> {TyBool, TyUint16, TyInt16, TyUint32, TyInt32, TyEnum}) flag_shared
       (or_if (value_type d = TyFloat) flag_float
         (or_if (backend d = BackendLocal) flag_internal
           (or_if (direction d = DirInOut) (flag_input OR flag_output)
             (or_if (direction d = DirOutput) flag_output
               (or_if (direction d = DirInput) flag_input
                 (or_if (isDynamicSlotVariablePoint d \<or> direction d = DirOutput \<or>
                         direction d = DirInOut) flag_writable
                   flag_readable))))))"

datatype link_access = LinkRead | LinkWrite | LinkReadWrite | LinkAccessRaw u8

datatype link_status =
  LinkResolved | LinkNotFound | LinkUnsupportedPointType | LinkTypeMismatch | LinkAccessDenied

definition accessAllowed :: "u8 \<Rightarrow> link_access \<Rightarrow> bool" where
  "accessAllowed flags acc =
     (let readable = flags AND flag_readable \<noteq> 0; writable = flags AND flag_writable \<noteq> 0
      in case acc of LinkRead \<Rightarrow> readable | LinkWrite \<Rightarrow> writable
         | LinkReadWrite \<Rightarrow> readable \<and> writable | LinkAccessRaw _ \<Rightarrow> False)"

definition sharedPointStateRecordOffset :: "nat \<Rightarrow> u32" where
  "sharedPointStateRecordOffset i = of_nat i * kPlcSharedPointStateStride"

section \<open>The publisher\<close>

record publisher =
  pub_ready :: bool
  header_written :: bool
  published_count :: u16
  skipped_count :: u16
  definition_hash :: u32
  store_epoch :: u32

definition kInvalidPointStateIndex :: u16 where "kInvalidPointStateIndex = 0xFFFF"

definition new_publisher :: publisher where
  "new_publisher =
     \<lparr>pub_ready = False, header_written = False, published_count = 0, skipped_count = 0,
      definition_hash = 0, store_epoch = 0\<rparr>"

definition regionAvailable :: bool where
  "regionAvailable =
     (kPlcSharedPointStateBase + kPlcSharedPointStateStride * of_nat kMaxPoints
      \<le> SDRAM_BASE + SDRAM_SIZE)"

definition publisher_begin :: "publisher \<Rightarrow> bool \<times> publisher" where
  "publisher_begin p =
     (regionAvailable,
      p\<lparr>pub_ready := regionAvailable, header_written := False, published_count := 0,
        skipped_count := 0, definition_hash := 0, store_epoch := 0\<rparr>)"

definition pointStateIndexForCatalogIndex :: "publisher \<Rightarrow> nat \<Rightarrow> u16" where
  "pointStateIndexForCatalogIndex p i =
     (if \<not> pub_ready p \<or> i \<ge> kMaxPoints then kInvalidPointStateIndex else of_nat i)"

definition pointStateIndexForIdentity :: "publisher \<Rightarrow> point_catalog \<Rightarrow> point_identity \<Rightarrow> u16" where
  "pointStateIndexForIdentity p c pid =
     (let i = findIndex c pid in
      if i \<ge> cat_count c then kInvalidPointStateIndex else pointStateIndexForCatalogIndex p i)"

definition pointStateValueOffsetForCatalogIndex :: "publisher \<Rightarrow> nat \<Rightarrow> u32" where
  "pointStateValueOffsetForCatalogIndex p i =
     (if \<not> pub_ready p \<or> i \<ge> kMaxPoints then 0 else sharedPointStateRecordOffset i)"

record resolve_result =
  rr_found :: bool
  rr_published :: bool
  rr_index :: u16

definition resolvePoint :: "publisher \<Rightarrow> point_catalog \<Rightarrow> point_identity \<Rightarrow> resolve_result" where
  "resolvePoint p c pid =
     (let i = findIndex c pid in
      if i \<ge> cat_count c
      then \<lparr>rr_found = False, rr_published = False, rr_index = kInvalidPointStateIndex\<rparr>
      else (let idx = pointStateIndexForCatalogIndex p i
            in \<lparr>rr_found = True, rr_published = (idx \<noteq> kInvalidPointStateIndex),
                rr_index = idx\<rparr>))"

record link_request =
  rq_point :: point_identity
  rq_type :: point_value_type
  rq_access :: link_access

record link_result =
  lr_status :: link_status
  lr_index :: u16
  lr_value_offset :: u32
  lr_type :: u8
  lr_flags :: u8

definition resolveLinkRequest :: "publisher \<Rightarrow> point_catalog \<Rightarrow> link_request \<Rightarrow> link_result" where
  "resolveLinkRequest p c rq =
     (let i = findIndex c (rq_point rq) in
      if i \<ge> cat_count c
      then \<lparr>lr_status = LinkNotFound, lr_index = kInvalidPointStateIndex,
            lr_value_offset = 0, lr_type = kPlcRuntimeTypeInvalid, lr_flags = 0\<rparr>
      else
        (let d = cat_entries c i; actual_type = mapValueType (value_type d) in
         if actual_type = kPlcRuntimeTypeInvalid
         then \<lparr>lr_status = LinkUnsupportedPointType, lr_index = kInvalidPointStateIndex,
               lr_value_offset = 0, lr_type = kPlcRuntimeTypeInvalid, lr_flags = 0\<rparr>
         else
           (let expected_type = mapValueType (rq_type rq); flags = mapFlags d;
                failed = (\<lambda>st. \<lparr>lr_status = st, lr_index = kInvalidPointStateIndex,
                               lr_value_offset = 0, lr_type = actual_type, lr_flags = flags\<rparr>)
            in if expected_type = kPlcRuntimeTypeInvalid \<or> expected_type \<noteq> actual_type
               then failed LinkTypeMismatch
               else if \<not> accessAllowed flags (rq_access rq) then failed LinkAccessDenied
               else
                 (let idx = pointStateIndexForCatalogIndex p i
                  in if idx = kInvalidPointStateIndex then failed LinkUnsupportedPointType
                     else \<lparr>lr_status = LinkResolved, lr_index = idx,
                           lr_value_offset = pointStateValueOffsetForCatalogIndex p i,
                           lr_type = actual_type, lr_flags = flags\<rparr>))))"

definition hash_definition :: "u32 \<Rightarrow> point_definition \<Rightarrow> u32" where
  "hash_definition h d =
     fnv1a (fnv1a (fnv1a (fnv1a (fnv1a (fnv1a h (device_id (pd_id d))) (feature (pd_id d)))
       (point_id (pd_id d))) [backend_raw (backend d)]) [direction_raw (direction d)])
       [value_type_raw (value_type d)]"

definition hashCatalogDefinitions :: "point_catalog \<Rightarrow> u32" where
  "hashCatalogDefinitions c =
     fold (\<lambda>i h. hash_definition h (cat_entries c i)) [0..<cat_count c] 2166136261"

definition writeDescriptor :: "mem \<Rightarrow> u32 \<Rightarrow> plc_descriptor \<Rightarrow> mem" where
  "writeDescriptor m dst d =
     write_words m dst
       [ucast (d_index d) OR push_bit 16 (ucast (d_type d)) OR push_bit 24 (ucast (d_flags d)),
        d_value_offset d, d_quality_offset d, d_reserved0 d, d_reserved1 d]"

definition writeHeaderFields :: "mem \<Rightarrow> u32 \<Rightarrow> plc_runtime_header \<Rightarrow> mem" where
  "writeHeaderFields m dst h =
     write_words m dst
       [h_magic h, ucast (h_version h) OR push_bit 16 (ucast (h_flags h)), h_count h,
        h_descriptor_base h, h_point_state_base h, h_stride h, h_epoch h]"

definition descriptor_addr :: "nat \<Rightarrow> u32" where
  "descriptor_addr i = kPlcRuntimeDescriptorBase + of_nat (20 * i)"

definition descriptor_of :: "point_catalog \<Rightarrow> nat \<Rightarrow> plc_descriptor" where
  "descriptor_of c i =
     \<lparr>d_index = of_nat i, d_type = mapValueType (value_type (cat_entries c i)),
      d_flags = mapFlags (cat_entries c i),
      d_value_offset = sharedPointStateRecordOffset i,
      d_quality_offset = sharedPointStateRecordOffset i + kPlcSharedPointStateQualityOffset,
      d_reserved0 = 0, d_reserved1 = 0\<rparr>"

definition rebuildDescriptors ::
  "publisher \<Rightarrow> mem \<Rightarrow> point_catalog \<Rightarrow> publisher \<times> mem" where
  "rebuildDescriptors p m c =
     (let n = (if cat_count c > kMaxPoints then kMaxPoints else cat_count c)
      in (p\<lparr>published_count := of_nat n, skipped_count := 0\<rparr>,
          fold (\<lambda>i m. writeDescriptor m (descriptor_addr i) (descriptor_of c i)) [0..<n] m))"

definition headerSnapshot :: "publisher \<Rightarrow> plc_runtime_header" where
  "headerSnapshot p =
     \<lparr>h_magic = kPlcRuntimeAbiV1Magic, h_version = kPlcRuntimeAbiV1Version, h_flags = 0,
      h_count = ucast (published_count p), h_descriptor_base = kPlcRuntimeDescriptorBase,
      h_point_state_base = kPlcSharedPointStateBase, h_stride = kPlcSharedPointStateStride,
      h_epoch = store_epoch p\<rparr>"

definition writeHeader :: "publisher \<Rightarrow> mem \<Rightarrow> mem" where
  "writeHeader p m = writeHeaderFields m kPlcRuntimeHeaderAddr (headerSnapshot p)"

definition publish ::
  "publisher \<Rightarrow> mem \<Rightarrow> point_catalog \<Rightarrow> bool \<times> publisher \<times> mem" where
  "publish p m c =
     (if \<not> pub_ready p then (False, p, m)
      else
        (let next_hash = hashCatalogDefinitions c;
             (p1, m1) =
               (if \<not> header_written p \<or> next_hash \<noteq> definition_hash p
                then (let (p', m') = rebuildDescriptors p m c
                      in (p'\<lparr>definition_hash := next_hash, store_epoch := store_epoch p' + 1,
                             header_written := True\<rparr>, m'))
                else (p, m))
         in (True, p1, writeHeader p1 m1)))"

definition publishIfDue ::
  "publisher \<Rightarrow> mem \<Rightarrow> point_catalog \<Rightarrow> bool \<times> publisher \<times> mem" where
  "publishIfDue p m c = publish p m c"

section \<open>What the engine reads\<close>

definition read_descriptor :: "mem \<Rightarrow> u32 \<Rightarrow> plc_descriptor" where
  "read_descriptor m a =
     \<lparr>d_index = rd16_at m a, d_type = m (a + 2), d_flags = m (a + 3),
      d_value_offset = rd32_at m (a + 4), d_quality_offset = rd32_at m (a + 8),
      d_reserved0 = rd32_at m (a + 12), d_reserved1 = rd32_at m (a + 16)\<rparr>"

definition read_header :: "mem \<Rightarrow> u32 \<Rightarrow> plc_runtime_header" where
  "read_header m a =
     \<lparr>h_magic = rd32_at m a, h_version = rd16_at m (a + 4), h_flags = rd16_at m (a + 6),
      h_count = rd32_at m (a + 8), h_descriptor_base = rd32_at m (a + 12),
      h_point_state_base = rd32_at m (a + 16), h_stride = rd32_at m (a + 20),
      h_epoch = rd32_at m (a + 24)\<rparr>"

lemma pack_index_type_flags:
  fixes i :: u16 and t f :: u8
  defines "w \<equiv> (ucast i OR push_bit 16 (ucast t) OR push_bit 24 (ucast f) :: u32)"
  shows "rd16 (ucast w) (ucast (drop_bit 8 w)) = i"
    and "ucast (drop_bit 16 w) = t" and "ucast (drop_bit 24 w) = f"
  unfolding w_def rd16_def
  by (rule bit_word_eqI; auto simp: bit_simps dest: bit_imp_le_length)+

lemma pack_halves:
  fixes v f :: u16
  defines "w \<equiv> (ucast v OR push_bit 16 (ucast f) :: u32)"
  shows "rd16 (ucast w) (ucast (drop_bit 8 w)) = v"
    and "rd16 (ucast (drop_bit 16 w)) (ucast (drop_bit 24 w)) = f"
  unfolding w_def rd16_def
  by (rule bit_word_eqI; auto simp: bit_simps dest: bit_imp_le_length)+

lemma read_writeDescriptor [simp]: "read_descriptor (writeDescriptor m a d) a = d"
proof -
  let ?w = "ucast (d_index d) OR push_bit 16 (ucast (d_type d)) OR
            push_bit 24 (ucast (d_flags d)) :: u32"
  let ?ws = "[?w, d_value_offset d, d_quality_offset d, d_reserved0 d, d_reserved1 d]"
  note bytes = write_words_byte [of ?ws 0 0 m a] write_words_byte [of ?ws 0 1 m a]
    write_words_byte [of ?ws 0 2 m a] write_words_byte [of ?ws 0 3 m a]
  note words = rd32_write_words [of ?ws 1 m a] rd32_write_words [of ?ws 2 m a]
    rd32_write_words [of ?ws 3 m a] rd32_write_words [of ?ws 4 m a]
  show ?thesis
    using bytes words pack_index_type_flags [of "d_index d" "d_type d" "d_flags d"]
    unfolding read_descriptor_def writeDescriptor_def rd16_at_def
    by (simp add: le32_def del: write_words.simps)
qed

lemma read_writeHeaderFields [simp]: "read_header (writeHeaderFields m a h) a = h"
proof -
  let ?ws = "[h_magic h, ucast (h_version h) OR push_bit 16 (ucast (h_flags h)), h_count h,
        h_descriptor_base h, h_point_state_base h, h_stride h, h_epoch h]"
  note bytes = write_words_byte [of ?ws 1 0 m a] write_words_byte [of ?ws 1 1 m a]
    write_words_byte [of ?ws 1 2 m a] write_words_byte [of ?ws 1 3 m a]
  note words = rd32_write_words [of ?ws 0 m a] rd32_write_words [of ?ws 2 m a]
    rd32_write_words [of ?ws 3 m a] rd32_write_words [of ?ws 4 m a]
    rd32_write_words [of ?ws 5 m a] rd32_write_words [of ?ws 6 m a]
  have b6: "write_words m a ?ws (a + 6) = ucast (drop_bit 16 (?ws ! 1))"
    using write_words_byte [of ?ws 1 2 m a] by (simp add: le32_def add.commute [of 6] del: write_words.simps)
  show ?thesis
    using b6 bytes words pack_halves [of "h_version h" "h_flags h"]
    unfolding read_header_def writeHeaderFields_def rd16_at_def
    by (simp add: le32_def del: write_words.simps)
qed

lemma rd32_at_cong: "mem_read m a 4 = mem_read m' a 4 \<Longrightarrow> rd32_at m a = rd32_at m' a"
  by (simp add: rd32_at_mem_read)

lemma rd16_at_cong: "mem_read m a 2 = mem_read m' a 2 \<Longrightarrow> rd16_at m a = rd16_at m' a"
  by (simp add: rd16_at_mem_read)

lemma mem_read_nth_cong: "mem_read m a n = mem_read m' a n \<Longrightarrow> i < n \<Longrightarrow> m (a + of_nat i) = m' (a + of_nat i)"
  by (metis nth_mem_read)

lemma read_descriptor_cong:
  assumes "mem_read m a 20 = mem_read m' a 20"
  shows "read_descriptor m a = read_descriptor m' a"
proof -
  have r: "rd32_at m (a + of_nat i) = rd32_at m' (a + of_nat i)" if "i + 4 \<le> 20" for i
    by (rule rd32_at_cong) (rule mem_read_sub [OF assms that])
  have h: "rd16_at m (a + of_nat 0) = rd16_at m' (a + of_nat 0)"
    by (rule rd16_at_cong) (rule mem_read_sub [OF assms], simp)
  show ?thesis
    using r [of 4] r [of 8] r [of 12] r [of 16] h
      mem_read_nth_cong [OF assms, of 2] mem_read_nth_cong [OF assms, of 3]
    by (simp add: read_descriptor_def)
qed

lemma read_header_cong:
  assumes "mem_read m a 28 = mem_read m' a 28"
  shows "read_header m a = read_header m' a"
proof -
  have r: "rd32_at m (a + of_nat i) = rd32_at m' (a + of_nat i)" if "i + 4 \<le> 28" for i
    by (rule rd32_at_cong) (rule mem_read_sub [OF assms that])
  have h: "rd16_at m (a + of_nat i) = rd16_at m' (a + of_nat i)" if "i + 2 \<le> 28" for i
    by (rule rd16_at_cong) (rule mem_read_sub [OF assms that])
  show ?thesis
    using r [of 0] r [of 8] r [of 12] r [of 16] r [of 20] r [of 24] h [of 4] h [of 6]
    by (simp add: read_header_def)
qed

section \<open>The descriptor table\<close>

lemma descriptor_addr_unat: "i \<le> kMaxPoints \<Longrightarrow> unat (descriptor_addr i) = 0x20100100 + 20 * i"
proof -
  assume "i \<le> kMaxPoints"
  then have i: "i \<le> 1024" by (simp add: kMaxPoints_def)
  have b: "kPlcRuntimeDescriptorBase = 0x20100100" by (simp add: layout_defs)
  show ?thesis
    unfolding descriptor_addr_def b using i by (subst unat_add_of_nat) simp_all
qed

lemma writeDescriptor_frame:
  "apart a n b 20 \<Longrightarrow> mem_read (writeDescriptor m b d) a n = mem_read m a n"
  unfolding writeDescriptor_def by (rule write_words_apart) simp_all

lemma writeHeaderFields_frame:
  "apart a n b 28 \<Longrightarrow> mem_read (writeHeaderFields m b h) a n = mem_read m a n"
  unfolding writeHeaderFields_def by (rule write_words_apart) simp_all

lemma descriptor_addr_apart:
  "i \<noteq> j \<Longrightarrow> i < kMaxPoints \<Longrightarrow> j < kMaxPoints \<Longrightarrow> apart (descriptor_addr i) 20 (descriptor_addr j) 20"
  by (auto simp: apart_def descriptor_addr_unat kMaxPoints_def)

lemma descriptor_header_apart:
  "i < kMaxPoints \<Longrightarrow> apart (descriptor_addr i) 20 kPlcRuntimeHeaderAddr 28"
  by (simp add: apart_def descriptor_addr_unat kMaxPoints_def) (simp add: layout_defs)

lemma descriptor_table_readback:
  assumes "n \<le> kMaxPoints" and "j < n"
  shows "read_descriptor (fold (\<lambda>i m. writeDescriptor m (descriptor_addr i) (descriptor_of c i))
           [0..<n] m) (descriptor_addr j) = descriptor_of c j"
  using assms
proof (induction n)
  case 0
  then show ?case by simp
next
  case (Suc n)
  show ?case
  proof (cases "j = n")
    case True
    then show ?thesis by simp
  next
    case False
    with Suc.prems have "apart (descriptor_addr j) 20 (descriptor_addr n) 20"
      by (intro descriptor_addr_apart) simp_all
    with Suc False show ?thesis
      using read_descriptor_cong [OF writeDescriptor_frame] by simp
  qed
qed

lemma descriptor_table_frame:
  assumes "n \<le> kMaxPoints" and "\<not> in_region kPlcRuntimeDescriptorBase (20 * n) x"
  shows "fold (\<lambda>i m. writeDescriptor m (descriptor_addr i) (descriptor_of c i)) [0..<n] m x = m x"
  using assms
proof (induction n)
  case 0
  then show ?case by simp
next
  case (Suc n)
  have b: "unat kPlcRuntimeDescriptorBase = 0x20100100" by (simp add: layout_defs)
  have da: "unat (descriptor_addr n) = 0x20100100 + 20 * n"
    using Suc.prems(1) by (intro descriptor_addr_unat) simp
  then have "\<not> in_region (descriptor_addr n) 20 x"
    using Suc.prems by (auto simp: in_region_def b)
  then have "20 \<le> unat (x - descriptor_addr n)"
    using da Suc.prems(1) by (intro outside_region) (simp_all add: kMaxPoints_def)
  moreover have "\<not> in_region kPlcRuntimeDescriptorBase (20 * n) x"
    using Suc.prems(2) by (auto simp: in_region_def)
  ultimately show ?case
    using Suc by (simp add: writeDescriptor_def write_words_outside del: write_words.simps)
qed

section \<open>The published tables\<close>

definition published_ok :: "publisher \<Rightarrow> mem \<Rightarrow> point_catalog \<Rightarrow> bool" where
  "published_ok p m c \<longleftrightarrow>
     header_written p \<and> definition_hash p = hashCatalogDefinitions c \<and>
     published_count p = of_nat (cat_count c) \<and>
     read_header m kPlcRuntimeHeaderAddr = headerSnapshot p \<and>
     (\<forall>i<cat_count c. read_descriptor m (descriptor_addr i) = descriptor_of c i)"

text \<open>Writing back what is there changes nothing.\<close>

lemma mem_write_same:
  assumes "mem_read m a (length bs) = bs" "length bs \<le> 4294967296"
  shows "mem_write m a bs = m"
proof
  fix x
  have "bs ! unat (x - a) = m x" if "unat (x - a) < length bs"
  proof -
    have "mem_read m a (length bs) ! unat (x - a) = m (a + of_nat (unat (x - a)))"
      using that by (rule nth_mem_read)
    then show ?thesis using assms(1) by simp
  qed
  then show "mem_write m a bs x = m x" by (simp add: mem_write_def)
qed

lemma write_words_same:
  assumes "4 * length ws \<le> 4294967296"
    and "\<And>k. k < length ws \<Longrightarrow> rd32_at m (a + of_nat (4 * k)) = ws ! k"
  shows "write_words m a ws = m"
  using assms
proof (induction ws arbitrary: a)
  case Nil
  then show ?case by simp
next
  case (Cons w ws)
  have w: "rd32_at m a = w" using Cons.prems(2) [of 0] by simp
  have "le32 (rd32_at m a) = mem_read m a 4"
    unfolding rd32_at_def le32_def mem_read_def
    by (simp add: upt_rec rd32_def) (intro conjI bit_word_eqI; auto simp: bit_simps dest: bit_imp_le_length)
  then have "mem_write m a (le32 w) = m"
    using w by (intro mem_write_same) simp_all
  moreover have "write_words m (a + 4) ws = m"
  proof (rule Cons.IH)
    fix k assume "k < length ws"
    then show "rd32_at m (a + 4 + of_nat (4 * k)) = ws ! k"
      using Cons.prems(2) [of "Suc k"] by (simp add: add.assoc)
  qed (use Cons.prems in simp)
  ultimately show ?case by simp
qed

lemma rd32_two_halves:
  "rd32_at m a = ucast (rd16_at m a) OR push_bit 16 (ucast (rd16_at m (a + 2)))"
proof (rule bit_word_eqI)
  fix n assume "n < LENGTH(32)"
  then consider "n < 8" | "8 \<le> n" "n < 16" | "16 \<le> n" "n < 24" | "24 \<le> n" "n < 32"
    by fastforce
  then show "bit (rd32_at m a) n =
      bit (ucast (rd16_at m a) OR push_bit 16 (ucast (rd16_at m (a + 2))) :: u32) n"
    by cases (auto simp: rd32_at_def rd16_at_def rd32_def rd16_def bit_simps add.assoc
        dest: bit_imp_le_length)
qed

lemma writeHeaderFields_same:
  assumes "read_header m a = h"
  shows "writeHeaderFields m a h = m"
  unfolding writeHeaderFields_def
proof (rule write_words_same)
  fix k
  assume "k < length [h_magic h, ucast (h_version h) OR push_bit 16 (ucast (h_flags h)), h_count h,
      h_descriptor_base h, h_point_state_base h, h_stride h, h_epoch h]"
  then have "k < 7" by simp
  then show "rd32_at m (a + of_nat (4 * k)) =
     [h_magic h, ucast (h_version h) OR push_bit 16 (ucast (h_flags h)), h_count h,
      h_descriptor_base h, h_point_state_base h, h_stride h, h_epoch h] ! k"
    unfolding assms [symmetric] read_header_def
    using rd32_two_halves [of m "a + 4"]
    by (auto simp: less_Suc_eq numeral_eq_Suc add.assoc)
qed simp

lemma publish_stale:
  assumes "pub_ready p" and "cat_count c \<le> kMaxPoints"
    and "\<not> header_written p \<or> hashCatalogDefinitions c \<noteq> definition_hash p"
  shows "let (ok, p', m') = publish p m c in
     ok \<and> published_ok p' m' c \<and> store_epoch p' = store_epoch p + 1 \<and>
     (\<forall>x. \<not> in_region kPlcRuntimeHeaderAddr 28 x \<longrightarrow>
          \<not> in_region kPlcRuntimeDescriptorBase (20 * cat_count c) x \<longrightarrow> m' x = m x)"
proof -
  define m1 where "m1 = fold (\<lambda>i m. writeDescriptor m (descriptor_addr i) (descriptor_of c i))
    [0..<cat_count c] m"
  define p1 where "p1 = p\<lparr>published_count := of_nat (cat_count c), skipped_count := 0,
    definition_hash := hashCatalogDefinitions c, store_epoch := store_epoch p + 1,
    header_written := True\<rparr>"
  have pub: "publish p m c = (True, p1, writeHeader p1 m1)"
    using assms by (auto simp: publish_def rebuildDescriptors_def Let_def p1_def m1_def)
  have desc: "read_descriptor (writeHeader p1 m1) (descriptor_addr i) = descriptor_of c i"
    if "i < cat_count c" for i
  proof -
    have "apart (descriptor_addr i) 20 kPlcRuntimeHeaderAddr 28"
      using that assms(2) by (intro descriptor_header_apart) simp
    then have "read_descriptor (writeHeader p1 m1) (descriptor_addr i) =
        read_descriptor m1 (descriptor_addr i)"
      unfolding writeHeader_def by (intro read_descriptor_cong writeHeaderFields_frame)
    then show ?thesis
      using descriptor_table_readback [OF assms(2) that] by (simp add: m1_def)
  qed
  have "published_ok p1 (writeHeader p1 m1) c"
    using desc by (simp add: published_ok_def writeHeader_def) (simp add: p1_def)
  moreover have "writeHeader p1 m1 x = m x"
    if "\<not> in_region kPlcRuntimeHeaderAddr 28 x"
      "\<not> in_region kPlcRuntimeDescriptorBase (20 * cat_count c) x" for x
  proof -
    have "28 \<le> unat (x - kPlcRuntimeHeaderAddr)"
      by (rule outside_region [OF that(1)]) (simp add: layout_defs)
    then have "writeHeader p1 m1 x = m1 x"
      by (simp add: writeHeader_def writeHeaderFields_def write_words_outside
          del: write_words.simps)
    also have "m1 x = m x"
      unfolding m1_def by (rule descriptor_table_frame [OF assms(2) that(2)])
    finally show ?thesis .
  qed
  ultimately show ?thesis by (simp add: pub) (simp add: p1_def)
qed

text \<open>
  C4: When the publisher is ready and its tables are stale, \<open>publish\<close> succeeds, advances
  the epoch, and leaves in SDRAM a header and one descriptor per catalog row that read
  back exactly; no byte outside the header and the descriptor table changes.
\<close>
theorem publish_readback:
  assumes "pub_ready p" and "cat_count c \<le> kMaxPoints"
    and "\<not> header_written p \<or> hashCatalogDefinitions c \<noteq> definition_hash p"
  shows "let (ok, p', m') = publish p m c in
     ok \<and> published_ok p' m' c \<and> store_epoch p' = store_epoch p + 1 \<and>
     (\<forall>x. \<not> in_region kPlcRuntimeHeaderAddr 28 x \<longrightarrow>
          \<not> in_region kPlcRuntimeDescriptorBase (20 * cat_count c) x \<longrightarrow> m' x = m x)"
  using assms by (rule publish_stale)

definition ready_publisher :: publisher where
  "ready_publisher = snd (publisher_begin new_publisher)"

lemma ready_publisher_ready: "pub_ready ready_publisher" "\<not> header_written ready_publisher"
  by (simp_all add: ready_publisher_def publisher_begin_def regionAvailable_def layout_defs
      kMaxPoints_def)

lemma sample_catalog_small: "cat_count sample_catalog \<le> kMaxPoints"
  by (simp add: sample_catalog_rows kMaxPoints_def)

lemma publish_readback_witness:
  "let (ok, p', m') = publish ready_publisher (\<lambda>_. 0) sample_catalog in
     ok \<and> published_ok p' m' sample_catalog \<and>
     store_epoch p' = store_epoch ready_publisher + 1 \<and>
     (\<forall>x. \<not> in_region kPlcRuntimeHeaderAddr 28 x \<longrightarrow>
          \<not> in_region kPlcRuntimeDescriptorBase (20 * cat_count sample_catalog) x \<longrightarrow>
          m' x = (\<lambda>_. 0) x)"
  by (rule publish_readback) (simp_all add: ready_publisher_ready sample_catalog_small)

lemma publish_unchanged:
  assumes "pub_ready p" and "published_ok p m c"
  shows "publish p m c = (True, p, m)"
  using assms writeHeaderFields_same [of m kPlcRuntimeHeaderAddr "headerSnapshot p"]
  by (auto simp: publish_def published_ok_def writeHeader_def)

text \<open>The tables a first publication leaves, for the witnesses.\<close>

definition published_sample :: "publisher \<times> mem" where
  "published_sample = snd (publish ready_publisher (\<lambda>_. 0) sample_catalog)"

lemma published_sample_ok:
  "pub_ready (fst published_sample)"
  "published_ok (fst published_sample) (snd published_sample) sample_catalog"
  using publish_stale [of ready_publisher sample_catalog "\<lambda>_. 0"]
    ready_publisher_ready sample_catalog_small
  by (auto simp: published_sample_def publish_def rebuildDescriptors_def Let_def
      split: prod.splits)

text \<open>
  C29: Publishing an unchanged catalog again is the identity on the publisher and on memory:
  the epoch does not advance and no byte changes.
\<close>
theorem publish_idempotent:
  assumes "pub_ready p" and "published_ok p m c"
  shows "publish p m c = (True, p, m)"
  using assms by (rule publish_unchanged)

lemma publish_idempotent_witness:
  "publish (fst published_sample) (snd published_sample) sample_catalog =
     (True, fst published_sample, snd published_sample)"
  by (rule publish_idempotent [OF published_sample_ok])

section \<open>Link requests\<close>

definition wants_write :: "link_access \<Rightarrow> bool" where
  "wants_write acc = (acc = LinkWrite \<or> acc = LinkReadWrite)"

definition pd_writable :: "point_definition \<Rightarrow> bool" where
  "pd_writable d =
     (isDynamicSlotVariablePoint d \<or> direction d = DirOutput \<or> direction d = DirInOut)"

lemma bit_or_if: "bit (or_if b f w) n = (bit w n \<or> (b \<and> bit f n))"
  by (simp add: or_if_def bit_simps)

lemma flag_bits:
  "bit flag_readable n = (n = 0)" "bit flag_writable n = (n = 1)" "bit flag_input n = (n = 2)"
  "bit flag_output n = (n = 3)" "bit flag_internal n = (n = 4)" "bit flag_float n = (n = 5)"
  "bit flag_shared n = (n = 6)"
proof -
  have p: "flag_readable = push_bit 0 1" "flag_writable = push_bit 1 1" "flag_input = push_bit 2 1"
    "flag_output = push_bit 3 1" "flag_internal = push_bit 4 1" "flag_float = push_bit 5 1"
    "flag_shared = push_bit 6 1"
    by (simp_all add: flag_readable_def flag_writable_def flag_input_def flag_output_def
        flag_internal_def flag_float_def flag_shared_def)
  show "bit flag_readable n = (n = 0)" "bit flag_writable n = (n = 1)" "bit flag_input n = (n = 2)"
    "bit flag_output n = (n = 3)" "bit flag_internal n = (n = 4)" "bit flag_float n = (n = 5)"
    "bit flag_shared n = (n = 6)"
    unfolding p by (auto simp: bit_simps simp del: push_bit_of_1)
qed

lemma and_flag: "(w AND flag_readable \<noteq> 0) = bit w 0" "(w AND flag_writable \<noteq> 0) = bit w 1"
proof -
  have f: "flag_readable = push_bit 0 1" "flag_writable = push_bit 1 1"
    by (simp_all add: flag_readable_def flag_writable_def)
  show "(w AND flag_readable \<noteq> 0) = bit w 0" "(w AND flag_writable \<noteq> 0) = bit w 1"
    unfolding f bit_iff_and_push_bit_not_eq_0 by simp_all
qed

lemma accessAllowed_mapFlags:
  "accessAllowed (mapFlags d) acc =
     (case acc of LinkRead \<Rightarrow> True | LinkWrite \<Rightarrow> pd_writable d
      | LinkReadWrite \<Rightarrow> pd_writable d | LinkAccessRaw _ \<Rightarrow> False)"
  by (cases acc) (auto simp: accessAllowed_def Let_def and_flag mapFlags_def bit_or_if flag_bits
      bit_or_iff pd_writable_def)

lemma of_nat_valid_index: "i < kMaxPoints \<Longrightarrow> (of_nat i :: u16) \<noteq> kInvalidPointStateIndex"
proof
  assume i: "i < kMaxPoints" and eq: "(of_nat i :: u16) = kInvalidPointStateIndex"
  have "unat (of_nat i :: u16) = i"
    using i by (intro unat_u16_of_nat) (simp add: kMaxPoints_def)
  with i eq show False by (simp add: kInvalidPointStateIndex_def kMaxPoints_def)
qed

text \<open>
  C28: A ready publisher resolves a link request exactly when the catalog holds the
  identity, its type has a runtime type equal to the requested one, and the access is a
  read, or the point is an output, an in-out or a slot variable.
\<close>
theorem link_resolved_iff:
  assumes "catalog_wf c" and "pub_ready p"
  shows "lr_status (resolveLinkRequest p c rq) = LinkResolved \<longleftrightarrow>
     (let i = linear_find c (rq_point rq); d = cat_entries c i in
      i < cat_count c \<and> isSupported (value_type d) \<and>
      mapValueType (rq_type rq) = mapValueType (value_type d) \<and>
      (rq_access rq = LinkRead \<or> wants_write (rq_access rq) \<and> pd_writable d))"
proof -
  have i: "findIndex c (rq_point rq) = linear_find c (rq_point rq)"
    using assms(1) by (simp add: findIndex_def catalog_wf_def lookupIndex_eq_linear)
  have idx: "i < cat_count c \<Longrightarrow> pointStateIndexForCatalogIndex p i \<noteq> kInvalidPointStateIndex" for i
    using catalog_wf_count [OF assms(1)] of_nat_valid_index [of i]
    by (simp add: pointStateIndexForCatalogIndex_def assms(2))
  show ?thesis
    unfolding resolveLinkRequest_def i
    using idx
    by (cases "rq_access rq")
      (auto simp: Let_def isSupported_def accessAllowed_mapFlags wants_write_def)
qed

lemma link_resolved_iff_witness:
  "lr_status (resolveLinkRequest ready_publisher sample_catalog
      \<lparr>rq_point = empty_identity, rq_type = TyBool, rq_access = LinkRead\<rparr>) = LinkResolved \<longleftrightarrow>
     (let i = linear_find sample_catalog empty_identity; d = cat_entries sample_catalog i in
      i < cat_count sample_catalog \<and> isSupported (value_type d) \<and>
      mapValueType TyBool = mapValueType (value_type d) \<and>
      (LinkRead = LinkRead \<or> wants_write LinkRead \<and> pd_writable d))"
  using link_resolved_iff [OF sample_catalog_wf ready_publisher_ready(1),
      of "\<lparr>rq_point = empty_identity, rq_type = TyBool, rq_access = LinkRead\<rparr>"]
  by simp

text \<open>
  C27: A resolved link agrees with the published descriptor of the point: the descriptor the
  engine reads at the returned index has the returned type, flags and value offset, the
  row at that index has the requested identity, and the whole point state lies inside the
  reserved SDRAM window.
\<close>
theorem link_matches_descriptor:
  assumes "catalog_wf c" and "pub_ready p" and "published_ok p m c"
    and "lr_status (resolveLinkRequest p c rq) = LinkResolved"
  shows "let r = resolveLinkRequest p c rq; i = unat (lr_index r);
             d = read_descriptor m (descriptor_addr i) in
     i < cat_count c \<and> identitiesEqual (entry_id c i) (rq_point rq) \<and>
     d_index d = lr_index r \<and> d_type d = lr_type r \<and> d_flags d = lr_flags r \<and>
     d_value_offset d = lr_value_offset r \<and>
     unat (lr_value_offset r) = 80 * i \<and>
     80 * i + 80 \<le> unat SDRAM_POINT_STATE_WINDOW_SIZE"
proof -
  let ?i = "findIndex c (rq_point rq)"
  have res: "?i < cat_count c \<and> resolveLinkRequest p c rq =
     \<lparr>lr_status = LinkResolved, lr_index = pointStateIndexForCatalogIndex p ?i,
      lr_value_offset = pointStateValueOffsetForCatalogIndex p ?i,
      lr_type = mapValueType (value_type (cat_entries c ?i)),
      lr_flags = mapFlags (cat_entries c ?i)\<rparr>"
    using assms(4) by (auto simp: resolveLinkRequest_def Let_def split: if_splits)
  then have i: "?i < kMaxPoints" using catalog_wf_count [OF assms(1)] by simp
  have u: "unat (of_nat ?i :: u16) = ?i"
    using i by (intro unat_u16_of_nat) (simp add: kMaxPoints_def)
  have off: "unat (sharedPointStateRecordOffset ?i) = 80 * ?i"
    using i by (simp add: sharedPointStateRecordOffset_def layout_defs kMaxPoints_def
        unat_word_ariths unat_of_nat)
  have "identitiesEqual (entry_id c ?i) (rq_point rq)"
    using res by (intro catalog_dir.sound) simp
  moreover have "read_descriptor m (descriptor_addr ?i) = descriptor_of c ?i"
    using assms(3) res by (simp add: published_ok_def)
  ultimately show ?thesis
    using res i assms(2)
    by (simp add: Let_def pointStateIndexForCatalogIndex_def
        pointStateValueOffsetForCatalogIndex_def u off descriptor_of_def)
      (simp add: layout_defs kMaxPoints_def)
qed

definition sample_request :: link_request where
  "sample_request =
     \<lparr>rq_point = pd_id (sample_point ''devB'' ''f1'' ''p''), rq_type = TyBool, rq_access = LinkRead\<rparr>"

lemma sample_request_resolved:
  "lr_status (resolveLinkRequest (fst published_sample) sample_catalog sample_request) = LinkResolved"
proof -
  have "linear_find sample_catalog (pd_id (sample_point ''devB'' ''f1'' ''p'')) = 1"
    using sample_catalog_rows by (simp add: linear_find_def numeral_2_eq_2)
  moreover have "cat_entries sample_catalog (Suc 0) = sample_point ''devB'' ''f1'' ''p''"
    using sample_catalog_rows by simp
  ultimately have "findIndex sample_catalog (rq_point sample_request) = 1"
    using sample_catalog_wf
    by (simp add: sample_request_def findIndex_def catalog_wf_def lookupIndex_eq_linear)
  then show ?thesis
    using sample_catalog_rows of_nat_valid_index [of 1]
    by (simp add: resolveLinkRequest_def Let_def sample_request_def sample_point_def
        empty_definition_def kPlcRuntimeTypeInvalid_def accessAllowed_mapFlags
        pointStateIndexForCatalogIndex_def published_sample_ok kMaxPoints_def)
qed

lemma link_matches_descriptor_witness:
  "let p = fst published_sample; r = resolveLinkRequest p sample_catalog sample_request;
       i = unat (lr_index r); d = read_descriptor (snd published_sample) (descriptor_addr i) in
     i < cat_count sample_catalog \<and>
     identitiesEqual (entry_id sample_catalog i) (rq_point sample_request) \<and>
     d_index d = lr_index r \<and> d_type d = lr_type r \<and> d_flags d = lr_flags r \<and>
     d_value_offset d = lr_value_offset r \<and>
     unat (lr_value_offset r) = 80 * i \<and>
     80 * i + 80 \<le> unat SDRAM_POINT_STATE_WINDOW_SIZE"
  using link_matches_descriptor [OF sample_catalog_wf published_sample_ok sample_request_resolved]
  by (simp add: Let_def)

end
