(* ===== verification/Linker.thy ===== *)
theory Linker
  imports RuntimeAbi
begin

text \<open>
  The object linker (\<open>plc_linker_v1.h\<close>): parsing of an object file in memory, and the
  link step that copies the code and patches every relocation with the point-state index
  or offset of its symbol. The object file and the linked code live in one byte-addressed
  memory; \<open>size_t\<close> is 32 bits wide and its sums wrap. A string field of a symbol record
  is read up to its first NUL or the end of the field, except the symbol name, whose
  reads run on into the rest of the record as they do in C.
\<close>

section \<open>Data\<close>

definition kPlcObjectFileMagicV1 :: u32 where "kPlcObjectFileMagicV1 = 0x314A424F"
definition kPlcObjectFileVersionV1 :: u16 where "kPlcObjectFileVersionV1 = 1"
definition kPlcSymbolSlotVar :: u8 where "kPlcSymbolSlotVar = 2"
definition kPlcRelocationPointStateIndexU16Le :: u8 where "kPlcRelocationPointStateIndexU16Le = 0"

definition kPlcRelocationPointStateValueOffsetU32Le :: u8 where
  "kPlcRelocationPointStateValueOffsetU32Le = 1"

definition object_header_size :: u32 where "object_header_size = 52"
definition symbol_record_size :: u32 where "symbol_record_size = 102"
definition relocation_record_size :: u32 where "relocation_record_size = 8"

datatype object_link_status =
  ObjLinkOk | ObjLinkInvalidArgument | ObjLinkOutputTooSmall | ObjLinkEntryOffsetOutOfRange
| ObjLinkSymbolIndexOutOfRange | ObjLinkRelocationOutOfRange | ObjLinkUnsupportedRelocationKind
| ObjLinkResolveFailed

datatype object_parse_status =
  ParseOk | ParseInvalidArgument | ParseHeaderOutOfRange | ParseBadMagic | ParseBadVersion
| ParseCodeOutOfRange | ParseEntryOffsetOutOfRange | ParseSymbolTableOutOfRange
| ParseRelocationTableOutOfRange

record object_header =
  oh_magic :: u32
  oh_version :: u16
  oh_abi_version :: u16
  oh_flags :: u32
  oh_total_size :: u32
  oh_code_size :: u32
  oh_entry_offset :: u32
  oh_symbol_count :: u16
  oh_relocation_count :: u16
  oh_symbol_table_offset :: u32
  oh_relocation_table_offset :: u32
  oh_max_instructions_per_scan :: u32
  oh_max_scan_time_us :: u32
  oh_runtime_header_addr :: u32
  oh_object_checksum :: u32

definition read_object_header :: "mem \<Rightarrow> u32 \<Rightarrow> object_header" where
  "read_object_header m a =
     \<lparr>oh_magic = rd32_at m a, oh_version = rd16_at m (a + 4), oh_abi_version = rd16_at m (a + 6),
      oh_flags = rd32_at m (a + 8), oh_total_size = rd32_at m (a + 12),
      oh_code_size = rd32_at m (a + 16), oh_entry_offset = rd32_at m (a + 20),
      oh_symbol_count = rd16_at m (a + 24), oh_relocation_count = rd16_at m (a + 26),
      oh_symbol_table_offset = rd32_at m (a + 28),
      oh_relocation_table_offset = rd32_at m (a + 32),
      oh_max_instructions_per_scan = rd32_at m (a + 36),
      oh_max_scan_time_us = rd32_at m (a + 40), oh_runtime_header_addr = rd32_at m (a + 44),
      oh_object_checksum = rd32_at m (a + 48)\<rparr>"

text \<open>A symbol record is its 102 bytes.\<close>

type_synonym symbol_record = "u8 list"

definition read_symbol :: "mem \<Rightarrow> u32 \<Rightarrow> symbol_record" where
  "read_symbol m a = mem_read m a 102"

definition sym_name :: "symbol_record \<Rightarrow> u8 list" where "sym_name s = s"
definition sym_kind :: "symbol_record \<Rightarrow> u8" where "sym_kind s = s ! 16"

definition sym_point_id :: "symbol_record \<Rightarrow> point_identity" where
  "sym_point_id s =
     \<lparr>device_id = take 16 (drop 18 s), feature = take 32 (drop 34 s),
      point_id = take 32 (drop 66 s)\<rparr>"

definition sym_expected_type :: "symbol_record \<Rightarrow> u8" where "sym_expected_type s = s ! 98"
definition sym_access :: "symbol_record \<Rightarrow> u8" where "sym_access s = s ! 99"

record relocation_record =
  rel_code_offset :: u32
  rel_symbol_index :: u16
  rel_kind :: u8

definition read_relocation :: "mem \<Rightarrow> u32 \<Rightarrow> relocation_record" where
  "read_relocation m a =
     \<lparr>rel_code_offset = rd32_at m a, rel_symbol_index = rd16_at m (a + 4), rel_kind = m (a + 6)\<rparr>"

text \<open>The pointers of an object image are addresses; the null pointer is 0.\<close>

record object_image =
  oi_code :: u32
  oi_code_size :: u32
  oi_entry_offset :: u32
  oi_symbols :: u32
  oi_symbol_count :: u16
  oi_relocations :: u32
  oi_relocation_count :: u16

definition empty_image :: object_image where
  "empty_image =
     \<lparr>oi_code = 0, oi_code_size = 0, oi_entry_offset = 0, oi_symbols = 0, oi_symbol_count = 0,
      oi_relocations = 0, oi_relocation_count = 0\<rparr>"

record object_link_result =
  ol_status :: object_link_status
  ol_resolve_status :: link_status
  ol_failing_symbol_index :: u16
  ol_failing_relocation_index :: u16
  ol_resolved_relocation_count :: u16
  ol_linked_code_size :: u32
  ol_entry_offset :: u32

definition link_access_of_raw :: "u8 \<Rightarrow> link_access" where
  "link_access_of_raw r =
     (if r = 0 then LinkRead else if r = 1 then LinkWrite else if r = 2 then LinkReadWrite
      else LinkAccessRaw r)"

section \<open>Parsing\<close>

definition checksum32 :: "mem \<Rightarrow> u32 \<Rightarrow> u32 \<Rightarrow> u32" where
  "checksum32 m a len =
     (if a = 0 then 2166136261 else fnv1a 2166136261 (mem_read m a (unat len)))"

text \<open>The status, and on success the header and the image.\<close>

definition parseObjectFile ::
  "mem \<Rightarrow> u32 \<Rightarrow> u32 \<Rightarrow> object_parse_status \<times> (object_header \<times> object_image) option" where
  "parseObjectFile m bytes file_size =
     (if bytes = 0 then (ParseInvalidArgument, None)
      else if file_size < object_header_size then (ParseHeaderOutOfRange, None)
      else
        (let h = read_object_header m bytes in
         if oh_magic h \<noteq> kPlcObjectFileMagicV1 then (ParseBadMagic, None)
         else if oh_version h \<noteq> kPlcObjectFileVersionV1 then (ParseBadVersion, None)
         else if oh_abi_version h \<noteq> kPlcRuntimeAbiV1Version then (ParseBadVersion, None)
         else if oh_total_size h < object_header_size \<or> oh_total_size h > file_size
         then (ParseHeaderOutOfRange, None)
         else if oh_entry_offset h > oh_code_size h then (ParseEntryOffsetOutOfRange, None)
         else if object_header_size + oh_code_size h > oh_total_size h
         then (ParseCodeOutOfRange, None)
         else if oh_symbol_table_offset h + ucast (oh_symbol_count h) * symbol_record_size
                 > oh_total_size h
         then (ParseSymbolTableOutOfRange, None)
         else if oh_relocation_table_offset h +
                 ucast (oh_relocation_count h) * relocation_record_size > oh_total_size h
         then (ParseRelocationTableOutOfRange, None)
         else if checksum32 m (bytes + object_header_size) (oh_total_size h - object_header_size)
                 \<noteq> oh_object_checksum h
         then (ParseBadMagic, None)
         else
           (ParseOk, Some (h,
              \<lparr>oi_code = bytes + object_header_size, oi_code_size = oh_code_size h,
               oi_entry_offset = oh_entry_offset h,
               oi_symbols = bytes + oh_symbol_table_offset h,
               oi_symbol_count = oh_symbol_count h,
               oi_relocations = bytes + oh_relocation_table_offset h,
               oi_relocation_count = oh_relocation_count h\<rparr>))))"

section \<open>Linking\<close>

definition relocationPatchSize :: "u8 \<Rightarrow> u32" where
  "relocationPatchSize kind =
     (if kind = kPlcRelocationPointStateIndexU16Le then 2
      else if kind = kPlcRelocationPointStateValueOffsetU32Le then 4 else 0)"

text \<open>The bytes a relocation writes.\<close>

definition relocation_bytes :: "u8 \<Rightarrow> u32 \<Rightarrow> u8 list" where
  "relocation_bytes kind v =
     (if kind = kPlcRelocationPointStateIndexU16Le
      then [ucast (v AND 0xFF), ucast (drop_bit 8 v AND 0xFF)]
      else if kind = kPlcRelocationPointStateValueOffsetU32Le
      then [ucast (v AND 0xFF), ucast (drop_bit 8 v AND 0xFF), ucast (drop_bit 16 v AND 0xFF),
            ucast (drop_bit 24 v AND 0xFF)]
      else [])"

definition applyRelocation :: "mem \<Rightarrow> u32 \<Rightarrow> u8 \<Rightarrow> u32 \<Rightarrow> mem" where
  "applyRelocation m dst kind v = mem_write m dst (relocation_bytes kind v)"

definition isSupportedSlotVariableType :: "u8 \<Rightarrow> bool" where
  "isSupportedSlotVariableType raw =
     (case value_type_of_raw raw of
        TyBool \<Rightarrow> True | TyUint16 \<Rightarrow> True | TyInt16 \<Rightarrow> True | TyUint32 \<Rightarrow> True
      | TyInt32 \<Rightarrow> True | TyFloat \<Rightarrow> True | TyEnum \<Rightarrow> True | TyString \<Rightarrow> False
      | TyRaw _ \<Rightarrow> False)"

text \<open>\<open>snprintf(feature, 32, "plc.slot%u", slot)\<close> into a zeroed buffer.\<close>

definition slot_feature_text :: "u16 \<Rightarrow> u8 list" where
  "slot_feature_text slot = lit ''plc.slot'' @ dec_digits (unat slot)"

definition buildSlotVariableIdentity ::
  "point_catalog \<Rightarrow> u16 \<Rightarrow> u8 list \<Rightarrow> point_identity option" where
  "buildSlotVariableIdentity c slot symbol_name =
     (if cat_count c = 0 \<or> cstr symbol_name = [] \<or> slot = 0xFFFF then None
      else
        (let text = slot_feature_text slot in
         if length text \<ge> 32 then None
         else
           (let feat = text @ replicate (32 - length text) 0;
                first = find (\<lambda>i. backend (cat_entries c i) = BackendLocal \<and>
                                  strcmp_eq (feature (pd_id (cat_entries c i))) feat)
                          [0..<cat_count c];
                dev = (case first of None \<Rightarrow> zbuf 16
                       | Some i \<Rightarrow> strncpy (zbuf 16) (device_id (pd_id (cat_entries c i))) 15);
                dev' = (if cstr dev \<noteq> [] then dev
                        else strncpy dev (device_id (pd_id (cat_entries c 0))) 15);
                pt = strncpy (zbuf 32) symbol_name 31
            in if cstr pt \<noteq> [] then Some \<lparr>device_id = dev', feature = feat, point_id = pt\<rparr>
               else None)))"

text \<open>The point identity a symbol stands for; \<open>None\<close> when the code returns false.\<close>

definition resolveSymbolRecord ::
  "point_catalog \<Rightarrow> u16 \<Rightarrow> symbol_record \<Rightarrow> point_identity option" where
  "resolveSymbolRecord c slot source =
     (if sym_kind source \<noteq> kPlcSymbolSlotVar then Some (sym_point_id source)
      else if \<not> isSupportedSlotVariableType (sym_expected_type source) then None
      else buildSlotVariableIdentity c slot (sym_name source))"

definition slot_link_failed :: "link_status \<Rightarrow> link_result" where
  "slot_link_failed st =
     \<lparr>lr_status = st, lr_index = kInvalidPointStateIndex, lr_value_offset = 0,
      lr_type = kPlcRuntimeTypeInvalid, lr_flags = 0\<rparr>"

definition resolveSlotVariableLink ::
  "publisher \<Rightarrow> point_catalog \<Rightarrow> point_identity \<Rightarrow> u8 \<Rightarrow> link_result" where
  "resolveSlotVariableLink p c pid expected_type =
     (let i = findIndex c pid in
      if i \<ge> cat_count c then slot_link_failed LinkNotFound
      else if value_type_raw (value_type (cat_entries c i)) \<noteq> expected_type
      then slot_link_failed LinkTypeMismatch
      else
        (let idx = pointStateIndexForCatalogIndex p i
         in if idx = kInvalidPointStateIndex then slot_link_failed LinkUnsupportedPointType
            else \<lparr>lr_status = LinkResolved, lr_index = idx,
                  lr_value_offset = pointStateValueOffsetForCatalogIndex p i,
                  lr_type = kPlcRuntimeTypeInvalid, lr_flags = 0\<rparr>))"

text \<open>The link result of a symbol, once its identity is known.\<close>

definition resolve_symbol ::
  "publisher \<Rightarrow> point_catalog \<Rightarrow> symbol_record \<Rightarrow> point_identity \<Rightarrow> link_result" where
  "resolve_symbol p c s pid =
     (if sym_kind s = kPlcSymbolSlotVar
      then resolveSlotVariableLink p c pid (sym_expected_type s)
      else resolveLinkRequest p c
             \<lparr>rq_point = pid, rq_type = value_type_of_raw (sym_expected_type s),
              rq_access = link_access_of_raw (sym_access s)\<rparr>)"

text \<open>
  One iteration of the relocation loop: the flag tells whether the loop goes on, otherwise
  the function has returned.
\<close>

definition link_relocation ::
  "publisher \<Rightarrow> point_catalog \<Rightarrow> object_image \<Rightarrow> u32 \<Rightarrow> u16 \<Rightarrow> nat \<Rightarrow>
   object_link_result \<Rightarrow> mem \<Rightarrow> bool \<times> object_link_result \<times> mem" where
  "link_relocation p c img out slot i r m =
     (let rel = read_relocation m (oi_relocations img + of_nat i * relocation_record_size);
          r1 = r\<lparr>ol_failing_relocation_index := of_nat i\<rparr>
      in if rel_symbol_index rel \<ge> oi_symbol_count img
         then (False, r1\<lparr>ol_status := ObjLinkSymbolIndexOutOfRange,
                         ol_failing_symbol_index := rel_symbol_index rel\<rparr>, m)
         else
           (let s = read_symbol m (oi_symbols img + ucast (rel_symbol_index rel) * symbol_record_size);
                patch_size = relocationPatchSize (rel_kind rel)
            in if patch_size = 0
               then (False, r1\<lparr>ol_status := ObjLinkUnsupportedRelocationKind\<rparr>, m)
               else if rel_code_offset rel + patch_size > oi_code_size img
               then (False, r1\<lparr>ol_status := ObjLinkRelocationOutOfRange\<rparr>, m)
               else
                 (case resolveSymbolRecord c slot s of
                    None \<Rightarrow> (False, r1\<lparr>ol_status := ObjLinkResolveFailed,
                                       ol_resolve_status := LinkUnsupportedPointType\<rparr>, m)
                  | Some pid \<Rightarrow>
                      (let r2 = r1\<lparr>ol_failing_symbol_index := rel_symbol_index rel\<rparr>;
                           lr = resolve_symbol p c s pid;
                           r3 = r2\<lparr>ol_resolve_status := lr_status lr\<rparr>
                       in if lr_status lr \<noteq> LinkResolved
                          then (False, r3\<lparr>ol_status := ObjLinkResolveFailed\<rparr>, m)
                          else
                            (True,
                             r3\<lparr>ol_resolved_relocation_count := ol_resolved_relocation_count r3 + 1\<rparr>,
                             applyRelocation m (out + rel_code_offset rel) (rel_kind rel)
                               (if rel_kind rel = kPlcRelocationPointStateIndexU16Le
                                then ucast (lr_index lr) else lr_value_offset lr))))))"

fun link_loop ::
  "publisher \<Rightarrow> point_catalog \<Rightarrow> object_image \<Rightarrow> u32 \<Rightarrow> u16 \<Rightarrow> nat list \<Rightarrow>
   object_link_result \<Rightarrow> mem \<Rightarrow> bool \<times> object_link_result \<times> mem" where
  "link_loop p c img out slot [] r m = (True, r, m)"
| "link_loop p c img out slot (i # is) r m =
     (case link_relocation p c img out slot i r m of
        (continues, r', m') \<Rightarrow>
          if continues then link_loop p c img out slot is r' m' else (False, r', m'))"

definition linkObjectImage ::
  "publisher \<Rightarrow> point_catalog \<Rightarrow> object_image \<Rightarrow> u32 \<Rightarrow> u32 \<Rightarrow> u16 \<Rightarrow> mem \<Rightarrow>
   object_link_result \<times> mem" where
  "linkObjectImage p c img out capacity slot m =
     (let r = \<lparr>ol_status = ObjLinkInvalidArgument, ol_resolve_status = LinkResolved,
               ol_failing_symbol_index = 0xFFFF, ol_failing_relocation_index = 0xFFFF,
               ol_resolved_relocation_count = 0, ol_linked_code_size = oi_code_size img,
               ol_entry_offset = oi_entry_offset img\<rparr>
      in if oi_code img = 0 \<or> out = 0 then (r, m)
         else if (oi_symbol_count img \<noteq> 0 \<and> oi_symbols img = 0) \<or>
                 (oi_relocation_count img \<noteq> 0 \<and> oi_relocations img = 0) then (r, m)
         else if oi_code_size img > capacity then (r\<lparr>ol_status := ObjLinkOutputTooSmall\<rparr>, m)
         else if oi_entry_offset img > oi_code_size img
         then (r\<lparr>ol_status := ObjLinkEntryOffsetOutOfRange\<rparr>, m)
         else
           (let m1 = mem_write m out (mem_read m (oi_code img) (unat (oi_code_size img)))
            in case link_loop p c img out slot [0..<unat (oi_relocation_count img)] r m1 of
                 (continues, r', m') \<Rightarrow>
                   if continues
                   then (r'\<lparr>ol_status := ObjLinkOk, ol_failing_symbol_index := 0xFFFF,
                            ol_failing_relocation_index := 0xFFFF\<rparr>, m')
                   else (r', m')))"

section \<open>What linking means\<close>

definition relocation_at :: "mem \<Rightarrow> object_image \<Rightarrow> nat \<Rightarrow> relocation_record" where
  "relocation_at m img i =
     read_relocation m (oi_relocations img + of_nat i * relocation_record_size)"

definition symbol_at :: "mem \<Rightarrow> object_image \<Rightarrow> u16 \<Rightarrow> symbol_record" where
  "symbol_at m img k = read_symbol m (oi_symbols img + ucast k * symbol_record_size)"

text \<open>
  The meaning of a relocation: the offset and the bytes of its patch, or the status the
  link ends with.
\<close>

definition relocation_patch ::
  "publisher \<Rightarrow> point_catalog \<Rightarrow> object_image \<Rightarrow> u16 \<Rightarrow> mem \<Rightarrow> nat \<Rightarrow>
   object_link_status + (nat \<times> u8 list)" where
  "relocation_patch p c img slot m i =
     (let rel = relocation_at m img i; s = symbol_at m img (rel_symbol_index rel) in
      if rel_symbol_index rel \<ge> oi_symbol_count img then Inl ObjLinkSymbolIndexOutOfRange
      else if relocationPatchSize (rel_kind rel) = 0 then Inl ObjLinkUnsupportedRelocationKind
      else if rel_code_offset rel + relocationPatchSize (rel_kind rel) > oi_code_size img
      then Inl ObjLinkRelocationOutOfRange
      else (case resolveSymbolRecord c slot s of
          None \<Rightarrow> Inl ObjLinkResolveFailed
        | Some pid \<Rightarrow>
            (let lr = resolve_symbol p c s pid in
             if lr_status lr \<noteq> LinkResolved then Inl ObjLinkResolveFailed
             else Inr (unat (rel_code_offset rel),
               if rel_kind rel = kPlcRelocationPointStateIndexU16Le then le16 (lr_index lr)
               else le32 (lr_value_offset lr)))))"

text \<open>The image of an object linked into \<open>out\<close>: no overlap, and no relocation offset near
  the end of the 32-bit range.\<close>

definition link_layout :: "mem \<Rightarrow> object_image \<Rightarrow> u32 \<Rightarrow> bool" where
  "link_layout m img out \<longleftrightarrow>
     apart (oi_relocations img) (8 * unat (oi_relocation_count img)) out
       (unat (oi_code_size img)) \<and>
     apart (oi_symbols img) (102 * unat (oi_symbol_count img)) out (unat (oi_code_size img)) \<and>
     (\<forall>i<unat (oi_relocation_count img).
        unat (rel_code_offset (relocation_at m img i)) + 4 < 4294967296)"

definition tables_agree :: "object_image \<Rightarrow> u32 \<Rightarrow> mem \<Rightarrow> mem \<Rightarrow> bool" where
  "tables_agree img out m m' = agrees out (unat (oi_code_size img)) m m'"

lemma ucast_byte: "ucast (x AND 0xFF :: u32) = (ucast x :: u8)"
proof -
  have m: "(0xFF :: u32) = mask 8" by (simp add: mask_eq_exp_minus_1)
  show ?thesis unfolding m by (rule bit_word_eqI) (simp add: bit_simps)
qed

lemma relocation_bytes_index:
  "relocation_bytes kPlcRelocationPointStateIndexU16Le (ucast (w :: u16)) = le16 w"
  unfolding relocation_bytes_def le16_def ucast_byte
  by (simp add: kPlcRelocationPointStateIndexU16Le_def)
    (intro conjI bit_word_eqI; auto simp: bit_simps)

lemma relocation_bytes_offset:
  "relocation_bytes kPlcRelocationPointStateValueOffsetU32Le w = le32 w"
  unfolding relocation_bytes_def le32_def ucast_byte
  by (simp add: kPlcRelocationPointStateIndexU16Le_def kPlcRelocationPointStateValueOffsetU32Le_def)

lemma relocation_kind_cases:
  assumes "relocationPatchSize kind \<noteq> 0"
  obtains "kind = kPlcRelocationPointStateIndexU16Le" "relocationPatchSize kind = 2"
  | "kind = kPlcRelocationPointStateValueOffsetU32Le" "relocationPatchSize kind = 4"
    "kind \<noteq> kPlcRelocationPointStateIndexU16Le"
  using assms
  by (auto simp: relocationPatchSize_def kPlcRelocationPointStateIndexU16Le_def
      kPlcRelocationPointStateValueOffsetU32Le_def split: if_splits)

lemma read_relocation_cong:
  assumes "mem_read m' a 8 = mem_read m a 8"
  shows "read_relocation m' a = read_relocation m a"
proof -
  have "rd32_at m' a = rd32_at m a"
    using mem_read_sub [OF assms, of 0 4] by (intro rd32_at_cong) simp
  moreover have "rd16_at m' (a + 4) = rd16_at m (a + 4)"
    using mem_read_sub [OF assms, of 4 2] by (intro rd16_at_cong) simp
  moreover have "m' (a + 6) = m (a + 6)"
    using mem_read_nth_cong [OF assms, of 6] by simp
  ultimately show ?thesis by (simp add: read_relocation_def)
qed

lemma relocation_at_agrees:
  assumes l: "link_layout m img out" and a: "tables_agree img out m m'"
    and i: "i < unat (oi_relocation_count img)"
  shows "relocation_at m' img i = relocation_at m img i"
proof -
  let ?a = "oi_relocations img + of_nat (8 * i)"
  have "apart ?a 8 out (unat (oi_code_size img))"
    by (rule apart_sub [where n = "8 * unat (oi_relocation_count img)"])
      (use l i in \<open>simp_all add: link_layout_def\<close>)
  then have r: "mem_read m' ?a 8 = mem_read m ?a 8"
    using a agrees_read unfolding tables_agree_def by blast
  have "oi_relocations img + of_nat i * relocation_record_size = ?a"
    by (simp add: relocation_record_size_def)
  with read_relocation_cong [OF r] show ?thesis by (simp only: relocation_at_def)
qed

lemma symbol_at_agrees:
  assumes l: "link_layout m img out" and a: "tables_agree img out m m'"
    and k: "k < oi_symbol_count img"
  shows "symbol_at m' img k = symbol_at m img k"
proof -
  let ?a = "oi_symbols img + of_nat (102 * unat k)"
  have "unat k < unat (oi_symbol_count img)" using k by (simp add: word_less_nat_alt)
  then have "apart ?a 102 out (unat (oi_code_size img))"
    by (intro apart_sub [where n = "102 * unat (oi_symbol_count img)"])
      (use l in \<open>simp_all add: link_layout_def\<close>)
  then have r: "mem_read m' ?a 102 = mem_read m ?a 102"
    using a agrees_read unfolding tables_agree_def by blast
  have "ucast k * symbol_record_size = (of_nat (102 * unat k) :: u32)"
    by (simp add: symbol_record_size_def)
  with r show ?thesis by (simp add: symbol_at_def read_symbol_def)
qed

lemma relocation_patch_agrees:
  assumes l: "link_layout m img out" and a: "tables_agree img out m m'"
    and i: "i < unat (oi_relocation_count img)"
  shows "relocation_patch p c img slot m' i = relocation_patch p c img slot m i"
proof (cases "rel_symbol_index (relocation_at m img i) < oi_symbol_count img")
  case True
  then show ?thesis
    unfolding relocation_patch_def relocation_at_agrees [OF l a i]
    by (simp add: symbol_at_agrees [OF l a])
next
  case False
  then show ?thesis
    unfolding relocation_patch_def relocation_at_agrees [OF l a i] by (simp add: Let_def not_less)
qed

text \<open>A patch lies inside the code.\<close>

lemma relocation_patch_inside:
  assumes nw: "unat (rel_code_offset (relocation_at m img i)) + 4 < 4294967296"
    and p: "relocation_patch p c img slot m i = Inr (off, bs)"
  shows "off + length bs \<le> unat (oi_code_size img)"
proof -
  let ?rel = "relocation_at m img i"
  have k: "relocationPatchSize (rel_kind ?rel) \<noteq> 0"
    and le: "rel_code_offset ?rel + relocationPatchSize (rel_kind ?rel) \<le> oi_code_size img"
    and off: "off = unat (rel_code_offset ?rel)"
    and bs: "length bs = (if rel_kind ?rel = kPlcRelocationPointStateIndexU16Le then 2 else 4)"
    using p by (auto simp: relocation_patch_def Let_def not_less split: if_splits option.splits)
  have "unat (rel_code_offset ?rel + relocationPatchSize (rel_kind ?rel)) = off + length bs"
    using k
  proof (cases rule: relocation_kind_cases)
    case 1
    then show ?thesis using nw off bs by (subst unat_add_no_wrap) simp_all
  next
    case 2
    then show ?thesis using nw off bs by (subst unat_add_no_wrap) simp_all
  qed
  then show ?thesis using le by (simp add: word_le_nat_alt)
qed

text \<open>One iteration of the loop, seen through \<open>relocation_patch\<close>.\<close>

lemma link_relocation_Inl:
  assumes "relocation_patch p c img slot m i = Inl st"
  shows "\<exists>r'. link_relocation p c img out slot i r m = (False, r', m) \<and>
     ol_status r' = st \<and> ol_failing_relocation_index r' = of_nat i"
  using assms
  by (auto simp: link_relocation_def relocation_patch_def relocation_at_def symbol_at_def Let_def
      split: if_splits option.splits)

lemma link_relocation_Inr:
  assumes "relocation_patch p c img slot m i = Inr (off, bs)"
  shows "\<exists>r'. link_relocation p c img out slot i r m =
       (True, r', mem_write m (out + of_nat off) bs) \<and>
     ol_resolved_relocation_count r' = ol_resolved_relocation_count r + 1"
proof -
  let ?rel = "relocation_at m img i"
  have "relocationPatchSize (rel_kind ?rel) \<noteq> 0"
    using assms by (auto simp: relocation_patch_def Let_def split: if_splits)
  then show ?thesis
  proof (cases rule: relocation_kind_cases)
    case 1
    then show ?thesis
      using assms relocation_bytes_index
      by (auto simp: link_relocation_def relocation_patch_def relocation_at_def symbol_at_def
          applyRelocation_def Let_def split: if_splits option.splits)
  next
    case 2
    then show ?thesis
      using assms relocation_bytes_offset
      by (auto simp: link_relocation_def relocation_patch_def relocation_at_def symbol_at_def
          applyRelocation_def Let_def split: if_splits option.splits)
  qed
qed

section \<open>The loop\<close>

definition patched :: "(nat \<times> u8 list) list \<Rightarrow> u8 list \<Rightarrow> u8 list" where
  "patched ps code = fold (\<lambda>(off, bs) xs. patch_bytes off bs xs) ps code"

lemma link_loop_ok:
  assumes l: "link_layout m img out" and idx: "\<forall>i\<in>set xs. i < unat (oi_relocation_count img)"
    and ps: "map (relocation_patch p c img slot m) xs = map Inr ps"
    and a: "tables_agree img out m m'"
  shows "\<exists>r' m''. link_loop p c img out slot xs r m' = (True, r', m'') \<and>
     ol_resolved_relocation_count r' = ol_resolved_relocation_count r + of_nat (length xs) \<and>
     tables_agree img out m m'' \<and>
     mem_read m'' out (unat (oi_code_size img)) =
       patched ps (mem_read m' out (unat (oi_code_size img)))"
  using idx ps a
proof (induction xs arbitrary: ps r m')
  case Nil
  then show ?case by (simp add: patched_def)
next
  case (Cons i xs)
  let ?n = "unat (oi_code_size img)"
  from Cons.prems obtain off bs ps' where ps: "ps = (off, bs) # ps'"
    and pi: "relocation_patch p c img slot m i = Inr (off, bs)"
    by (cases ps) auto
  have i: "i < unat (oi_relocation_count img)" using Cons.prems by simp
  have pi': "relocation_patch p c img slot m' i = Inr (off, bs)"
    using pi relocation_patch_agrees [OF l Cons.prems(3) i] by simp
  from link_relocation_Inr [OF this, of out r] obtain r1 where
    step: "link_relocation p c img out slot i r m' = (True, r1, mem_write m' (out + of_nat off) bs)"
    and cnt: "ol_resolved_relocation_count r1 = ol_resolved_relocation_count r + 1" by blast
  have inside: "off + length bs \<le> ?n"
    by (rule relocation_patch_inside [OF _ pi]) (use l i in \<open>simp add: link_layout_def\<close>)
  let ?m1 = "mem_write m' (out + of_nat off) bs"
  have "tables_agree img out m' ?m1"
    unfolding tables_agree_def by (rule agrees_write [OF inside unat_u32_lt])
  then have a1: "tables_agree img out m ?m1"
    using Cons.prems(3) agrees_trans unfolding tables_agree_def by blast
  have "mem_read ?m1 out ?n = patch_bytes off bs (mem_read m' out ?n)"
    by (rule mem_read_write_inside [OF inside]) (use unat_u32_lt in \<open>simp add: less_imp_le\<close>)
  moreover from Cons.prems ps have "map (relocation_patch p c img slot m) xs = map Inr ps'"
    and "\<forall>i\<in>set xs. i < unat (oi_relocation_count img)" by simp_all
  ultimately show ?case
    using Cons.IH [of ps' ?m1 r1] a1
    by (auto simp: step cnt ps patched_def add.assoc)
qed

lemma link_loop_failed:
  assumes l: "link_layout m img out"
    and idx: "\<forall>i\<in>set (xs @ [i]). i < unat (oi_relocation_count img)"
    and ps: "map (relocation_patch p c img slot m) xs = map Inr ps"
    and fl: "relocation_patch p c img slot m i = Inl st"
    and a: "tables_agree img out m m'"
  shows "\<exists>r' m''. link_loop p c img out slot (xs @ i # ys) r m' = (False, r', m'') \<and>
     ol_status r' = st \<and> ol_failing_relocation_index r' = of_nat i \<and>
     tables_agree img out m m''"
  using idx ps a
proof (induction xs arbitrary: ps r m')
  case Nil
  have i: "i < unat (oi_relocation_count img)" using Nil.prems by simp
  have "relocation_patch p c img slot m' i = Inl st"
    using fl relocation_patch_agrees [OF l Nil.prems(3) i] by simp
  from link_relocation_Inl [OF this, of out r] show ?case using Nil.prems by auto
next
  case (Cons j xs)
  from Cons.prems obtain off bs ps' where ps: "ps = (off, bs) # ps'"
    and pj: "relocation_patch p c img slot m j = Inr (off, bs)"
    by (cases ps) auto
  have j: "j < unat (oi_relocation_count img)" using Cons.prems by simp
  have "relocation_patch p c img slot m' j = Inr (off, bs)"
    using pj relocation_patch_agrees [OF l Cons.prems(3) j] by simp
  from link_relocation_Inr [OF this, of out r] obtain r1 where
    step: "link_relocation p c img out slot j r m' = (True, r1, mem_write m' (out + of_nat off) bs)"
    by blast
  have inside: "off + length bs \<le> unat (oi_code_size img)"
    by (rule relocation_patch_inside [OF _ pj]) (use l j in \<open>simp add: link_layout_def\<close>)
  have "tables_agree img out m' (mem_write m' (out + of_nat off) bs)"
    unfolding tables_agree_def by (rule agrees_write [OF inside unat_u32_lt])
  then have a1: "tables_agree img out m (mem_write m' (out + of_nat off) bs)"
    using Cons.prems(3) agrees_trans unfolding tables_agree_def by blast
  with Cons.IH [of ps' "mem_write m' (out + of_nat off) bs" r1] Cons.prems ps step
  show ?case by simp
qed

lemma all_or_first_failure:
  fixes f :: "nat \<Rightarrow> 'e + 'v"
  obtains (ok) ps where "map f xs = map Inr ps"
  | (fail) ys i zs st ps where "xs = ys @ i # zs" "f i = Inl st" "map f ys = map Inr ps"
proof (induction xs arbitrary: thesis)
  case Nil
  then show ?case by simp
next
  case (Cons x xs)
  show ?case
  proof (cases "f x")
    case (Inl st)
    then show ?thesis by (intro Cons.prems(2) [of "[]" x xs st "[]"]) simp_all
  next
    case (Inr v)
    show ?thesis
    proof (rule Cons.IH)
      fix ps assume "map f xs = map Inr ps"
      with Inr show thesis by (intro Cons.prems(1) [of "v # ps"]) simp
    next
      fix ys i zs st ps
      assume "xs = ys @ i # zs" "f i = Inl st" "map f ys = map Inr ps"
      with Inr show thesis by (intro Cons.prems(2) [of "x # ys" i zs st "v # ps"]) simp_all
    qed
  qed
qed

definition link_arguments_ok :: "object_image \<Rightarrow> u32 \<Rightarrow> u32 \<Rightarrow> bool" where
  "link_arguments_ok img out capacity \<longleftrightarrow>
     oi_code img \<noteq> 0 \<and> out \<noteq> 0 \<and>
     (oi_symbol_count img \<noteq> 0 \<longrightarrow> oi_symbols img \<noteq> 0) \<and>
     (oi_relocation_count img \<noteq> 0 \<longrightarrow> oi_relocations img \<noteq> 0) \<and>
     oi_code_size img \<le> capacity \<and> oi_entry_offset img \<le> oi_code_size img"

definition link_start :: "object_image \<Rightarrow> object_link_result" where
  "link_start img =
     \<lparr>ol_status = ObjLinkInvalidArgument, ol_resolve_status = LinkResolved,
      ol_failing_symbol_index = 0xFFFF, ol_failing_relocation_index = 0xFFFF,
      ol_resolved_relocation_count = 0, ol_linked_code_size = oi_code_size img,
      ol_entry_offset = oi_entry_offset img\<rparr>"

lemma linkObjectImage_loop:
  assumes "link_arguments_ok img out capacity"
  shows "linkObjectImage p c img out capacity slot m =
    (let m1 = mem_write m out (mem_read m (oi_code img) (unat (oi_code_size img)))
     in case link_loop p c img out slot [0..<unat (oi_relocation_count img)] (link_start img) m1 of
          (continues, r', m') \<Rightarrow>
            if continues
            then (r'\<lparr>ol_status := ObjLinkOk, ol_failing_symbol_index := 0xFFFF,
                     ol_failing_relocation_index := 0xFFFF\<rparr>, m')
            else (r', m'))"
  using assms
  by (auto simp: linkObjectImage_def link_arguments_ok_def link_start_def Let_def)

lemma copied_code:
  assumes "link_layout m img out"
  defines "m1 \<equiv> mem_write m out (mem_read m (oi_code img) (unat (oi_code_size img)))"
  shows "tables_agree img out m m1"
    and "mem_read m1 out (unat (oi_code_size img)) =
         mem_read m (oi_code img) (unat (oi_code_size img))"
proof -
  show "tables_agree img out m m1"
    by (simp add: tables_agree_def agrees_def m1_def mem_write_outside)
  show "mem_read m1 out (unat (oi_code_size img)) =
      mem_read m (oi_code img) (unat (oi_code_size img))"
    using mem_read_write_same [of "mem_read m (oi_code img) (unat (oi_code_size img))" m out]
      unat_u32_lt [of "oi_code_size img"] by (simp add: m1_def)
qed

lemma relocation_patch_not_ok: "relocation_patch p c img slot m i \<noteq> Inl ObjLinkOk"
  by (auto simp: relocation_patch_def Let_def split: option.splits)

lemma linkObjectImage_spec:
  assumes args: "link_arguments_ok img out capacity" and l: "link_layout m img out"
  shows "let (r, m') = linkObjectImage p c img out capacity slot m;
             n = unat (oi_code_size img);
             patches = map (relocation_patch p c img slot m) [0..<unat (oi_relocation_count img)]
         in agrees out n m m' \<and>
            (ol_status r = ObjLinkOk \<longleftrightarrow> (\<forall>q\<in>set patches. \<not> isl q)) \<and>
            (ol_status r = ObjLinkOk \<longrightarrow>
               mem_read m' out n = patched (map projr patches) (mem_read m (oi_code img) n) \<and>
               ol_resolved_relocation_count r = oi_relocation_count img) \<and>
            (ol_status r \<noteq> ObjLinkOk \<longrightarrow>
               (\<exists>i<unat (oi_relocation_count img).
                  ol_failing_relocation_index r = of_nat i \<and>
                  relocation_patch p c img slot m i = Inl (ol_status r) \<and>
                  (\<forall>j<i. \<not> isl (relocation_patch p c img slot m j))))"
proof -
  let ?f = "relocation_patch p c img slot m" and ?is = "[0..<unat (oi_relocation_count img)]"
  let ?n = "unat (oi_code_size img)"
  let ?m1 = "mem_write m out (mem_read m (oi_code img) ?n)"
  note cc = copied_code [OF l]
  show ?thesis
  proof (cases rule: all_or_first_failure [of ?f ?is])
    case (ok ps)
    from link_loop_ok [OF l _ ok cc(1), of "link_start img"] obtain r' m'' where
      loop: "link_loop p c img out slot ?is (link_start img) ?m1 = (True, r', m'')"
      and cnt: "ol_resolved_relocation_count r' =
        ol_resolved_relocation_count (link_start img) + of_nat (length ?is)"
      and a: "tables_agree img out m m''"
      and code: "mem_read m'' out ?n = patched ps (mem_read ?m1 out ?n)"
      by auto
    have "\<forall>q\<in>set (map ?f ?is). \<not> isl q" unfolding ok by auto
    moreover have "map projr (map ?f ?is) = ps" unfolding ok by (simp add: comp_def)
    ultimately show ?thesis
      using loop cnt a code cc(2)
      by (simp add: linkObjectImage_loop [OF args] Let_def tables_agree_def link_start_def
          del: map_map set_map)
  next
    case (fail ys i zs st ps)
    have lt: "\<forall>i\<in>set (ys @ [i]). i < unat (oi_relocation_count img)"
      using fail(1) by (metis (no_types, lifting) Un_iff append.assoc append_Cons append_Nil
          atLeastLessThan_iff set_append set_upt)
    from link_loop_failed [OF l lt fail(3) fail(2) cc(1), of zs "link_start img"]
    obtain r' m'' where
      loop: "link_loop p c img out slot ?is (link_start img) ?m1 = (False, r', m'')"
      and st: "ol_status r' = st" "ol_failing_relocation_index r' = of_nat i"
      and a: "tables_agree img out m m''"
      unfolding fail(1) by blast
    have "ys = [0..<i]"
    proof -
      have "length ys < length ?is" using fail(1) by simp
      moreover have "?is ! length ys = i" using fail(1) by simp
      ultimately have "length ys = i" by simp
      have "take (length ys) ?is = ys" using fail(1) by simp
      then show ?thesis using \<open>length ys = i\<close> lt by (simp add: take_upt min_def)
    qed
    then have eq: "set (map ?f [0..<i]) = Inr ` set ps" using fail(3) by simp
    have before: "\<forall>j<i. \<not> isl (?f j)"
    proof (intro allI impI)
      fix j assume "j < i"
      then have "?f j \<in> set (map ?f [0..<i])" by simp
      then show "\<not> isl (?f j)" unfolding eq by auto
    qed
    have i: "i < unat (oi_relocation_count img)" using lt by simp
    then have "\<not> (\<forall>q\<in>set (map ?f ?is). \<not> isl q)"
      using fail(2) by force
    moreover have "st \<noteq> ObjLinkOk" using relocation_patch_not_ok fail(2) by metis
    ultimately show ?thesis
      using loop st a before i fail(2)
      by (simp add: linkObjectImage_loop [OF args] Let_def tables_agree_def) auto
  qed
qed

section \<open>Parsed objects\<close>

definition parse_no_wrap :: "object_header \<Rightarrow> bool" where
  "parse_no_wrap h \<longleftrightarrow>
     unat (oh_code_size h) + 52 < 4294967296 \<and>
     unat (oh_symbol_table_offset h) + 102 * unat (oh_symbol_count h) < 4294967296 \<and>
     unat (oh_relocation_table_offset h) + 8 * unat (oh_relocation_count h) < 4294967296"

lemma parse_ok_facts:
  assumes "parseObjectFile m bytes file_size = (ParseOk, Some (h, img))"
  shows "h = read_object_header m bytes" "bytes \<noteq> 0"
    "oh_magic h = kPlcObjectFileMagicV1" "oh_version h = kPlcObjectFileVersionV1"
    "oh_abi_version h = kPlcRuntimeAbiV1Version"
    "52 \<le> unat (oh_total_size h)" "unat (oh_total_size h) \<le> unat file_size"
    "oh_entry_offset h \<le> oh_code_size h"
    "object_header_size + oh_code_size h \<le> oh_total_size h"
    "oh_symbol_table_offset h + ucast (oh_symbol_count h) * symbol_record_size \<le> oh_total_size h"
    "oh_relocation_table_offset h + ucast (oh_relocation_count h) * relocation_record_size
       \<le> oh_total_size h"
    "checksum32 m (bytes + object_header_size) (oh_total_size h - object_header_size) =
       oh_object_checksum h"
    "img = \<lparr>oi_code = bytes + object_header_size, oi_code_size = oh_code_size h,
            oi_entry_offset = oh_entry_offset h, oi_symbols = bytes + oh_symbol_table_offset h,
            oi_symbol_count = oh_symbol_count h,
            oi_relocations = bytes + oh_relocation_table_offset h,
            oi_relocation_count = oh_relocation_count h\<rparr>"
  using assms
  by (auto simp: parseObjectFile_def Let_def not_less word_le_nat_alt word_less_nat_alt
      object_header_size_def split: if_splits)

lemma unat_table_end:
  fixes off sz :: u32 and cnt :: u16
  assumes "unat off + unat cnt * unat sz < 4294967296"
  shows "unat (off + ucast cnt * sz) = unat off + unat cnt * unat sz"
proof -
  have "unat (ucast cnt * sz) = unat cnt * unat sz"
    using assms by (subst unat_mult_lem [THEN iffD1]) simp_all
  then show ?thesis using assms by (subst unat_add_no_wrap) simp_all
qed

lemma parse_bounds:
  assumes ok: "parseObjectFile m bytes file_size = (ParseOk, Some (h, img))"
    and nw: "parse_no_wrap h"
  shows "unat (oi_code_size img) + 52 \<le> unat (oh_total_size h)"
    "unat (oh_symbol_table_offset h) + 102 * unat (oi_symbol_count img) \<le> unat (oh_total_size h)"
    "unat (oh_relocation_table_offset h) + 8 * unat (oi_relocation_count img)
       \<le> unat (oh_total_size h)"
proof -
  note f = parse_ok_facts [OF ok]
  have "unat (object_header_size + oh_code_size h) = 52 + unat (oh_code_size h)"
    using nw by (subst unat_add_no_wrap) (simp_all add: object_header_size_def parse_no_wrap_def)
  then show "unat (oi_code_size img) + 52 \<le> unat (oh_total_size h)"
    using f(9) by (simp add: f(13) word_le_nat_alt)
  have "unat (oh_symbol_table_offset h + ucast (oh_symbol_count h) * symbol_record_size) =
      unat (oh_symbol_table_offset h) + unat (oh_symbol_count h) * unat symbol_record_size"
    using nw by (intro unat_table_end) (simp add: parse_no_wrap_def symbol_record_size_def)
  then show "unat (oh_symbol_table_offset h) + 102 * unat (oi_symbol_count img)
      \<le> unat (oh_total_size h)"
    using f(10) by (simp add: f(13) word_le_nat_alt symbol_record_size_def)
  have "unat (oh_relocation_table_offset h + ucast (oh_relocation_count h) * relocation_record_size) =
      unat (oh_relocation_table_offset h) + unat (oh_relocation_count h) * unat relocation_record_size"
    using nw by (intro unat_table_end) (simp add: parse_no_wrap_def relocation_record_size_def)
  then show "unat (oh_relocation_table_offset h) + 8 * unat (oi_relocation_count img)
      \<le> unat (oh_total_size h)"
    using f(11) by (simp add: f(13) word_le_nat_alt relocation_record_size_def)
qed

lemma apart_inner:
  assumes "apart a n b k" and "unat off + j \<le> n"  and "0 < n"
  shows "apart (a + off) j b k"
proof -
  show ?thesis
  proof (cases "j = 0 \<and> unat a + unat off = 4294967296")
    case True
    then have "unat (a + off) = 0" by (simp add: unat_word_ariths)
    with True assms show ?thesis by (auto simp: apart_def)
  next
    case False
    then have "unat a + unat off < 4294967296"
      using assms by (auto simp: apart_def)
    then have "unat (a + off) = unat a + unat off" by (rule unat_add_no_wrap)
    with assms show ?thesis by (auto simp: apart_def)
  qed
qed

text \<open>A parsed object linked away from its own bytes is laid out as linking needs it.\<close>

lemma parsed_link_layout:
  assumes ok: "parseObjectFile m bytes file_size = (ParseOk, Some (h, img))"
    and nw: "parse_no_wrap h"
    and away: "apart bytes (unat (oh_total_size h)) out (unat (oh_code_size h))"
    and rel: "\<forall>i<unat (oi_relocation_count img).
        unat (rel_code_offset (relocation_at m img i)) + 4 < 4294967296"
  shows "link_layout m img out"
proof -
  note f = parse_ok_facts [OF ok] and b = parse_bounds [OF ok nw]
  have "apart (bytes + oh_relocation_table_offset h) (8 * unat (oi_relocation_count img)) out
      (unat (oh_code_size h))"
    using f(6) b(3) by (intro apart_inner [OF away]) simp_all
  moreover have "apart (bytes + oh_symbol_table_offset h) (102 * unat (oi_symbol_count img)) out
      (unat (oh_code_size h))"
    using f(6) b(2) by (intro apart_inner [OF away]) simp_all
  ultimately show ?thesis using rel by (simp add: link_layout_def f(13))
qed

section \<open>A sample object\<close>

definition sample_symbol :: symbol_record where
  "sample_symbol =
     lit ''sym'' @ zbuf 13 @ [0, 0] @ buf_of 16 ''devB'' @ buf_of 32 ''f1'' @ buf_of 32 ''p'' @
     [0, 0, 0, 0]"

text \<open>A memory with one symbol and one 16-bit index relocation at code offset \<open>off\<close>.\<close>

definition sample_memory :: "u32 \<Rightarrow> mem" where
  "sample_memory off =
     mem_write (mem_write (\<lambda>_. 0xAA) 0x20300100 sample_symbol) 0x20300200
       (le32 off @ [0, 0, 0, 0])"

definition sample_image :: object_image where
  "sample_image =
     \<lparr>oi_code = 0x20300000, oi_code_size = 4, oi_entry_offset = 0, oi_symbols = 0x20300100,
      oi_symbol_count = 1, oi_relocations = 0x20300200, oi_relocation_count = 1\<rparr>"

definition sample_out :: u32 where
  "sample_out = 0x20400000"

lemma length_sample_symbol: "length sample_symbol = 102"
  by (simp add: sample_symbol_def buf_of_def lit_def)

lemma sample_symbol_at: "symbol_at (sample_memory off) sample_image 0 = sample_symbol"
proof -
  have "mem_read (sample_memory off) 0x20300100 102 =
      mem_read (mem_write (\<lambda>_. 0xAA) 0x20300100 sample_symbol) 0x20300100 102"
    unfolding sample_memory_def
    by (rule mem_read_write_apart) (simp add: apart_def le32_def)
  also have "\<dots> = sample_symbol"
    using mem_read_write_same [of sample_symbol] by (simp add: length_sample_symbol)
  finally show ?thesis by (simp add: symbol_at_def read_symbol_def sample_image_def)
qed

lemma sample_relocation_at:
  "relocation_at (sample_memory off) sample_image 0 =
     \<lparr>rel_code_offset = off, rel_symbol_index = 0, rel_kind = 0\<rparr>"
  by (simp add: relocation_at_def read_relocation_def sample_image_def sample_memory_def
      rd32_at_def rd16_at_def mem_write_def le32_def rd16_def)

lemma sample_layout: "unat off + 4 < 4294967296 \<Longrightarrow> link_layout (sample_memory off) sample_image sample_out"
proof -
  assume off: "unat off + 4 < 4294967296"
  have c: "unat (oi_relocation_count sample_image) = 1" by (simp add: sample_image_def)
  show ?thesis
    unfolding link_layout_def c using off
    by (simp add: sample_relocation_at) (simp add: sample_image_def sample_out_def apart_def)
qed

lemma sample_arguments: "link_arguments_ok sample_image sample_out 16"
  by (simp add: link_arguments_ok_def sample_image_def sample_out_def)

lemma sample_symbol_fields:
  "sym_kind sample_symbol = 0" "sym_expected_type sample_symbol = 0" "sym_access sample_symbol = 0"
  "sym_point_id sample_symbol = pd_id (sample_point ''devB'' ''f1'' ''p'')"
  by (simp_all add: sample_symbol_def sym_kind_def sym_expected_type_def sym_access_def
      sym_point_id_def sample_point_def buf_of_def lit_def zbuf_def numeral_eq_Suc)

lemma sample_resolved:
  "lr_status (resolve_symbol (fst published_sample) sample_catalog sample_symbol
     (sym_point_id sample_symbol)) = LinkResolved"
  using sample_request_resolved
  by (simp add: resolve_symbol_def sample_symbol_fields kPlcSymbolSlotVar_def
      value_type_of_raw_def link_access_of_raw_def sample_request_def)

definition sample_index_bytes :: "u8 list" where
  "sample_index_bytes = le16 (lr_index (resolve_symbol (fst published_sample) sample_catalog
     sample_symbol (sym_point_id sample_symbol)))"

lemma sample_patch:
  "off + 2 \<le> 4 \<Longrightarrow>
   relocation_patch (fst published_sample) sample_catalog sample_image 0 (sample_memory off) 0 =
     Inr (unat off, sample_index_bytes)"
  using sample_resolved
  by (simp add: relocation_patch_def sample_relocation_at sample_symbol_at relocationPatchSize_def
      kPlcRelocationPointStateIndexU16Le_def resolveSymbolRecord_def sample_symbol_fields(1)
      kPlcSymbolSlotVar_def sample_index_bytes_def Let_def)
    (simp add: sample_image_def)

section \<open>Properties\<close>

text \<open>
  C5: Linking an object away from its own tables, with no relocation offset at the very
  end of the 32-bit range, changes memory only inside the linked code. It succeeds exactly
  when every relocation has a patch, and then the linked code is the object's code with
  all patches applied in order; otherwise the reported relocation is the first one without
  a patch and the status says why.
\<close>
theorem link_correct:
  assumes "link_arguments_ok img out capacity" and "link_layout m img out"
  shows "let (r, m') = linkObjectImage p c img out capacity slot m;
             n = unat (oi_code_size img);
             patches = map (relocation_patch p c img slot m) [0..<unat (oi_relocation_count img)]
         in agrees out n m m' \<and>
            (ol_status r = ObjLinkOk \<longleftrightarrow> (\<forall>q\<in>set patches. \<not> isl q)) \<and>
            (ol_status r = ObjLinkOk \<longrightarrow>
               mem_read m' out n = patched (map projr patches) (mem_read m (oi_code img) n) \<and>
               ol_resolved_relocation_count r = oi_relocation_count img) \<and>
            (ol_status r \<noteq> ObjLinkOk \<longrightarrow>
               (\<exists>i<unat (oi_relocation_count img).
                  ol_failing_relocation_index r = of_nat i \<and>
                  relocation_patch p c img slot m i = Inl (ol_status r) \<and>
                  (\<forall>j<i. \<not> isl (relocation_patch p c img slot m j))))"
  using assms by (rule linkObjectImage_spec)

lemma link_correct_witness:
  "let p = fst published_sample; m = sample_memory 0;
       (r, m') = linkObjectImage p sample_catalog sample_image sample_out 16 0 m
   in ol_status r = ObjLinkOk \<and> agrees sample_out 4 m m' \<and>
      mem_read m' sample_out 4 = patch_bytes 0 sample_index_bytes (mem_read m 0x20300000 4)"
proof -
  let ?p = "fst published_sample" and ?m = "sample_memory 0"
  have "map (relocation_patch ?p sample_catalog sample_image 0 ?m)
      [0..<unat (oi_relocation_count sample_image)] = [Inr (0, sample_index_bytes)]"
    using sample_patch [of 0] by (simp add: sample_image_def)
  moreover have "oi_code sample_image = 0x20300000" "unat (oi_code_size sample_image) = 4"
    by (simp_all add: sample_image_def)
  ultimately show ?thesis
    using link_correct [OF sample_arguments sample_layout [of 0], of ?p sample_catalog 0]
    by (simp add: Let_def case_prod_unfold patched_def del: upt_conv_Nil)
qed

text \<open>
  C40: Because \<open>code_offset + patch_size\<close> is a 32-bit sum, a relocation at offset
  0xFFFFFFFE passes the range check: linking reports success and writes the two bytes in
  front of the linked code, which the object never may touch.
\<close>
theorem link_wrap_writes_outside:
  "let p = fst published_sample; m = sample_memory 0xFFFFFFFE;
       (r, m') = linkObjectImage p sample_catalog sample_image sample_out 16 0 m
   in ol_status r = ObjLinkOk \<and> m (sample_out - 2) = 0xAA \<and>
      m' (sample_out - 2) = hd sample_index_bytes \<and>
      \<not> in_region sample_out (unat (oi_code_size sample_image)) (sample_out - 2)"
proof -
  let ?p = "fst published_sample" and ?m = "sample_memory 0xFFFFFFFE"
  let ?code = "mem_read ?m 0x20300000 4"
  let ?m1 = "mem_write ?m sample_out ?code"
  have agree: "agrees sample_out 4 ?m ?m1"
    by (simp add: agrees_def mem_write_outside)
  have a1: "mem_read ?m1 0x20300100 102 = mem_read ?m 0x20300100 102"
    by (rule agrees_read [OF agree]) (simp add: apart_def sample_out_def)
  then have sym: "symbol_at ?m1 sample_image 0 = symbol_at ?m sample_image 0"
    by (simp add: symbol_at_def read_symbol_def sample_image_def)
  have a2: "mem_read ?m1 0x20300200 8 = mem_read ?m 0x20300200 8"
    by (rule agrees_read [OF agree]) (simp add: apart_def sample_out_def)
  have "relocation_at ?m1 sample_image 0 = relocation_at ?m sample_image 0"
    using read_relocation_cong [OF a2] by (simp add: relocation_at_def sample_image_def)
  with sym have "relocation_patch ?p sample_catalog sample_image 0 ?m1 0 =
      relocation_patch ?p sample_catalog sample_image 0 ?m 0"
    by (simp add: relocation_patch_def sample_relocation_at)
  then have "relocation_patch ?p sample_catalog sample_image 0 ?m1 0 =
      Inr (0xFFFFFFFE, sample_index_bytes)"
    using sample_patch [of "0xFFFFFFFE"] by simp
  from link_relocation_Inr [OF this, of sample_out "link_start sample_image"] obtain r' where
    "link_relocation ?p sample_catalog sample_image sample_out 0 0 (link_start sample_image) ?m1 =
       (True, r', mem_write ?m1 (sample_out + of_nat 0xFFFFFFFE) sample_index_bytes)" by blast
  then have "linkObjectImage ?p sample_catalog sample_image sample_out 16 0 ?m =
      (r'\<lparr>ol_status := ObjLinkOk, ol_failing_symbol_index := 0xFFFF,
          ol_failing_relocation_index := 0xFFFF\<rparr>,
       mem_write ?m1 (sample_out + of_nat 0xFFFFFFFE) sample_index_bytes)"
    by (simp add: linkObjectImage_loop [OF sample_arguments] Let_def)
      (simp add: sample_image_def)
  moreover have "?m (sample_out - 2) = 0xAA"
    by (simp add: sample_memory_def mem_write_def sample_out_def length_sample_symbol)
  ultimately show ?thesis
    by (simp add: mem_write_def sample_out_def sample_index_bytes_def le16_def in_region_def
        sample_image_def)
qed

text \<open>
  C6: An object file that \<open>parseObjectFile\<close> accepts, none of whose table ends wraps around
  32 bits, has its code, symbols and relocations inside its own \<open>total_size\<close> bytes, its
  entry offset inside the code, and a matching payload checksum.
\<close>
theorem parse_in_bounds:
  assumes "parseObjectFile m bytes file_size = (ParseOk, Some (h, img))"
    and "parse_no_wrap h"
  shows "oi_code img = bytes + 52 \<and> 52 + unat (oi_code_size img) \<le> unat (oh_total_size h) \<and>
     unat (oi_symbols img - bytes) + 102 * unat (oi_symbol_count img) \<le> unat (oh_total_size h) \<and>
     unat (oi_relocations img - bytes) + 8 * unat (oi_relocation_count img)
       \<le> unat (oh_total_size h) \<and>
     unat (oh_total_size h) \<le> unat file_size \<and> oi_entry_offset img \<le> oi_code_size img \<and>
     (bytes + 52 \<noteq> 0 \<longrightarrow>
        fnv1a 2166136261 (mem_read m (bytes + 52) (unat (oh_total_size h) - 52)) =
          oh_object_checksum h)"
proof -
  note f = parse_ok_facts [OF assms(1)] and b = parse_bounds [OF assms]
  have "unat (oh_total_size h - 52) = unat (oh_total_size h) - 52"
    using f(6) by (subst unat_sub_ge) (simp_all add: word_le_nat_alt)
  then show ?thesis
    using b f(6-8) f(12) by (auto simp: f(13) object_header_size_def checksum32_def)
qed

definition tiny_object_header :: "u32 \<Rightarrow> u32 \<Rightarrow> u8 list" where
  "tiny_object_header symbols symbol_count =
     words_bytes [0x314A424F, 0x00010001, 0, 52, 0, 0, symbol_count, symbols, 52, 0, 0, 0,
       2166136261]"

definition tiny_object :: "u32 \<Rightarrow> u32 \<Rightarrow> mem" where
  "tiny_object symbols symbol_count =
     mem_write (\<lambda>_. 0) 0x20300000 (tiny_object_header symbols symbol_count)"

lemma tiny_object_parsed:
  assumes "symbols = 52 \<and> symbol_count = 0 \<or> symbols = 0xFFFFFF9A \<and> symbol_count = 1"
  shows "parseObjectFile (tiny_object symbols symbol_count) 0x20300000 52 =
    (ParseOk, Some
      (\<lparr>oh_magic = 0x314A424F, oh_version = 1, oh_abi_version = 1, oh_flags = 0,
        oh_total_size = 52, oh_code_size = 0, oh_entry_offset = 0,
        oh_symbol_count = ucast symbol_count, oh_relocation_count = 0,
        oh_symbol_table_offset = symbols, oh_relocation_table_offset = 52,
        oh_max_instructions_per_scan = 0, oh_max_scan_time_us = 0, oh_runtime_header_addr = 0,
        oh_object_checksum = 2166136261\<rparr>,
       \<lparr>oi_code = 0x20300034, oi_code_size = 0, oi_entry_offset = 0,
        oi_symbols = 0x20300000 + symbols, oi_symbol_count = ucast symbol_count,
        oi_relocations = 0x20300034, oi_relocation_count = 0\<rparr>))"
proof -
  have bytes: "read_object_header (tiny_object symbols symbol_count) 0x20300000 =
     \<lparr>oh_magic = 0x314A424F, oh_version = 1, oh_abi_version = 1, oh_flags = 0,
        oh_total_size = 52, oh_code_size = 0, oh_entry_offset = 0,
        oh_symbol_count = ucast symbol_count, oh_relocation_count = 0,
        oh_symbol_table_offset = symbols, oh_relocation_table_offset = 52,
        oh_max_instructions_per_scan = 0, oh_max_scan_time_us = 0, oh_runtime_header_addr = 0,
        oh_object_checksum = 2166136261\<rparr>"
    using assms
    by (auto simp: read_object_header_def tiny_object_def tiny_object_header_def mem_write_def
        rd32_at_def rd16_at_def words_bytes_def le32_def rd16_def rd32_def)
  show ?thesis
    using assms
    by (auto simp: parseObjectFile_def bytes Let_def object_header_size_def
        kPlcObjectFileMagicV1_def kPlcObjectFileVersionV1_def kPlcRuntimeAbiV1Version_def
        symbol_record_size_def relocation_record_size_def checksum32_def mem_read_def)
qed

lemma parse_in_bounds_witness:
  "\<exists>h img. parseObjectFile (tiny_object 52 0) 0x20300000 52 = (ParseOk, Some (h, img)) \<and>
     unat (oi_symbols img - 0x20300000) + 102 * unat (oi_symbol_count img) \<le> unat (oh_total_size h)"
  using parse_in_bounds [OF tiny_object_parsed [of 52 0]] tiny_object_parsed [of 52 0]
  by (simp add: parse_no_wrap_def)

text \<open>
  The end of the symbol table is a wrapping 32-bit sum with no lower bound on its
  offset: a 52-byte object file with one symbol at offset 0xFFFFFF9A is accepted, and its
  symbol table lies in front of the file.
\<close>
theorem parse_wrap_accepts:
  "\<exists>h img. parseObjectFile (tiny_object 0xFFFFFF9A 1) 0x20300000 52 = (ParseOk, Some (h, img)) \<and>
     oi_symbol_count img = 1 \<and> unat (oi_symbols img) = 0x20300000 - 102"
  using tiny_object_parsed [of "0xFFFFFF9A" "1"] by simp

end
