(* ===== verification/Bytecode.thy ===== *)
theory Bytecode
  imports Linker
begin

text \<open>
  The bytecode validator of \<open>plc_loader_v1.h\<close>: the opcode tables, the instruction sizes and
  the two passes of \<open>validateSupportedBytecode\<close>. The code is the list of its bytes and the
  program counter a natural number: the callers bound the code by the slot's capacity
  before they validate, so no 32-bit sum of the loops wraps.
\<close>

section \<open>Opcode tables\<close>

definition opcodeHasU16Operand :: "u8 \<Rightarrow> bool" where
  "opcodeHasU16Operand op =
     (op \<in> set [0x10, 0x11, 0x12, 0x13, 0x14, 0x15, 0x16, 0x17, 0x18, 0x19, 0x1A, 0x20, 0x21,
                0x2C, 0x2D, 0x2E, 0x2F, 0x30, 0x32, 0x33, 0x34, 0x35, 0x37, 0x38, 0x3A, 0x3B,
                0x3D, 0x3E, 0x3F, 0x41, 0x42, 0x43])"

definition opcodeHasU32Immediate :: "u8 \<Rightarrow> bool" where
  "opcodeHasU32Immediate op = (op \<in> set [0x1B, 0x1C, 0x1D])"

definition opcodeHasTimerStartOperand :: "u8 \<Rightarrow> bool" where
  "opcodeHasTimerStartOperand op = (op \<in> set [0x31, 0x36, 0x39])"

definition opcodeHasCounterCountOperand :: "u8 \<Rightarrow> bool" where
  "opcodeHasCounterCountOperand op = (op \<in> set [0x3C, 0x40])"

definition opcodeIsBranch :: "u8 \<Rightarrow> bool" where
  "opcodeIsBranch op = (op \<in> set [0x2C, 0x2D, 0x2E])"

definition opcodeSupportedInCoreStep2 :: "u8 \<Rightarrow> bool" where
  "opcodeSupportedInCoreStep2 op =
     (op \<in> set [0x00, 0x01, 0x02, 0x03, 0x04, 0x05, 0x06, 0x07, 0x08, 0x09, 0x0A, 0x0B, 0x0C,
                0x15, 0x16, 0x17, 0x18, 0x19, 0x1A, 0x1B, 0x1C, 0x1D,
                0x22, 0x23, 0x24, 0x25, 0x26, 0x27, 0x28, 0x29, 0x2A, 0x2B, 0x2C, 0x2D, 0x2E,
                0x2F, 0x30, 0x31, 0x32, 0x33, 0x34, 0x35, 0x36, 0x37, 0x38, 0x39, 0x3A, 0x3B,
                0x3C, 0x3D, 0x3E, 0x3F, 0x40, 0x41, 0x42, 0x43, 0x44, 0x45, 0x46, 0x47, 0x48,
                0x49, 0x4A, 0x4B, 0x4C, 0x4D, 0x4E, 0x4F, 0x50, 0x51, 0x52, 0x53] \<or>
      opcodeHasU16Operand op \<or> opcodeHasU32Immediate op)"

definition instructionSizeForOpcode :: "u8 \<Rightarrow> nat" where
  "instructionSizeForOpcode op =
     (if opcodeHasTimerStartOperand op then 7
      else if opcodeHasU32Immediate op then 5
      else if opcodeHasCounterCountOperand op then 5
      else if opcodeHasU16Operand op then 3 else 1)"

lemma instruction_size_pos [simp, termination_simp]: "0 < instructionSizeForOpcode op"
  by (simp add: instructionSizeForOpcode_def)

lemma branch_size: "opcodeIsBranch op \<Longrightarrow> instructionSizeForOpcode op = 3"
  by (auto simp: opcodeIsBranch_def instructionSizeForOpcode_def opcodeHasTimerStartOperand_def
      opcodeHasU32Immediate_def opcodeHasCounterCountOperand_def opcodeHasU16Operand_def)

section \<open>The passes\<close>

abbreviation isize :: "u8 list \<Rightarrow> nat \<Rightarrow> nat" where
  "isize code pc \<equiv> instructionSizeForOpcode (code ! pc)"

function scan_for_offset :: "u8 list \<Rightarrow> nat \<Rightarrow> nat \<Rightarrow> bool" where
  "scan_for_offset code target pc =
     (if pc < length code then
        (if pc = target then True else scan_for_offset code target (pc + isize code pc))
      else False)"
  by pat_completeness auto

termination scan_for_offset
  by (relation "measure (\<lambda>(code, target, pc). length code - pc)") (auto intro: diff_less_mono2)

declare scan_for_offset.simps [simp del]

definition isInstructionStartOffset :: "u8 list \<Rightarrow> nat \<Rightarrow> bool" where
  "isInstructionStartOffset code target = scan_for_offset code target 0"

function check_opcodes :: "u8 list \<Rightarrow> nat \<Rightarrow> bool" where
  "check_opcodes code pc =
     (if pc < length code then
        (if \<not> opcodeSupportedInCoreStep2 (code ! pc) then False
         else if pc + isize code pc > length code then False
         else check_opcodes code (pc + isize code pc))
      else True)"
  by pat_completeness auto

termination check_opcodes
  by (relation "measure (\<lambda>(code, pc). length code - pc)") (auto intro: diff_less_mono2)

declare check_opcodes.simps [simp del]

text \<open>\<open>int32_t target = pc + instruction_size + rel\<close>, with \<open>rel\<close> a signed 16-bit operand.\<close>

definition branch_target :: "u8 list \<Rightarrow> nat \<Rightarrow> int" where
  "branch_target code pc =
     int (pc + isize code pc) + sint (rd16 (code ! (pc + 1)) (code ! (pc + 2)))"

function check_branches :: "u8 list \<Rightarrow> nat \<Rightarrow> bool" where
  "check_branches code pc =
     (if pc < length code then
        (if opcodeIsBranch (code ! pc) \<and>
            (let target = branch_target code pc in
             target < 0 \<or> nat target \<ge> length code \<or>
             \<not> isInstructionStartOffset code (nat target))
         then False
         else check_branches code (pc + isize code pc))
      else True)"
  by pat_completeness auto

termination check_branches
  by (relation "measure (\<lambda>(code, pc). length code - pc)") (auto intro: diff_less_mono2)

declare check_branches.simps [simp del]

definition validateSupportedBytecode :: "u8 list option \<Rightarrow> bool" where
  "validateSupportedBytecode code =
     (case code of None \<Rightarrow> False
      | Some bs \<Rightarrow> if \<not> check_opcodes bs 0 then False else check_branches bs 0)"

section \<open>Instruction starts\<close>

inductive instruction_start :: "u8 list \<Rightarrow> nat \<Rightarrow> bool" for code :: "u8 list" where
  first: "0 < length code \<Longrightarrow> instruction_start code 0"
| step: "instruction_start code pc \<Longrightarrow> pc + isize code pc < length code \<Longrightarrow>
         instruction_start code (pc + isize code pc)"

lemma instruction_start_lt: "instruction_start code pc \<Longrightarrow> pc < length code"
  by (induction rule: instruction_start.induct) simp_all

lemma scan_sound:
  "scan_for_offset code target pc \<Longrightarrow> instruction_start code pc \<Longrightarrow> instruction_start code target"
proof (induction code target pc rule: scan_for_offset.induct)
  case (1 code target pc)
  show ?case
  proof (cases "pc = target")
    case True
    with 1 show ?thesis by simp
  next
    case False
    with 1 have sc: "scan_for_offset code target (pc + isize code pc)" and lt: "pc < length code"
      by (simp_all add: scan_for_offset.simps [of code target pc] split: if_splits)
    then have "pc + isize code pc < length code"
      by (simp add: scan_for_offset.simps [of code target "pc + isize code pc"] split: if_splits)
    with 1 False lt sc show ?thesis by (intro "1.IH") (auto intro: instruction_start.step)
  qed
qed

text \<open>Positions the passes visit from a start are again starts.\<close>

lemma start_chain:
  assumes "instruction_start code target"
  shows "scan_for_offset code target 0"
proof -
  have "scan_for_offset code t 0 \<and>
        (\<forall>u. scan_for_offset code u t \<longrightarrow> scan_for_offset code u 0)" if "instruction_start code t" for t
    using that
  proof (induction rule: instruction_start.induct)
    case first
    then show ?case by (simp add: scan_for_offset.simps)
  next
    case (step pc)
    have lt: "pc < length code" using step(1) by (rule instruction_start_lt)
    have next_pc: "scan_for_offset code u pc" if "scan_for_offset code u (pc + isize code pc)" for u
      using that lt by (subst scan_for_offset.simps) simp
    have "scan_for_offset code (pc + isize code pc) (pc + isize code pc)"
      using step(2) by (simp add: scan_for_offset.simps)
    with step.IH next_pc show ?case by blast
  qed
  with assms show ?thesis by blast
qed

lemma isInstructionStartOffset_iff:
  "isInstructionStartOffset code target = instruction_start code target"
proof
  assume s: "isInstructionStartOffset code target"
  then have "0 < length code"
    by (simp add: isInstructionStartOffset_def scan_for_offset.simps split: if_splits)
  with s show "instruction_start code target"
    using scan_sound [OF _ instruction_start.first] by (simp add: isInstructionStartOffset_def)
qed (simp add: isInstructionStartOffset_def start_chain)

text \<open>A pass holds at a start iff it holds at every start from it on.\<close>

definition op_ok :: "u8 list \<Rightarrow> nat \<Rightarrow> bool" where
  "op_ok code pc = (opcodeSupportedInCoreStep2 (code ! pc) \<and> pc + isize code pc \<le> length code)"

definition branch_ok :: "u8 list \<Rightarrow> nat \<Rightarrow> bool" where
  "branch_ok code pc =
     (opcodeIsBranch (code ! pc) \<longrightarrow>
        0 \<le> branch_target code pc \<and> instruction_start code (nat (branch_target code pc)))"

lemma check_opcodes_step:
  "pc < length code \<Longrightarrow> check_opcodes code pc =
     (op_ok code pc \<and> check_opcodes code (pc + isize code pc))"
  by (subst check_opcodes.simps) (auto simp: op_ok_def)

lemma check_branches_step:
  "pc < length code \<Longrightarrow> check_branches code pc =
     (branch_ok code pc \<and> check_branches code (pc + isize code pc))"
  by (subst check_branches.simps)
    (auto simp: branch_ok_def isInstructionStartOffset_iff Let_def dest: instruction_start_lt)

lemma checks_at_starts:
  assumes "instruction_start code pc"
  shows "check_opcodes code 0 \<Longrightarrow> check_opcodes code pc"
    and "check_branches code 0 \<Longrightarrow> check_branches code pc"
  using assms
  by (induction rule: instruction_start.induct)
    (auto simp: check_opcodes_step check_branches_step dest: instruction_start_lt)

lemma checks_from_starts:
  "(pc < length code \<longrightarrow> instruction_start code pc) \<Longrightarrow>
   (\<And>q. instruction_start code q \<Longrightarrow> op_ok code q) \<Longrightarrow> check_opcodes code pc"
  "(pc < length code \<longrightarrow> instruction_start code pc) \<Longrightarrow>
   (\<And>q. instruction_start code q \<Longrightarrow> branch_ok code q) \<Longrightarrow> check_branches code pc"
proof (induction "length code - pc" arbitrary: pc rule: less_induct)
  case less
  {
    case 1
    show ?case
    proof (cases "pc < length code")
      case True
      moreover have "check_opcodes code (pc + isize code pc)"
        using 1 True by (intro less(1)) (auto intro: instruction_start.step diff_less_mono2)
      ultimately show ?thesis using 1 by (simp add: check_opcodes_step)
    qed (simp add: check_opcodes.simps)
  next
    case 2
    show ?case
    proof (cases "pc < length code")
      case True
      moreover have "check_branches code (pc + isize code pc)"
        using 2 True by (intro less(2)) (auto intro: instruction_start.step diff_less_mono2)
      ultimately show ?thesis using 2 by (simp add: check_branches_step)
    qed (simp add: check_branches.simps)
  }
qed

lemma validate_iff:
  "validateSupportedBytecode (Some code) \<longleftrightarrow>
     (\<forall>pc. instruction_start code pc \<longrightarrow> op_ok code pc \<and> branch_ok code pc)"
proof
  assume v: "validateSupportedBytecode (Some code)"
  then have "check_opcodes code 0" "check_branches code 0"
    by (simp_all add: validateSupportedBytecode_def split: if_splits)
  then show "\<forall>pc. instruction_start code pc \<longrightarrow> op_ok code pc \<and> branch_ok code pc"
    using checks_at_starts check_opcodes_step check_branches_step instruction_start_lt by blast
next
  assume a: "\<forall>pc. instruction_start code pc \<longrightarrow> op_ok code pc \<and> branch_ok code pc"
  have "0 < length code \<longrightarrow> instruction_start code 0" by (simp add: instruction_start.first)
  with a checks_from_starts [of 0 code] show "validateSupportedBytecode (Some code)"
    by (simp add: validateSupportedBytecode_def)
qed

section \<open>Execution stays on instruction boundaries\<close>

text \<open>
  The program counters an engine that runs the code can go through: to the next
  instruction, or, from a branch, to its target.
\<close>

inductive pc_step :: "u8 list \<Rightarrow> nat \<Rightarrow> nat \<Rightarrow> bool" for code :: "u8 list" where
  sequential: "pc < length code \<Longrightarrow> pc_step code pc (pc + isize code pc)"
| branch: "pc < length code \<Longrightarrow> opcodeIsBranch (code ! pc) \<Longrightarrow> 0 \<le> branch_target code pc \<Longrightarrow>
           pc_step code pc (nat (branch_target code pc))"

inductive_cases pc_stepE: "pc_step code pc pc'"

definition pc_ok :: "u8 list \<Rightarrow> nat \<Rightarrow> bool" where
  "pc_ok code pc = (pc = length code \<or>
     instruction_start code pc \<and> opcodeSupportedInCoreStep2 (code ! pc) \<and>
     pc + isize code pc \<le> length code)"

lemma pc_ok_step:
  assumes v: "validateSupportedBytecode (Some code)" and ok: "pc_ok code pc"
    and st: "pc_step code pc pc'"
  shows "pc_ok code pc'"
proof -
  have start: "instruction_start code pc"
    using ok st by (auto simp: pc_ok_def elim: pc_stepE)
  with v have here: "op_ok code pc" "branch_ok code pc" by (simp_all add: validate_iff)
  have "pc' = length code \<or> instruction_start code pc'"
    using st
  proof (cases rule: pc_step.cases)
    case sequential
    then show ?thesis
      using here start by (auto simp: op_ok_def intro: instruction_start.step)
  next
    case branch
    then show ?thesis using here by (simp add: branch_ok_def)
  qed
  with v show ?thesis by (auto simp: pc_ok_def validate_iff op_ok_def)
qed

text \<open>
  C7: Code that \<open>validateSupportedBytecode\<close> accepts keeps every execution on instruction
  boundaries: from an instruction start, any sequence of sequential steps and branches
  reaches only the end of the code or the start of a supported instruction that lies
  wholly inside it.
\<close>
theorem validated_execution_safe:
  assumes "validateSupportedBytecode (Some code)" and "instruction_start code entry"
    and "(pc_step code)\<^sup>*\<^sup>* entry pc"
  shows "pc_ok code pc"
  using assms(3)
proof (induction rule: rtranclp_induct)
  case base
  then show ?case using assms(1,2) by (simp add: pc_ok_def validate_iff op_ok_def)
next
  case (step y z)
  then show ?case using pc_ok_step [OF assms(1)] by blast
qed

definition looping_code :: "u8 list" where
  "looping_code = [0x15, 1, 0, 0x2C, 0xFA, 0xFF, 0x00]"

lemma looping_code_facts:
  "validateSupportedBytecode (Some looping_code)" "instruction_start looping_code 0"
  "pc_step looping_code 3 0" "pc_step looping_code 0 3"
proof -
  show "validateSupportedBytecode (Some looping_code)" by code_simp
  show "instruction_start looping_code 0"
    by (rule instruction_start.first) (simp add: looping_code_def)
  have "branch_target looping_code 3 = 0" by code_simp
  then show "pc_step looping_code 3 0"
    using pc_step.branch [of 3 looping_code] by (simp add: looping_code_def opcodeIsBranch_def)
  have "isize looping_code 0 = 3" by code_simp
  then show "pc_step looping_code 0 3"
    using pc_step.sequential [of 0 looping_code] by (simp add: looping_code_def)
qed

lemma validated_execution_safe_witness: "pc_ok looping_code 0"
  using validated_execution_safe [OF looping_code_facts(1,2), of 0]
    looping_code_facts(3,4) by (blast intro: rtranclp.intros)

text \<open>
  C8: The two passes of the validator decide exactly this: every instruction start holds a
  supported opcode whose operands fit, and every branch at a start leads to a start.
\<close>
theorem validator_exact:
  "validateSupportedBytecode (Some code) \<longleftrightarrow>
     (\<forall>pc. instruction_start code pc \<longrightarrow>
        opcodeSupportedInCoreStep2 (code ! pc) \<and> pc + isize code pc \<le> length code \<and>
        (opcodeIsBranch (code ! pc) \<longrightarrow>
           0 \<le> branch_target code pc \<and> instruction_start code (nat (branch_target code pc))))"
  unfolding validate_iff op_ok_def branch_ok_def by blast

lemma validator_exact_witness:
  "opcodeSupportedInCoreStep2 (looping_code ! 3) \<and>
   instruction_start looping_code (nat (branch_target looping_code 3))"
proof -
  have size: "isize looping_code 0 = 3" and len: "length looping_code = 7"
    and branch: "opcodeIsBranch (looping_code ! 3)" by code_simp+
  have "instruction_start looping_code 3"
    using instruction_start.step [OF looping_code_facts(2)] size len by simp
  then show ?thesis using validator_exact [of looping_code] looping_code_facts(1) branch by blast
qed

text \<open>
  Nothing relates the entry offset to the instruction boundaries: this code passes
  validation, its entry offset 1 passes the only check made of it, and execution from
  there starts with the unsupported opcode 0x54 in the middle of an operand.
\<close>
theorem entry_not_validated:
  "let code = [0x1B, 0x54, 0, 0, 0, 0x00]; entry = 1 in
     validateSupportedBytecode (Some code) \<and> entry \<le> length code \<and>
     \<not> isInstructionStartOffset code entry \<and> \<not> opcodeSupportedInCoreStep2 (code ! entry)"
  by code_simp

text \<open>
  Relocations patch the code after it was validated and may cover opcodes: patching
  point index 84 at offset 0 turns validated code into code the validator refuses.
\<close>
theorem patch_after_validation:
  "validateSupportedBytecode (Some [0x10, 0, 0]) \<and>
   \<not> validateSupportedBytecode (Some (patch_bytes 0
       (relocation_bytes kPlcRelocationPointStateIndexU16Le 84) [0x10, 0, 0]))"
  by code_simp

end
