(* ===== verification/LoaderLayout.thy ===== *)
theory LoaderLayout
  imports Bytecode
begin

text \<open>
  The memory layout of the program slots (\<open>plc_loader_v1.h\<close>): the address functions, the
  structures of the slot metadata as runs of 32-bit words, and the map of all regions the
  loader, the publisher and the point states use, which do not overlap.
\<close>

section \<open>Addresses\<close>

definition kPlcSlotBytecodeRegionBaseV1 :: u32 where
  [layout_defs]: "kPlcSlotBytecodeRegionBaseV1 = SDRAM_BASE + 0x00130000"
definition kPlcSlotBytecodeRegionSizeV1 :: u32 where
  [layout_defs]: "kPlcSlotBytecodeRegionSizeV1 = 0x00040000"
definition kPlcSlotControlRegionBaseV1 :: u32 where
  [layout_defs]: "kPlcSlotControlRegionBaseV1 = SDRAM_BASE + 0x00170000"
definition kPlcSlotControlRegionSizeV1 :: u32 where
  [layout_defs]: "kPlcSlotControlRegionSizeV1 = 0x00010000"
definition kPlcSlotObjectRegionBaseV1 :: u32 where
  [layout_defs]: "kPlcSlotObjectRegionBaseV1 = SDRAM_BASE + 0x00180000"
definition kPlcSlotCountV1 :: u16 where
  [layout_defs]: "kPlcSlotCountV1 = 16"
definition kPlcSlotBytecodeStrideV1 :: u32 where
  [layout_defs]: "kPlcSlotBytecodeStrideV1 = kPlcSlotBytecodeRegionSizeV1 div ucast kPlcSlotCountV1"
definition kPlcPackageSlotSize :: u32 where
  [layout_defs]: "kPlcPackageSlotSize = 32 * 4096"
definition kPlcSlotObjectStrideV1 :: u32 where
  [layout_defs]: "kPlcSlotObjectStrideV1 = kPlcPackageSlotSize + 256"
definition kPlcSlotObjectRegionSizeV1 :: u32 where
  [layout_defs]: "kPlcSlotObjectRegionSizeV1 = ucast kPlcSlotCountV1 * kPlcSlotObjectStrideV1"
definition kPlcSlotStackSizeBytesV1 :: u32 where [layout_defs]: "kPlcSlotStackSizeBytesV1 = 1024"
definition kPlcSlotTimerSizeBytesV1 :: u32 where [layout_defs]: "kPlcSlotTimerSizeBytesV1 = 512"
definition kPlcSlotParamsSizeBytesV1 :: u32 where [layout_defs]: "kPlcSlotParamsSizeBytesV1 = 256"
definition kPlcSlotScratchSizeBytesV1 :: u32 where [layout_defs]: "kPlcSlotScratchSizeBytesV1 = 512"
definition kPlcSlotStackEntryBytesV1 :: u32 where [layout_defs]: "kPlcSlotStackEntryBytesV1 = 8"
definition kPlcSlotTimerEntryBytesV1 :: u32 where [layout_defs]: "kPlcSlotTimerEntryBytesV1 = 16"

definition kPlcProgramControlBlockMagicV1 :: u32 where "kPlcProgramControlBlockMagicV1 = 0x31424350"
definition kPlcLinkedImageMagicV1 :: u32 where "kPlcLinkedImageMagicV1 = 0x31474D49"
definition kPlcObjectSnapshotMagicV1 :: u32 where "kPlcObjectSnapshotMagicV1 = 0x3146534F"
definition kPlcSlotDirectoryMagicV1 :: u32 where "kPlcSlotDirectoryMagicV1 = 0x31524453"
definition kPlcSlotParamsMagicV1 :: u32 where "kPlcSlotParamsMagicV1 = 0x31524150"
definition kPlcSlotManifestStatusLoadedV1 :: u32 where "kPlcSlotManifestStatusLoadedV1 = 1"
definition kPlcProgramKindMirrorBool :: u16 where "kPlcProgramKindMirrorBool = 1"

text \<open>The sizes of the packed structures.\<close>

definition sizeof_runtime_header :: u32 where [layout_defs]: "sizeof_runtime_header = 28"
definition sizeof_control :: u32 where [layout_defs]: "sizeof_control = 72"
definition sizeof_manifest :: u32 where [layout_defs]: "sizeof_manifest = 72"
definition sizeof_directory :: u32 where [layout_defs]: "sizeof_directory = 16"
definition sizeof_linked_header :: u32 where [layout_defs]: "sizeof_linked_header = 36"
definition sizeof_snapshot :: u32 where [layout_defs]: "sizeof_snapshot = 20"
definition sizeof_params_header :: u32 where [layout_defs]: "sizeof_params_header = 16"
definition sizeof_mirror_params :: u32 where [layout_defs]: "sizeof_mirror_params = 24"

definition alignUp :: "u32 \<Rightarrow> u32 \<Rightarrow> u32" where
  "alignUp v alignment = (v + (alignment - 1)) AND NOT (alignment - 1)"

definition slotBytecodeAddress :: "u16 \<Rightarrow> u32" where
  "slotBytecodeAddress slot = kPlcSlotBytecodeRegionBaseV1 + ucast slot * kPlcSlotBytecodeStrideV1"

definition slotDirectoryHeaderAddress :: u32 where
  "slotDirectoryHeaderAddress = kPlcSlotControlRegionBaseV1"

definition slotManifestTableBase :: u32 where
  "slotManifestTableBase = kPlcSlotControlRegionBaseV1 + sizeof_directory"

definition slotControlBlockRegionBase :: u32 where
  "slotControlBlockRegionBase =
     alignUp (slotManifestTableBase + ucast kPlcSlotCountV1 * sizeof_manifest) 16"

definition slotControlAddress :: "u16 \<Rightarrow> u32" where
  "slotControlAddress slot = slotControlBlockRegionBase + ucast slot * sizeof_control"

definition slotManifestAddress :: "u16 \<Rightarrow> u32" where
  "slotManifestAddress slot = slotManifestTableBase + ucast slot * sizeof_manifest"

definition slotObjectSnapshotHeaderAddress :: "u16 \<Rightarrow> u32" where
  "slotObjectSnapshotHeaderAddress slot =
     kPlcSlotObjectRegionBaseV1 + ucast slot * kPlcSlotObjectStrideV1"

definition slotObjectSnapshotDataAddress :: "u16 \<Rightarrow> u32" where
  "slotObjectSnapshotDataAddress slot = slotObjectSnapshotHeaderAddress slot + sizeof_snapshot"

definition slotObjectSnapshotCapacity :: u32 where
  "slotObjectSnapshotCapacity = kPlcSlotObjectStrideV1 - sizeof_snapshot"

record slot_layout =
  sl_linked_image_header_addr :: u32
  sl_linked_code_addr :: u32
  sl_linked_code_capacity :: u32
  sl_stack_base :: u32
  sl_stack_size :: u32
  sl_timer_base :: u32
  sl_timer_size :: u32
  sl_params_base :: u32
  sl_params_capacity :: u32
  sl_scratch_base :: u32
  sl_scratch_size :: u32

definition empty_layout :: slot_layout where
  "empty_layout =
     \<lparr>sl_linked_image_header_addr = 0, sl_linked_code_addr = 0, sl_linked_code_capacity = 0,
      sl_stack_base = 0, sl_stack_size = 0, sl_timer_base = 0, sl_timer_size = 0,
      sl_params_base = 0, sl_params_capacity = 0, sl_scratch_base = 0, sl_scratch_size = 0\<rparr>"

definition slotLayout :: "u16 \<Rightarrow> slot_layout" where
  "slotLayout slot =
     (let slot_base = slotBytecodeAddress slot;
          slot_limit = slot_base + kPlcSlotBytecodeStrideV1;
          code_addr = alignUp (slot_base + sizeof_linked_header) 16;
          scratch_base = slot_limit - kPlcSlotScratchSizeBytesV1;
          params_base = scratch_base - kPlcSlotParamsSizeBytesV1;
          timer_base = params_base - kPlcSlotTimerSizeBytesV1;
          stack_base = timer_base - kPlcSlotStackSizeBytesV1
      in \<lparr>sl_linked_image_header_addr = slot_base, sl_linked_code_addr = code_addr,
          sl_linked_code_capacity = stack_base - code_addr,
          sl_stack_base = stack_base, sl_stack_size = kPlcSlotStackSizeBytesV1,
          sl_timer_base = timer_base, sl_timer_size = kPlcSlotTimerSizeBytesV1,
          sl_params_base = params_base, sl_params_capacity = kPlcSlotParamsSizeBytesV1,
          sl_scratch_base = scratch_base, sl_scratch_size = kPlcSlotScratchSizeBytesV1\<rparr>)"

definition loader_regionAvailable :: bool where
  "loader_regionAvailable =
     (let sdram_limit = SDRAM_BASE + SDRAM_SIZE;
          control_limit = kPlcSlotControlRegionBaseV1 + kPlcSlotControlRegionSizeV1;
          control_block_limit =
            slotControlBlockRegionBase + ucast kPlcSlotCountV1 * sizeof_control
      in kPlcSlotBytecodeRegionBaseV1
           \<ge> kPlcRuntimeDescriptorBase + kPlcRuntimeDescriptorWindowSize \<and>
         kPlcSlotBytecodeRegionBaseV1 + kPlcSlotBytecodeRegionSizeV1 \<le> sdram_limit \<and>
         kPlcSlotObjectRegionBaseV1 + kPlcSlotObjectRegionSizeV1 \<le> sdram_limit \<and>
         control_block_limit \<le> control_limit \<and> control_limit \<le> sdram_limit)"

definition clearVolatileState :: "mem \<Rightarrow> mem" where
  "clearVolatileState m =
     (if \<not> loader_regionAvailable then m
      else
        (let control_bytes =
               alignUp (slotControlBlockRegionBase + ucast kPlcSlotCountV1 * sizeof_control -
                        kPlcSlotControlRegionBaseV1) 16
         in fold (\<lambda>slot m. mem_set m (slotObjectSnapshotHeaderAddress (of_nat slot)) 0
                   (unat sizeof_snapshot))
              [0..<unat kPlcSlotCountV1]
              (mem_set m kPlcSlotControlRegionBaseV1 0 (unat control_bytes))))"

section \<open>The address functions as sums\<close>

lemma slot_base_unat:
  assumes "slot < kPlcSlotCountV1"
  shows "unat (slotBytecodeAddress slot) = 0x20130000 + 0x4000 * unat slot"
    and "unat (slotManifestAddress slot) = 0x20170010 + 72 * unat slot"
    and "unat (slotControlAddress slot) = 0x20170490 + 72 * unat slot"
    and "unat (slotObjectSnapshotHeaderAddress slot) = 0x20180000 + 0x20100 * unat slot"
    and "unat (slotObjectSnapshotDataAddress slot) = 0x20180014 + 0x20100 * unat slot"
proof -
  have s: "unat slot < 16" using assms by (simp add: word_less_nat_alt layout_defs)
  have sum: "unat (b + ucast slot * k) = unat b + unat slot * unat k"
    if "unat b + 16 * unat k < 4294967296" for b k :: u32
  proof (rule unat_table_end)
    have "unat slot * unat k \<le> 16 * unat k" using s by (intro mult_le_mono1) simp
    with that show "unat b + unat slot * unat k < 4294967296" by linarith
  qed
  have k: "kPlcSlotBytecodeRegionBaseV1 = 0x20130000" "kPlcSlotBytecodeStrideV1 = 0x4000"
    "slotManifestTableBase = 0x20170010" "sizeof_manifest = 72"
    "slotControlBlockRegionBase = 0x20170490" "sizeof_control = 72"
    "kPlcSlotObjectRegionBaseV1 = 0x20180000" "kPlcSlotObjectStrideV1 = 0x20100"
    by (simp_all add: layout_defs slotManifestTableBase_def slotControlBlockRegionBase_def
        alignUp_def)
  show "unat (slotBytecodeAddress slot) = 0x20130000 + 0x4000 * unat slot"
    "unat (slotManifestAddress slot) = 0x20170010 + 72 * unat slot"
    "unat (slotControlAddress slot) = 0x20170490 + 72 * unat slot"
    "unat (slotObjectSnapshotHeaderAddress slot) = 0x20180000 + 0x20100 * unat slot"
    unfolding slotBytecodeAddress_def slotManifestAddress_def slotControlAddress_def
      slotObjectSnapshotHeaderAddress_def k
    by (simp_all add: sum)
  then show "unat (slotObjectSnapshotDataAddress slot) = 0x20180014 + 0x20100 * unat slot"
    unfolding slotObjectSnapshotDataAddress_def using s
    by (subst unat_add_no_wrap) (simp_all add: sizeof_snapshot_def)
qed

lemma slot_cases:
  assumes "slot < kPlcSlotCountV1"
  shows "slot \<in> set [0, 1, 2, 3, 4, 5, 6, 7, 8, 9, 10, 11, 12, 13, 14, 15]"
proof -
  have "unat slot < 16" using assms by (simp add: word_less_nat_alt layout_defs)
  then have "unat slot \<in> set [0..<16]" by simp
  then have "slot \<in> of_nat ` set [0..<16]"
    by (intro image_eqI [of _ _ "unat slot"]) simp_all
  then show ?thesis by (simp add: upt_rec) 
qed

lemma slot_layout_unat:
  assumes "slot < kPlcSlotCountV1"
  shows "unat (sl_linked_image_header_addr (slotLayout slot)) = 0x20130000 + 0x4000 * unat slot"
    and "unat (sl_linked_code_addr (slotLayout slot)) = 0x20130030 + 0x4000 * unat slot"
    and "unat (sl_stack_base (slotLayout slot)) = 0x20133700 + 0x4000 * unat slot"
    and "unat (sl_timer_base (slotLayout slot)) = 0x20133B00 + 0x4000 * unat slot"
    and "unat (sl_params_base (slotLayout slot)) = 0x20133D00 + 0x4000 * unat slot"
    and "unat (sl_scratch_base (slotLayout slot)) = 0x20133E00 + 0x4000 * unat slot"
    and "unat (sl_linked_code_capacity (slotLayout slot)) = 0x36D0"
  using slot_cases [OF assms]
  by (auto simp: slotLayout_def slotBytecodeAddress_def alignUp_def Let_def layout_defs)

section \<open>The memory map\<close>

definition SDRAM_PLC_UPLOAD_STAGING_SIZE :: u32 where
  [layout_defs]: "SDRAM_PLC_UPLOAD_STAGING_SIZE = 0x20000"
definition SDRAM_PLC_UPLOAD_STAGING_BASE :: u32 where
  [layout_defs]: "SDRAM_PLC_UPLOAD_STAGING_BASE =
     SDRAM_POINT_STATE_BASE - SDRAM_PLC_UPLOAD_STAGING_SIZE"

datatype region =
  RHeader | RCode | RStack | RTimer | RParams | RScratch | RManifest | RControl
| RSnapshotHeader | RSnapshotData | RRuntimeHeader | RDescriptors | RDirectory | RPointStates
| RUploadStaging

text \<open>Whether a region exists once per slot.\<close>

definition per_slot :: "region \<Rightarrow> bool" where
  "per_slot r =
     (r \<notin> {RRuntimeHeader, RDescriptors, RDirectory, RPointStates, RUploadStaging})"

fun region_base :: "region \<Rightarrow> u16 \<Rightarrow> u32" where
  "region_base RHeader s = sl_linked_image_header_addr (slotLayout s)"
| "region_base RCode s = sl_linked_code_addr (slotLayout s)"
| "region_base RStack s = sl_stack_base (slotLayout s)"
| "region_base RTimer s = sl_timer_base (slotLayout s)"
| "region_base RParams s = sl_params_base (slotLayout s)"
| "region_base RScratch s = sl_scratch_base (slotLayout s)"
| "region_base RManifest s = slotManifestAddress s"
| "region_base RControl s = slotControlAddress s"
| "region_base RSnapshotHeader s = slotObjectSnapshotHeaderAddress s"
| "region_base RSnapshotData s = slotObjectSnapshotDataAddress s"
| "region_base RRuntimeHeader s = kPlcRuntimeHeaderAddr"
| "region_base RDescriptors s = kPlcRuntimeDescriptorBase"
| "region_base RDirectory s = slotDirectoryHeaderAddress"
| "region_base RPointStates s = kPlcSharedPointStateBase"
| "region_base RUploadStaging s = SDRAM_PLC_UPLOAD_STAGING_BASE"

text \<open>The bytes of a region, as the code sizes it.\<close>

fun region_extent :: "region \<Rightarrow> u16 \<Rightarrow> u32" where
  "region_extent RHeader s = sizeof_linked_header"
| "region_extent RCode s = sl_linked_code_capacity (slotLayout s)"
| "region_extent RStack s = sl_stack_size (slotLayout s)"
| "region_extent RTimer s = sl_timer_size (slotLayout s)"
| "region_extent RParams s = sl_params_capacity (slotLayout s)"
| "region_extent RScratch s = sl_scratch_size (slotLayout s)"
| "region_extent RManifest s = sizeof_manifest"
| "region_extent RControl s = sizeof_control"
| "region_extent RSnapshotHeader s = sizeof_snapshot"
| "region_extent RSnapshotData s = slotObjectSnapshotCapacity"
| "region_extent RRuntimeHeader s = sizeof_runtime_header"
| "region_extent RDescriptors s = kPlcRuntimeDescriptorWindowSize"
| "region_extent RDirectory s = sizeof_directory"
| "region_extent RPointStates s = SDRAM_POINT_STATE_WINDOW_SIZE"
| "region_extent RUploadStaging s = SDRAM_PLC_UPLOAD_STAGING_SIZE"

text \<open>The same bases and sizes as numbers, for the arithmetic of the proofs.\<close>

fun region_size :: "region \<Rightarrow> nat" where
  "region_size RHeader = 36"
| "region_size RCode = 0x36D0"
| "region_size RStack = 1024"
| "region_size RTimer = 512"
| "region_size RParams = 256"
| "region_size RScratch = 512"
| "region_size RManifest = 72"
| "region_size RControl = 72"
| "region_size RSnapshotHeader = 20"
| "region_size RSnapshotData = 0x200EC"
| "region_size RRuntimeHeader = 28"
| "region_size RDescriptors = 0x10000"
| "region_size RDirectory = 16"
| "region_size RPointStates = 0x20000"
| "region_size RUploadStaging = 0x20000"

fun region_start :: "region \<Rightarrow> nat \<Rightarrow> nat" where
  "region_start RHeader s = 0x20130000 + 0x4000 * s"
| "region_start RCode s = 0x20130030 + 0x4000 * s"
| "region_start RStack s = 0x20133700 + 0x4000 * s"
| "region_start RTimer s = 0x20133B00 + 0x4000 * s"
| "region_start RParams s = 0x20133D00 + 0x4000 * s"
| "region_start RScratch s = 0x20133E00 + 0x4000 * s"
| "region_start RManifest s = 0x20170010 + 72 * s"
| "region_start RControl s = 0x20170490 + 72 * s"
| "region_start RSnapshotHeader s = 0x20180000 + 0x20100 * s"
| "region_start RSnapshotData s = 0x20180014 + 0x20100 * s"
| "region_start RRuntimeHeader s = 0x20100000"
| "region_start RDescriptors s = 0x20100100"
| "region_start RDirectory s = 0x20170000"
| "region_start RPointStates s = 0x207E0000"
| "region_start RUploadStaging s = 0x207C0000"

lemma region_base_unat: "s < kPlcSlotCountV1 \<Longrightarrow> unat (region_base r s) = region_start r (unat s)"
  by (cases r)
    (simp_all add: slot_layout_unat slot_base_unat slotDirectoryHeaderAddress_def,
     simp_all add: layout_defs)

lemma region_extent_unat: "s < kPlcSlotCountV1 \<Longrightarrow> unat (region_extent r s) = region_size r"
  by (cases r)
    (simp_all add: slot_layout_unat slotObjectSnapshotCapacity_def,
     simp_all add: slotLayout_def Let_def layout_defs)

lemma region_disjoint:
  assumes "s < 16" "t < 16" "r \<noteq> q \<or> (per_slot r \<and> s \<noteq> t)"
  shows "region_start r s + region_size r \<le> region_start q t \<or>
         region_start q t + region_size q \<le> region_start r s"
proof -
  consider "s = t" | "s < t" | "t < s" by linarith
  then show ?thesis
    using assms by cases (cases r; cases q; simp add: per_slot_def)+
qed

lemma regions_apart:
  assumes "s < kPlcSlotCountV1" "t < kPlcSlotCountV1" "r \<noteq> q \<or> (per_slot r \<and> s \<noteq> t)"
  shows "apart (region_base r s) (region_size r) (region_base q t) (region_size q)"
proof -
  have st: "unat s < 16" "unat t < 16"
    using assms by (simp_all add: word_less_nat_alt layout_defs)
  have "s \<noteq> t \<longleftrightarrow> unat s \<noteq> unat t" by (simp add: word_unat_eq_iff)
  with assms(3) have "r \<noteq> q \<or> (per_slot r \<and> unat s \<noteq> unat t)" by blast
  note disj = region_disjoint [OF st this]
  have "region_start r (unat s) + region_size r \<le> 4294967296"
    "region_start q (unat t) + region_size q \<le> 4294967296"
    using st by (cases r; simp) (use st in \<open>cases q; simp\<close>)
  with disj show ?thesis
    by (simp add: apart_def region_base_unat [OF assms(1)] region_base_unat [OF assms(2)])
qed

text \<open>
  C12: The memory map of the PLC: for every two slots below 16, the image header, code, stack,
  timers, parameters, scratch, manifest, control block and object snapshot of the slots,
  the runtime header, the descriptor window, the slot directory, the upload staging area and
  the point-state window, each with the size the code gives it, are pairwise disjoint and
  end inside the SDRAM.
\<close>
theorem memory_map_disjoint:
  assumes "s < kPlcSlotCountV1" "t < kPlcSlotCountV1" "r \<noteq> q \<or> (per_slot r \<and> s \<noteq> t)"
  shows "unat (region_base r s) + unat (region_extent r s) \<le> unat (SDRAM_BASE + SDRAM_SIZE) \<and>
     (unat (region_base r s) + unat (region_extent r s) \<le> unat (region_base q t) \<or>
      unat (region_base q t) + unat (region_extent q t) \<le> unat (region_base r s))"
proof -
  have "unat s < 16" using assms by (simp add: word_less_nat_alt layout_defs)
  moreover have "unat (SDRAM_BASE + SDRAM_SIZE) = 0x20800000" by (simp add: layout_defs)
  ultimately have "unat (region_base r s) + region_size r \<le> unat (SDRAM_BASE + SDRAM_SIZE)"
    by (cases r) (simp_all add: region_base_unat [OF assms(1)] del: region_base.simps)
  with regions_apart [OF assms] show ?thesis
    by (simp add: apart_def region_extent_unat [OF assms(1)] region_extent_unat [OF assms(2)]
        del: region_extent.simps)
qed

lemma memory_map_disjoint_witness:
  "unat (region_base RCode 3) + unat (region_extent RCode 3) \<le> unat (SDRAM_BASE + SDRAM_SIZE) \<and>
   (unat (region_base RCode 3) + unat (region_extent RCode 3) \<le> unat (region_base RStack 3) \<or>
    unat (region_base RStack 3) + unat (region_extent RStack 3) \<le> unat (region_base RCode 3))"
  by (rule memory_map_disjoint) (simp_all add: kPlcSlotCountV1_def)

lemma loader_region_available: loader_regionAvailable
  by (simp add: loader_regionAvailable_def slotControlBlockRegionBase_def slotManifestTableBase_def
      alignUp_def layout_defs)

end
