(* ===== verification/SlotMetadata.thy ===== *)
theory SlotMetadata
  imports LoaderLayout
begin

text \<open>
  The metadata the loader writes for a slot (\<open>plc_loader_v1.h\<close>): the linked image header,
  the slot directory, the manifest, the control block, the parameters and the object
  snapshot, each a packed structure that is written and read as 32-bit words. A pair of
  16-bit fields that share a word is packed low half first.
\<close>

section \<open>Words\<close>

definition pack2 :: "u16 \<Rightarrow> u16 \<Rightarrow> u32" where
  "pack2 lo hi = ucast lo OR push_bit 16 (ucast hi)"

definition lo16 :: "u32 \<Rightarrow> u16" where "lo16 w = ucast w"
definition hi16 :: "u32 \<Rightarrow> u16" where "hi16 w = ucast (drop_bit 16 w)"

lemma lo16_pack2 [simp]: "lo16 (pack2 lo hi) = lo"
  unfolding lo16_def pack2_def by (rule bit_word_eqI) (auto simp: bit_simps)

lemma hi16_pack2 [simp]: "hi16 (pack2 lo hi) = hi"
  unfolding hi16_def pack2_def
  by (rule bit_word_eqI) (auto simp: bit_simps dest: bit_imp_le_length)

definition read_words :: "mem \<Rightarrow> u32 \<Rightarrow> nat \<Rightarrow> u32 list" where
  "read_words m a n = map (\<lambda>k. rd32_at m (a + of_nat (4 * k))) [0..<n]"

lemma read_write_words:
  "4 * length ws \<le> 4294967296 \<Longrightarrow> n = length ws \<Longrightarrow> read_words (write_words m a ws) a n = ws"
  by (rule nth_equalityI) (simp_all add: read_words_def rd32_write_words del: write_words.simps of_nat_mult)

lemma read_words_cong:
  assumes "mem_read m a (4 * n) = mem_read m' a (4 * n)"
  shows "read_words m a n = read_words m' a n"
  unfolding read_words_def
proof (rule map_cong [OF refl])
  fix k assume "k \<in> set [0..<n]"
  then have "4 * k + 4 \<le> 4 * n" by simp
  then show "rd32_at m (a + of_nat (4 * k)) = rd32_at m' (a + of_nat (4 * k))"
    by (intro rd32_at_cong mem_read_sub [OF assms])
qed

section \<open>Structures\<close>

record control_block =
  cb_magic :: u32
  cb_version :: u16
  cb_slot_id :: u16
  cb_control :: u32
  cb_status :: u32
  cb_pc :: u32
  cb_cycle_counter :: u32
  cb_fault_code :: u32
  cb_fault_info :: u32
  cb_bytecode_base :: u32
  cb_bytecode_size :: u32
  cb_stack_base :: u32
  cb_stack_size :: u32
  cb_timer_base :: u32
  cb_timer_count :: u32
  cb_max_instructions_per_scan :: u32
  cb_max_scan_time_us :: u32
  cb_params_base :: u32
  cb_params_size :: u32

definition control_words :: "control_block \<Rightarrow> u32 list" where
  "control_words c =
     [cb_magic c, pack2 (cb_version c) (cb_slot_id c), cb_control c, cb_status c, cb_pc c,
      cb_cycle_counter c, cb_fault_code c, cb_fault_info c, cb_bytecode_base c,
      cb_bytecode_size c, cb_stack_base c, cb_stack_size c, cb_timer_base c, cb_timer_count c,
      cb_max_instructions_per_scan c, cb_max_scan_time_us c, cb_params_base c,
      cb_params_size c]"

definition control_of_words :: "u32 list \<Rightarrow> control_block" where
  "control_of_words w =
     \<lparr>cb_magic = w ! 0, cb_version = lo16 (w ! 1), cb_slot_id = hi16 (w ! 1),
      cb_control = w ! 2, cb_status = w ! 3, cb_pc = w ! 4, cb_cycle_counter = w ! 5,
      cb_fault_code = w ! 6, cb_fault_info = w ! 7, cb_bytecode_base = w ! 8,
      cb_bytecode_size = w ! 9, cb_stack_base = w ! 10, cb_stack_size = w ! 11,
      cb_timer_base = w ! 12, cb_timer_count = w ! 13,
      cb_max_instructions_per_scan = w ! 14, cb_max_scan_time_us = w ! 15,
      cb_params_base = w ! 16, cb_params_size = w ! 17\<rparr>"

definition read_control :: "mem \<Rightarrow> u16 \<Rightarrow> control_block" where
  "read_control m slot = control_of_words (read_words m (slotControlAddress slot) 18)"

record linked_header =
  lh_magic :: u32
  lh_version :: u16
  lh_slot_id :: u16
  lh_flags :: u32
  lh_code_size :: u32
  lh_entry_offset :: u32
  lh_symbol_count :: u16
  lh_relocation_count :: u16
  lh_runtime_header_addr :: u32
  lh_linked_code_checksum :: u32
  lh_params_size :: u32

definition linked_header_words :: "linked_header \<Rightarrow> u32 list" where
  "linked_header_words h =
     [lh_magic h, pack2 (lh_version h) (lh_slot_id h), lh_flags h, lh_code_size h,
      lh_entry_offset h, pack2 (lh_symbol_count h) (lh_relocation_count h),
      lh_runtime_header_addr h, lh_linked_code_checksum h, lh_params_size h]"

definition linked_header_of_words :: "u32 list \<Rightarrow> linked_header" where
  "linked_header_of_words w =
     \<lparr>lh_magic = w ! 0, lh_version = lo16 (w ! 1), lh_slot_id = hi16 (w ! 1),
      lh_flags = w ! 2, lh_code_size = w ! 3, lh_entry_offset = w ! 4,
      lh_symbol_count = lo16 (w ! 5), lh_relocation_count = hi16 (w ! 5),
      lh_runtime_header_addr = w ! 6, lh_linked_code_checksum = w ! 7, lh_params_size = w ! 8\<rparr>"

definition read_linked_header :: "mem \<Rightarrow> u16 \<Rightarrow> linked_header" where
  "read_linked_header m slot =
     linked_header_of_words (read_words m (sl_linked_image_header_addr (slotLayout slot)) 9)"

record slot_manifest =
  sm_slot_id :: u16
  sm_version :: u16
  sm_status :: u32
  sm_flags :: u32
  sm_control_block_addr :: u32
  sm_linked_image_header_addr :: u32
  sm_linked_code_addr :: u32
  sm_linked_code_size :: u32
  sm_stack_base :: u32
  sm_stack_size :: u32
  sm_timer_base :: u32
  sm_timer_count :: u32
  sm_params_base :: u32
  sm_params_size :: u32
  sm_scratch_base :: u32
  sm_scratch_size :: u32
  sm_runtime_header_addr :: u32
  sm_linked_code_checksum :: u32
  sm_load_epoch :: u32

definition manifest_words :: "slot_manifest \<Rightarrow> u32 list" where
  "manifest_words s =
     [pack2 (sm_slot_id s) (sm_version s), sm_status s, sm_flags s, sm_control_block_addr s,
      sm_linked_image_header_addr s, sm_linked_code_addr s, sm_linked_code_size s,
      sm_stack_base s, sm_stack_size s, sm_timer_base s, sm_timer_count s, sm_params_base s,
      sm_params_size s, sm_scratch_base s, sm_scratch_size s, sm_runtime_header_addr s,
      sm_linked_code_checksum s, sm_load_epoch s]"

definition manifest_of_words :: "u32 list \<Rightarrow> slot_manifest" where
  "manifest_of_words w =
     \<lparr>sm_slot_id = lo16 (w ! 0), sm_version = hi16 (w ! 0), sm_status = w ! 1,
      sm_flags = w ! 2, sm_control_block_addr = w ! 3, sm_linked_image_header_addr = w ! 4,
      sm_linked_code_addr = w ! 5, sm_linked_code_size = w ! 6, sm_stack_base = w ! 7,
      sm_stack_size = w ! 8, sm_timer_base = w ! 9, sm_timer_count = w ! 10,
      sm_params_base = w ! 11, sm_params_size = w ! 12, sm_scratch_base = w ! 13,
      sm_scratch_size = w ! 14, sm_runtime_header_addr = w ! 15,
      sm_linked_code_checksum = w ! 16, sm_load_epoch = w ! 17\<rparr>"

definition read_manifest :: "mem \<Rightarrow> u16 \<Rightarrow> slot_manifest" where
  "read_manifest m slot = manifest_of_words (read_words m (slotManifestAddress slot) 18)"

text \<open>The slot directory header: magic, version, slot count, entry size, flags, epoch.\<close>

definition directory_words :: "u32 \<Rightarrow> u32 list" where
  "directory_words epoch =
     [kPlcSlotDirectoryMagicV1, pack2 kPlcRuntimeAbiV1Version kPlcSlotCountV1,
      pack2 (ucast sizeof_manifest) 0, epoch]"

record object_snapshot =
  os_magic :: u32
  os_version :: u16
  os_slot_id :: u16
  os_flags :: u32
  os_object_size :: u32
  os_object_checksum :: u32

definition snapshot_words :: "object_snapshot \<Rightarrow> u32 list" where
  "snapshot_words s =
     [os_magic s, pack2 (os_version s) (os_slot_id s), os_flags s, os_object_size s,
      os_object_checksum s]"

definition snapshot_of_words :: "u32 list \<Rightarrow> object_snapshot" where
  "snapshot_of_words w =
     \<lparr>os_magic = w ! 0, os_version = lo16 (w ! 1), os_slot_id = hi16 (w ! 1),
      os_flags = w ! 2, os_object_size = w ! 3, os_object_checksum = w ! 4\<rparr>"

definition read_snapshot :: "mem \<Rightarrow> u16 \<Rightarrow> object_snapshot" where
  "read_snapshot m slot =
     snapshot_of_words (read_words m (slotObjectSnapshotHeaderAddress slot) 5)"

record params_header =
  ph_magic :: u32
  ph_version :: u16
  ph_program_kind :: u16
  ph_payload_size :: u16
  ph_flags :: u16
  ph_load_epoch :: u32

definition params_header_of_words :: "u32 list \<Rightarrow> params_header" where
  "params_header_of_words w =
     \<lparr>ph_magic = w ! 0, ph_version = lo16 (w ! 1), ph_program_kind = hi16 (w ! 1),
      ph_payload_size = lo16 (w ! 2), ph_flags = hi16 (w ! 2), ph_load_epoch = w ! 3\<rparr>"

lemma struct_roundtrips:
  "control_of_words (control_words c) = c" "linked_header_of_words (linked_header_words h) = h"
  "manifest_of_words (manifest_words s) = s" "snapshot_of_words (snapshot_words n) = n"
  by (simp_all add: control_of_words_def control_words_def linked_header_of_words_def
      linked_header_words_def manifest_of_words_def manifest_words_def snapshot_of_words_def
      snapshot_words_def)

section \<open>Writing the metadata of a loaded slot\<close>

definition loaded_linked_header ::
  "u16 \<Rightarrow> u32 \<Rightarrow> u32 \<Rightarrow> u16 \<Rightarrow> u16 \<Rightarrow> u32 \<Rightarrow> u32 \<Rightarrow> linked_header" where
  "loaded_linked_header slot code_size entry symbols relocations header_addr checksum =
     \<lparr>lh_magic = kPlcLinkedImageMagicV1, lh_version = kPlcRuntimeAbiV1Version,
      lh_slot_id = slot, lh_flags = 0, lh_code_size = code_size, lh_entry_offset = entry,
      lh_symbol_count = symbols, lh_relocation_count = relocations,
      lh_runtime_header_addr = header_addr, lh_linked_code_checksum = checksum,
      lh_params_size = 0\<rparr>"

definition loaded_manifest ::
  "u16 \<Rightarrow> u32 \<Rightarrow> slot_layout \<Rightarrow> u32 \<Rightarrow> u32 \<Rightarrow> u32 \<Rightarrow> u32 \<Rightarrow> slot_manifest" where
  "loaded_manifest slot control_addr l code_size header_addr epoch checksum =
     \<lparr>sm_slot_id = slot, sm_version = kPlcRuntimeAbiV1Version,
      sm_status = kPlcSlotManifestStatusLoadedV1, sm_flags = 0,
      sm_control_block_addr = control_addr,
      sm_linked_image_header_addr = sl_linked_image_header_addr l,
      sm_linked_code_addr = sl_linked_code_addr l, sm_linked_code_size = code_size,
      sm_stack_base = sl_stack_base l,
      sm_stack_size = sl_stack_size l div kPlcSlotStackEntryBytesV1,
      sm_timer_base = sl_timer_base l,
      sm_timer_count = sl_timer_size l div kPlcSlotTimerEntryBytesV1,
      sm_params_base = sl_params_base l, sm_params_size = 0,
      sm_scratch_base = sl_scratch_base l, sm_scratch_size = sl_scratch_size l,
      sm_runtime_header_addr = header_addr, sm_linked_code_checksum = checksum,
      sm_load_epoch = epoch\<rparr>"

definition loaded_control ::
  "u16 \<Rightarrow> slot_layout \<Rightarrow> u32 \<Rightarrow> u32 \<Rightarrow> u32 \<Rightarrow> u32 \<Rightarrow> control_block" where
  "loaded_control slot l code_size entry max_instructions max_time =
     \<lparr>cb_magic = kPlcProgramControlBlockMagicV1, cb_version = kPlcRuntimeAbiV1Version,
      cb_slot_id = slot, cb_control = 0, cb_status = 1, cb_pc = entry, cb_cycle_counter = 0,
      cb_fault_code = 0, cb_fault_info = 0, cb_bytecode_base = sl_linked_code_addr l,
      cb_bytecode_size = code_size, cb_stack_base = sl_stack_base l,
      cb_stack_size = sl_stack_size l div kPlcSlotStackEntryBytesV1,
      cb_timer_base = sl_timer_base l,
      cb_timer_count = sl_timer_size l div kPlcSlotTimerEntryBytesV1,
      cb_max_instructions_per_scan = max_instructions, cb_max_scan_time_us = max_time,
      cb_params_base = sl_params_base l, cb_params_size = 0\<rparr>"

definition writeLoadedSlotMetadata ::
  "u16 \<Rightarrow> u32 \<Rightarrow> u32 \<Rightarrow> slot_layout \<Rightarrow> u32 \<Rightarrow> u32 \<Rightarrow> u16 \<Rightarrow> u16 \<Rightarrow> u32 \<Rightarrow> u32 \<Rightarrow> u32 \<Rightarrow>
   u32 \<Rightarrow> u32 \<Rightarrow> mem \<Rightarrow> mem" where
  "writeLoadedSlotMetadata slot manifest_addr control_addr l code_size entry symbols relocations
     max_instructions max_time header_addr epoch checksum m =
     (let m1 = write_words m (sl_linked_image_header_addr l)
                 (linked_header_words (loaded_linked_header slot code_size entry symbols
                    relocations header_addr checksum));
          m2 = write_words m1 slotDirectoryHeaderAddress (directory_words epoch);
          m3 = write_words m2 manifest_addr
                 (manifest_words (loaded_manifest slot control_addr l code_size header_addr
                    epoch checksum));
          m4 = write_words m3 control_addr
                 (control_words (loaded_control slot l code_size entry max_instructions max_time));
          m5 = mem_set m4 (sl_stack_base l) 0 (unat (sl_stack_size l));
          m6 = mem_set m5 (sl_timer_base l) 0 (unat (sl_timer_size l));
          m7 = mem_set m6 (sl_params_base l) 0 (unat (sl_params_capacity l))
      in mem_set m7 (sl_scratch_base l) 0 (unat (sl_scratch_size l)))"

section \<open>Parameters\<close>

text \<open>\<open>params_bytes\<close> is the caller's buffer, \<open>None\<close> for the null pointer.\<close>

definition words_of_bytes :: "u8 list \<Rightarrow> nat \<Rightarrow> u32 list" where
  "words_of_bytes bs n =
     map (\<lambda>k. rd32 (bs ! (4 * k)) (bs ! (4 * k + 1)) (bs ! (4 * k + 2)) (bs ! (4 * k + 3))) [0..<n]"

definition writeSlotParams :: "u16 \<Rightarrow> u8 list option \<Rightarrow> u32 \<Rightarrow> mem \<Rightarrow> bool \<times> mem" where
  "writeSlotParams slot params_bytes params_size m =
     (if slot \<ge> kPlcSlotCountV1 then (False, m)
      else
        (let l = slotLayout slot in
         if params_size > sl_params_capacity l then (False, m)
         else
           (let m1 = mem_set m (sl_params_base l) 0 (unat (sl_params_capacity l)) in
            if params_size \<noteq> 0 \<and> params_bytes = None then (False, m1)
            else
              (let m2 = (case params_bytes of
                           None \<Rightarrow> m1
                         | Some bs \<Rightarrow> if params_size \<noteq> 0
                             then mem_write m1 (sl_params_base l) (take (unat params_size) bs)
                             else m1);
                   m3 = mem_write m2 (sl_linked_image_header_addr l + 32) (le32 params_size);
                   m4 = mem_write m3 (slotManifestAddress slot + 44) (le32 (sl_params_base l));
                   m5 = mem_write m4 (slotManifestAddress slot + 48) (le32 params_size);
                   m6 = (case params_bytes of
                           None \<Rightarrow> m5
                         | Some bs \<Rightarrow>
                             (let h = params_header_of_words (words_of_bytes bs 4) in
                              if params_size \<ge> sizeof_params_header \<and>
                                 ph_magic h = kPlcSlotParamsMagicV1 \<and>
                                 ph_version h = kPlcRuntimeAbiV1Version
                              then mem_write m5 (slotManifestAddress slot + 68)
                                     (le32 (ph_load_epoch h))
                              else m5));
                   m7 = mem_write m6 (slotControlAddress slot + 64) (le32 (sl_params_base l));
                   m8 = mem_write m7 (slotControlAddress slot + 68) (le32 params_size)
               in (True, m8)))))"

definition read_params_header :: "mem \<Rightarrow> u32 \<Rightarrow> params_header" where
  "read_params_header m a = params_header_of_words (read_words m a 4)"

definition readSlotParamsHeader :: "u16 \<Rightarrow> mem \<Rightarrow> params_header option" where
  "readSlotParamsHeader slot m =
     (if slot \<ge> kPlcSlotCountV1 then None
      else
        (let cb = read_control m slot in
         if cb_magic cb \<noteq> kPlcProgramControlBlockMagicV1 \<or> cb_slot_id cb \<noteq> slot \<or>
            cb_params_base cb = 0 \<or> cb_params_size cb < sizeof_params_header
         then None
         else
           (let h = read_params_header m (cb_params_base cb) in
            if ph_magic h \<noteq> kPlcSlotParamsMagicV1 \<or> ph_version h \<noteq> kPlcRuntimeAbiV1Version \<or>
               ucast (ph_payload_size h) < sizeof_params_header \<or>
               ucast (ph_payload_size h) > cb_params_size cb
            then None else Some h)))"

text \<open>The mirror parameters: the header and four 16-bit fields.\<close>

definition readMirrorProgramParams :: "u16 \<Rightarrow> mem \<Rightarrow> (params_header \<times> u16 \<times> u16 \<times> u16 \<times> u16) option" where
  "readMirrorProgramParams slot m =
     (if slot \<ge> kPlcSlotCountV1 then None
      else
        (let cb = read_control m slot in
         if cb_magic cb \<noteq> kPlcProgramControlBlockMagicV1 \<or> cb_slot_id cb \<noteq> slot \<or>
            cb_params_base cb = 0 \<or> cb_params_size cb < sizeof_mirror_params
         then None
         else
           (let a = cb_params_base cb; h = read_params_header m a in
            if ph_magic h \<noteq> kPlcSlotParamsMagicV1 \<or> ph_version h \<noteq> kPlcRuntimeAbiV1Version \<or>
               ph_program_kind h \<noteq> kPlcProgramKindMirrorBool \<or>
               ucast (ph_payload_size h) < sizeof_mirror_params
            then None
            else Some (h, rd16_at m (a + 16), rd16_at m (a + 18), rd16_at m (a + 20),
                       rd16_at m (a + 22)))))"

section \<open>Object snapshots\<close>

definition objectSnapshotHeaderValid :: "object_snapshot \<Rightarrow> u16 \<Rightarrow> bool" where
  "objectSnapshotHeaderValid h slot =
     (os_magic h = kPlcObjectSnapshotMagicV1 \<and> os_version h = kPlcRuntimeAbiV1Version \<and>
      os_slot_id h = slot \<and> os_object_size h \<ge> object_header_size \<and>
      os_object_size h \<le> slotObjectSnapshotCapacity)"

definition snapshot_header :: "u16 \<Rightarrow> u32 \<Rightarrow> u32 \<Rightarrow> object_snapshot" where
  "snapshot_header slot object_size checksum =
     \<lparr>os_magic = kPlcObjectSnapshotMagicV1, os_version = kPlcRuntimeAbiV1Version,
      os_slot_id = slot, os_flags = 0, os_object_size = object_size,
      os_object_checksum = checksum\<rparr>"

definition loader_checksum32 :: "mem \<Rightarrow> u32 \<Rightarrow> u32 \<Rightarrow> u32" where
  "loader_checksum32 m a n = fnv1a 2166136261 (mem_read m a (unat n))"

definition writeObjectFileSnapshot :: "u16 \<Rightarrow> u32 \<Rightarrow> u32 \<Rightarrow> mem \<Rightarrow> bool \<times> mem" where
  "writeObjectFileSnapshot slot bytes object_size m =
     (if slot \<ge> kPlcSlotCountV1 \<or> bytes = 0 \<or> object_size < object_header_size \<or>
         object_size > slotObjectSnapshotCapacity
      then (False, m)
      else
        (let dst = slotObjectSnapshotDataAddress slot;
             m1 = (if dst \<noteq> bytes then mem_write m dst (mem_read m bytes (unat object_size)) else m)
         in (True, write_words m1 (slotObjectSnapshotHeaderAddress slot)
               (snapshot_words (snapshot_header slot object_size
                  (loader_checksum32 m1 bytes object_size))))))"

text \<open>On success: the copied bytes, the total size and the checksum.\<close>

definition readObjectFileSnapshotChunk ::
  "u16 \<Rightarrow> u32 \<Rightarrow> u32 \<Rightarrow> mem \<Rightarrow> (u8 list \<times> u32 \<times> u32) option" where
  "readObjectFileSnapshotChunk slot offset out_capacity m =
     (if slot \<ge> kPlcSlotCountV1 then None
      else
        (let h = read_snapshot m slot in
         if \<not> objectSnapshotHeaderValid h slot \<or> offset > os_object_size h then None
         else
           (let remaining = os_object_size h - offset;
                copied = (if remaining > out_capacity then out_capacity else remaining)
            in Some (mem_read m (slotObjectSnapshotDataAddress slot + offset) (unat copied),
                     os_object_size h, os_object_checksum h))))"

definition stageObjectFileSnapshot :: "u16 \<Rightarrow> u32 \<Rightarrow> u32 \<Rightarrow> mem \<Rightarrow> bool \<times> mem" where
  "stageObjectFileSnapshot slot bytes object_size m = writeObjectFileSnapshot slot bytes object_size m"

section \<open>Reads and writes by region\<close>

definition region_read :: "mem \<Rightarrow> region \<Rightarrow> u16 \<Rightarrow> u8 list" where
  "region_read m r s = mem_read m (region_base r s) (region_size r)"

definition other_region :: "region \<Rightarrow> u16 \<Rightarrow> region \<Rightarrow> u16 \<Rightarrow> bool" where
  "other_region r s q t = (r \<noteq> q \<or> (per_slot r \<and> s \<noteq> t))"

lemma apart_mono: "apart a n b k \<Longrightarrow> n' \<le> n \<Longrightarrow> k' \<le> k \<Longrightarrow> apart a n' b k'"
  by (auto simp: apart_def)

lemma region_write_frame:
  assumes "s < kPlcSlotCountV1" "t < kPlcSlotCountV1" "other_region r s q t"
    and "length bs \<le> region_size q"
  shows "region_read (mem_write m (region_base q t) bs) r s = region_read m r s"
  unfolding region_read_def
  by (rule mem_read_write_apart, rule apart_mono [OF regions_apart [of s t r q]])
    (use assms in \<open>simp_all add: other_region_def\<close>)

lemma region_words_frame:
  assumes "s < kPlcSlotCountV1" "t < kPlcSlotCountV1" "other_region r s q t"
    and "4 * length ws \<le> region_size q"
  shows "region_read (write_words m (region_base q t) ws) r s = region_read m r s"
proof -
  have "region_size q \<le> 4294967296" by (cases q) simp_all
  with assms(4) have "write_words m (region_base q t) ws = mem_write m (region_base q t) (words_bytes ws)"
    by (intro write_words_bytes) simp
  then show ?thesis using region_write_frame [OF assms(1-3), of "words_bytes ws"] assms(4) by simp
qed

lemma region_set_frame:
  assumes "s < kPlcSlotCountV1" "t < kPlcSlotCountV1" "other_region r s q t"
    and "n \<le> region_size q"
  shows "region_read (mem_set m (region_base q t) b n) r s = region_read m r s"
  unfolding mem_set_def using assms by (intro region_write_frame) simp_all

lemma region_set_same:
  "n = region_size q \<Longrightarrow> region_read (mem_set m (region_base q t) b n) q t = replicate n b"
  unfolding region_read_def mem_set_def
  using mem_read_write_same [of "replicate n b" m "region_base q t"]
  by (cases q) simp_all

lemma region_words_cong:
  assumes "region_read m r s = region_read m' r s" and "4 * n \<le> region_size r"
  shows "read_words m (region_base r s) n = read_words m' (region_base r s) n"
  using mem_read_sub [OF assms(1) [unfolded region_read_def], of 0 "4 * n"] assms(2)
  by (intro read_words_cong) simp

lemmas region_frames = region_words_frame region_set_frame region_write_frame

section \<open>The metadata reads back\<close>

lemma slot_layout_sizes:
  "unat (sl_stack_size (slotLayout s)) = 1024" "unat (sl_timer_size (slotLayout s)) = 512"
  "unat (sl_params_capacity (slotLayout s)) = 256" "unat (sl_scratch_size (slotLayout s)) = 512"
  by (simp_all add: slotLayout_def Let_def layout_defs)

lemma metadata_words_length:
  "length (linked_header_words h) = 9" "length (directory_words e) = 4"
  "length (manifest_words sm) = 18" "length (control_words cb) = 18"
  "length (snapshot_words sn) = 5"
  by (simp_all add: linked_header_words_def directory_words_def manifest_words_def
      control_words_def snapshot_words_def)

text \<open>The metadata write of a slot at its own addresses.\<close>

definition write_metadata ::
  "u16 \<Rightarrow> linked_header \<Rightarrow> u32 \<Rightarrow> slot_manifest \<Rightarrow> control_block \<Rightarrow> mem \<Rightarrow> mem" where
  "write_metadata slot h epoch sm cb m =
     mem_set (mem_set (mem_set (mem_set
       (write_words (write_words (write_words (write_words m
         (region_base RHeader slot) (linked_header_words h))
         (region_base RDirectory slot) (directory_words epoch))
         (region_base RManifest slot) (manifest_words sm))
         (region_base RControl slot) (control_words cb))
       (region_base RStack slot) 0 1024) (region_base RTimer slot) 0 512)
       (region_base RParams slot) 0 256) (region_base RScratch slot) 0 512"

lemma writeLoadedSlotMetadata_regions:
  "writeLoadedSlotMetadata slot (slotManifestAddress slot) (slotControlAddress slot)
     (slotLayout slot) code_size entry symbols relocations max_instructions max_time header_addr
     epoch checksum m =
   write_metadata slot
     (loaded_linked_header slot code_size entry symbols relocations header_addr checksum) epoch
     (loaded_manifest slot (slotControlAddress slot) (slotLayout slot) code_size header_addr epoch
        checksum)
     (loaded_control slot (slotLayout slot) code_size entry max_instructions max_time) m"
  by (simp add: writeLoadedSlotMetadata_def write_metadata_def Let_def slot_layout_sizes
      del: write_words.simps)

definition metadata_regions :: "region set" where
  "metadata_regions = {RHeader, RDirectory, RManifest, RControl, RStack, RTimer, RParams, RScratch}"

lemma write_metadata_frame:
  assumes "s < kPlcSlotCountV1" "slot < kPlcSlotCountV1"
    and "r \<notin> metadata_regions \<or> (per_slot r \<and> s \<noteq> slot)"
  shows "region_read (write_metadata slot h epoch sm cb m) r s = region_read m r s"
proof -
  have "other_region r s q slot" if "q \<in> metadata_regions" for q
    using assms(3) that by (auto simp: other_region_def)
  then have o: "other_region r s RHeader slot" "other_region r s RDirectory slot"
    "other_region r s RManifest slot" "other_region r s RControl slot" "other_region r s RStack slot"
    "other_region r s RTimer slot" "other_region r s RParams slot" "other_region r s RScratch slot"
    by (simp_all add: metadata_regions_def)
  show ?thesis
    unfolding write_metadata_def
    by (simp add: region_frames assms(1,2) o metadata_words_length
        del: write_words.simps region_base.simps)
qed

lemma write_metadata_words:
  fixes h :: linked_header and sm :: slot_manifest and cb :: control_block and m :: mem
    and epoch :: u32
  assumes slot: "slot < kPlcSlotCountV1"
  defines "m' \<equiv> write_metadata slot h epoch sm cb m"
  shows "read_words m' (region_base RHeader slot) 9 = linked_header_words h"
    and "read_words m' (region_base RDirectory slot) 4 = directory_words epoch"
    and "read_words m' (region_base RManifest slot) 18 = manifest_words sm"
    and "read_words m' (region_base RControl slot) 18 = control_words cb"
proof -
  let ?m1 = "write_words m (region_base RHeader slot) (linked_header_words h)"
  let ?m2 = "write_words ?m1 (region_base RDirectory slot) (directory_words epoch)"
  let ?m3 = "write_words ?m2 (region_base RManifest slot) (manifest_words sm)"
  let ?m4 = "write_words ?m3 (region_base RControl slot) (control_words cb)"
  have keep: "region_read m' RHeader slot = region_read ?m1 RHeader slot"
    "region_read m' RDirectory slot = region_read ?m2 RDirectory slot"
    "region_read m' RManifest slot = region_read ?m3 RManifest slot"
    "region_read m' RControl slot = region_read ?m4 RControl slot"
    unfolding m'_def write_metadata_def
    by (simp_all add: region_frames slot other_region_def metadata_words_length
        del: write_words.simps region_base.simps)
  show "read_words m' (region_base RHeader slot) 9 = linked_header_words h"
    using region_words_cong [OF keep(1), of 9]
    by (simp add: read_write_words metadata_words_length del: write_words.simps region_base.simps)
  show "read_words m' (region_base RDirectory slot) 4 = directory_words epoch"
    using region_words_cong [OF keep(2), of 4]
    by (simp add: read_write_words metadata_words_length del: write_words.simps region_base.simps)
  show "read_words m' (region_base RManifest slot) 18 = manifest_words sm"
    using region_words_cong [OF keep(3), of 18]
    by (simp add: read_write_words metadata_words_length del: write_words.simps region_base.simps)
  show "read_words m' (region_base RControl slot) 18 = control_words cb"
    using region_words_cong [OF keep(4), of 18]
    by (simp add: read_write_words metadata_words_length del: write_words.simps region_base.simps)
qed

lemma write_metadata_zeroed:
  assumes slot: "slot < kPlcSlotCountV1" and r: "r \<in> {RStack, RTimer, RParams, RScratch}"
  shows "region_read (write_metadata slot h epoch sm cb m) r slot = replicate (region_size r) 0"
  using r slot unfolding write_metadata_def
  by (auto simp: region_frames region_set_same other_region_def metadata_words_length
      simp del: write_words.simps region_base.simps)

text \<open>
  C11: The metadata \<open>writeLoadedSlotMetadata\<close> writes for a slot reads back exactly as the
  engine and the loader read it: the image header, the directory, the manifest and the
  control block, with the program counter at the entry offset; the stack, timers,
  parameters and scratch of the slot are zero. Nothing else changes: not the code, not
  the snapshot, not the runtime tables, and nothing of another slot.
\<close>
theorem metadata_readback:
  assumes "slot < kPlcSlotCountV1"
  shows "let l = slotLayout slot;
     m' = writeLoadedSlotMetadata slot (slotManifestAddress slot) (slotControlAddress slot) l
            code_size entry symbols relocations max_instructions max_time header_addr epoch
            checksum m in
     read_control m' slot = loaded_control slot l code_size entry max_instructions max_time \<and>
     read_manifest m' slot =
       loaded_manifest slot (slotControlAddress slot) l code_size header_addr epoch checksum \<and>
     read_linked_header m' slot =
       loaded_linked_header slot code_size entry symbols relocations header_addr checksum \<and>
     read_words m' slotDirectoryHeaderAddress 4 = directory_words epoch \<and>
     (\<forall>r\<in>{RStack, RTimer, RParams, RScratch}.
        region_read m' r slot = replicate (region_size r) 0) \<and>
     (\<forall>r s. s < kPlcSlotCountV1 \<longrightarrow> r \<notin> metadata_regions \<or> (per_slot r \<and> s \<noteq> slot) \<longrightarrow>
        region_read m' r s = region_read m r s)"
  unfolding Let_def writeLoadedSlotMetadata_regions
  using write_metadata_words [OF assms] write_metadata_zeroed [OF assms]
    write_metadata_frame [OF _ assms]
  by (simp add: read_control_def read_manifest_def read_linked_header_def struct_roundtrips)

lemma metadata_readback_witness:
  "let m' = writeLoadedSlotMetadata 3 (slotManifestAddress 3) (slotControlAddress 3) (slotLayout 3)
        40 0 1 2 100 500 kPlcRuntimeHeaderAddr 7 99 (\<lambda>_. 0xAA) in
     read_control m' 3 = loaded_control 3 (slotLayout 3) 40 0 100 500 \<and>
     region_read m' RCode 4 = region_read (\<lambda>_. 0xAA) RCode 4"
  using metadata_readback [of 3 40 0 1 2 100 500 kPlcRuntimeHeaderAddr 7 99 "\<lambda>_. 0xAA"]
  by (simp add: Let_def metadata_regions_def kPlcSlotCountV1_def)

section \<open>Single fields\<close>

lemma rd32_at_write_same: "rd32_at (mem_write m a (le32 w)) a = w"
  using rd32_write_words [of "[w]" 0 m a] by simp

lemma rd32_at_write_other:
  assumes "apart a 4 b 4"
  shows "rd32_at (mem_write m b (le32 w)) a = rd32_at m a"
  by (rule rd32_at_cong, rule mem_read_write_apart) (use assms in simp)

lemma read_words_update:
  assumes "k < n" and "unat a + 4 * n \<le> 4294967296"
  shows "read_words (mem_write m (a + of_nat (4 * k)) (le32 w)) a n = (read_words m a n)[k := w]"
proof (rule nth_equalityI)
  fix i assume "i < length (read_words (mem_write m (a + of_nat (4 * k)) (le32 w)) a n)"
  then have i: "i < n" by (simp add: read_words_def)
  show "read_words (mem_write m (a + of_nat (4 * k)) (le32 w)) a n ! i = (read_words m a n)[k := w] ! i"
  proof (cases "i = k")
    case True
    then show ?thesis using i by (simp add: read_words_def rd32_at_write_same del: of_nat_mult)
  next
    case False
    have u: "unat (a + of_nat (4 * j)) = unat a + 4 * j" if "j < n" for j
      using that assms(2) by (intro unat_add_of_nat) simp
    have "apart (a + of_nat (4 * i)) 4 (a + of_nat (4 * k)) 4"
      using False u [OF i] u [OF assms(1)] i assms by (auto simp: apart_def)
    then show ?thesis
      using False i by (simp add: read_words_def rd32_at_write_other del: of_nat_mult)
  qed
qed (simp add: read_words_def)

lemma region_field_frame:
  assumes "s < kPlcSlotCountV1" "t < kPlcSlotCountV1" "other_region r s q t"
    and "off + 4 \<le> region_size q"
  shows "region_read (mem_write m (region_base q t + of_nat off) (le32 w)) r s = region_read m r s"
  unfolding region_read_def
proof (rule mem_read_write_apart)
  have "apart (region_base q t) (region_size q) (region_base r s) (region_size r)"
    using regions_apart [of s t r q] assms by (simp add: other_region_def apart_sym)
  then have "apart (region_base q t + of_nat off) 4 (region_base r s) (region_size r)"
    using assms(4) by (rule apart_sub) simp
  then show "apart (region_base r s) (region_size r) (region_base q t + of_nat off) (length (le32 w))"
    by (simp add: apart_sym)
qed

lemma region_words_update:
  assumes "t < kPlcSlotCountV1" and "k < n" and "4 * n \<le> region_size q"
  shows "read_words (mem_write m (region_base q t + of_nat (4 * k)) (le32 w)) (region_base q t) n =
    (read_words m (region_base q t) n)[k := w]"
proof (rule read_words_update [OF assms(2)])
  have "unat t < 16" using assms by (simp add: word_less_nat_alt layout_defs)
  then have "region_start q (unat t) + region_size q \<le> 4294967296" by (cases q) simp_all
  then show "unat (region_base q t) + 4 * n \<le> 4294967296"
    using assms(3) by (simp add: region_base_unat [OF assms(1)] del: region_base.simps)
qed

section \<open>Parameters read back\<close>

definition params_written ::
  "u16 \<Rightarrow> u8 list \<Rightarrow> u32 \<Rightarrow> mem \<Rightarrow> mem" where
  "params_written slot bs params_size m =
     mem_write (mem_set m (region_base RParams slot) 0 256) (region_base RParams slot)
       (take (unat params_size) bs)"

definition params_epoch_written :: "u16 \<Rightarrow> u8 list \<Rightarrow> mem \<Rightarrow> mem" where
  "params_epoch_written slot bs m =
     (let h = params_header_of_words (words_of_bytes bs 4) in
      if ph_magic h = kPlcSlotParamsMagicV1 \<and> ph_version h = kPlcRuntimeAbiV1Version
      then mem_write m (region_base RManifest slot + of_nat (4 * 17)) (le32 (ph_load_epoch h))
      else m)"

lemma writeSlotParams_regions:
  assumes "slot < kPlcSlotCountV1" "sizeof_params_header \<le> params_size" "unat params_size \<le> 256"
  shows "writeSlotParams slot (Some bs) params_size m =
    (True,
     mem_write (mem_write
       (params_epoch_written slot bs
         (mem_write (mem_write (mem_write (params_written slot bs params_size m)
            (region_base RHeader slot + of_nat (4 * 8)) (le32 params_size))
            (region_base RManifest slot + of_nat (4 * 11)) (le32 (region_base RParams slot)))
            (region_base RManifest slot + of_nat (4 * 12)) (le32 params_size)))
       (region_base RControl slot + of_nat (4 * 16)) (le32 (region_base RParams slot)))
       (region_base RControl slot + of_nat (4 * 17)) (le32 params_size))"
proof -
  have "params_size \<noteq> 0" using assms(2) by (auto simp: sizeof_params_header_def)
  moreover have "\<not> sl_params_capacity (slotLayout slot) < params_size"
    using assms(3) by (simp add: word_less_nat_alt slot_layout_sizes)
  ultimately show ?thesis
    using assms(1,2)
    by (auto simp: writeSlotParams_def Let_def params_written_def params_epoch_written_def
        slot_layout_sizes not_le)
qed

lemma words_of_bytes_read:
  assumes "4 * n \<le> length bs" "length bs \<le> 4294967296"
  shows "read_words (mem_write m a bs) a n = words_of_bytes bs n"
proof (rule nth_equalityI)
  fix i assume "i < length (read_words (mem_write m a bs) a n)"
  then have i: "i < n" by (simp add: read_words_def)
  have b: "mem_write m a bs (a + of_nat (4 * i) + of_nat j) = bs ! (4 * i + j)" if "j < 4" for j
    using that i assms mem_write_inside [of "4 * i + j" bs m a] by (simp add: add.assoc)
  show "read_words (mem_write m a bs) a n ! i = words_of_bytes bs n ! i"
    using i b [of 0] b [of 1] b [of 2] b [of 3]
    by (simp add: read_words_def words_of_bytes_def rd32_at_def)
qed (simp add: read_words_def words_of_bytes_def)

lemma readSlotParamsHeader_finds:
  assumes "slot < kPlcSlotCountV1"
    and "cb_magic c = kPlcProgramControlBlockMagicV1" "cb_slot_id c = slot"
    and "read_control m slot = c\<lparr>cb_params_base := pb, cb_params_size := ps\<rparr>"
    and "read_params_header m pb = h" "pb \<noteq> 0" "sizeof_params_header \<le> ps"
    and "ph_magic h = kPlcSlotParamsMagicV1" "ph_version h = kPlcRuntimeAbiV1Version"
    and "sizeof_params_header \<le> ucast (ph_payload_size h)" "ucast (ph_payload_size h) \<le> ps"
  shows "readSlotParamsHeader slot m = Some h"
  using assms by (simp add: readSlotParamsHeader_def Let_def not_le not_less)

text \<open>
  C34: Parameters written to a loaded slot are found again: when the buffer starts with a
  valid header of at least 16 bytes whose payload size fits, \<open>writeSlotParams\<close> succeeds and
  \<open>readSlotParamsHeader\<close> returns that header; the manifest takes its load epoch, and the
  control block keeps everything else. A slot other than this one is not touched.
\<close>
theorem params_roundtrip:
  assumes slot: "slot < kPlcSlotCountV1"
    and loaded: "cb_magic (read_control m slot) = kPlcProgramControlBlockMagicV1"
      "cb_slot_id (read_control m slot) = slot"
    and sz: "sizeof_params_header \<le> params_size" "unat params_size \<le> 256"
      "unat params_size \<le> length bs"
    and h: "h = params_header_of_words (words_of_bytes bs 4)"
      "ph_magic h = kPlcSlotParamsMagicV1" "ph_version h = kPlcRuntimeAbiV1Version"
      "sizeof_params_header \<le> ucast (ph_payload_size h)" "ucast (ph_payload_size h) \<le> params_size"
  shows "let (ok, m') = writeSlotParams slot (Some bs) params_size m in
     ok \<and> readSlotParamsHeader slot m' = Some h \<and>
     sm_load_epoch (read_manifest m' slot) = ph_load_epoch h \<and>
     read_control m' slot =
       (read_control m slot)\<lparr>cb_params_base := sl_params_base (slotLayout slot),
                             cb_params_size := params_size\<rparr> \<and>
     (\<forall>r s. s < kPlcSlotCountV1 \<longrightarrow> per_slot r \<and> s \<noteq> slot \<longrightarrow>
        region_read m' r s = region_read m r s)"
proof -
  let ?m1 = "params_written slot bs params_size m"
  let ?m2 = "mem_write ?m1 (region_base RHeader slot + of_nat (4 * 8)) (le32 params_size)"
  let ?m3 = "mem_write ?m2 (region_base RManifest slot + of_nat (4 * 11))
    (le32 (region_base RParams slot))"
  let ?m4 = "mem_write ?m3 (region_base RManifest slot + of_nat (4 * 12)) (le32 params_size)"
  let ?m5 = "mem_write ?m4 (region_base RManifest slot + of_nat (4 * 17)) (le32 (ph_load_epoch h))"
  let ?m6 = "mem_write ?m5 (region_base RControl slot + of_nat (4 * 16))
    (le32 (region_base RParams slot))"
  let ?m7 = "mem_write ?m6 (region_base RControl slot + of_nat (4 * 17)) (le32 params_size)"
  have w: "writeSlotParams slot (Some bs) params_size m = (True, ?m7)"
    using writeSlotParams_regions [OF slot sz(1,2), of bs m] h
    by (simp add: params_epoch_written_def Let_def)
  have len: "length (take (unat params_size) bs) \<le> 256" using sz by simp
  have frame1: "region_read ?m1 r s = region_read m r s"
    if "s < kPlcSlotCountV1" "other_region r s RParams slot" for r s
    unfolding params_written_def
    using that slot len by (simp add: region_frames del: region_base.simps)
  have frame: "region_read ?m7 r s = region_read ?m1 r s"
    if "s < kPlcSlotCountV1" "other_region r s RHeader slot" "other_region r s RManifest slot"
      "other_region r s RControl slot" for r s
    using that slot by (simp only: region_field_frame region_size.simps)
  have distinct: "other_region RControl slot RHeader slot" "other_region RControl slot RManifest slot"
    "other_region RManifest slot RControl slot"
    by (simp_all add: other_region_def)
  have ctl1: "read_words ?m5 (region_base RControl slot) 18 =
      read_words m (region_base RControl slot) 18"
  proof -
    have "region_read ?m5 RControl slot = region_read ?m1 RControl slot"
      using slot distinct by (simp only: region_field_frame region_size.simps)
    also have "\<dots> = region_read m RControl slot"
      using slot by (intro frame1) (simp_all add: other_region_def)
    finally show ?thesis by (rule region_words_cong) simp
  qed
  have ctl: "read_words ?m7 (region_base RControl slot) 18 =
     (read_words m (region_base RControl slot) 18)[16 := region_base RParams slot, 17 := params_size]"
    using slot
    by (simp only: region_words_update ctl1 region_size.simps)
  have control: "read_control ?m7 slot =
       (read_control m slot)\<lparr>cb_params_base := sl_params_base (slotLayout slot),
                             cb_params_size := params_size\<rparr>"
    using ctl by (simp add: read_control_def control_of_words_def read_words_def)
  have par: "region_read ?m7 RParams slot = region_read ?m1 RParams slot"
    using slot by (intro frame) (simp_all add: other_region_def)
  have "read_words ?m7 (region_base RParams slot) 4 = read_words ?m1 (region_base RParams slot) 4"
    using par by (rule region_words_cong) simp
  also have "\<dots> = words_of_bytes (take (unat params_size) bs) 4"
    unfolding params_written_def
    using sz by (intro words_of_bytes_read) (auto simp: sizeof_params_header_def word_le_nat_alt)
  also have "\<dots> = words_of_bytes bs 4"
    using sz by (simp add: words_of_bytes_def sizeof_params_header_def word_le_nat_alt)
  finally have header: "read_params_header ?m7 (sl_params_base (slotLayout slot)) = h"
    using h(1) by (simp add: read_params_header_def)
  have base: "sl_params_base (slotLayout slot) \<noteq> 0"
    using slot_layout_unat(5) [OF slot] by auto
  have rd: "readSlotParamsHeader slot ?m7 = Some h"
    by (rule readSlotParamsHeader_finds [OF slot loaded control header base sz(1) h(2-)])
  have man: "sm_load_epoch (read_manifest ?m7 slot) = ph_load_epoch h"
  proof -
    have "region_read ?m7 RManifest slot = region_read ?m5 RManifest slot"
      using slot distinct by (simp only: region_field_frame region_size.simps)
    then have "read_words ?m7 (region_base RManifest slot) 18 =
        read_words ?m5 (region_base RManifest slot) 18"
      by (rule region_words_cong) simp
    also have "\<dots> ! 17 = ph_load_epoch h"
      using slot by (subst region_words_update) (simp_all add: read_words_def)
    finally show ?thesis by (simp add: read_manifest_def manifest_of_words_def)
  qed
  have others: "region_read ?m7 r s = region_read m r s"
    if "s < kPlcSlotCountV1" "per_slot r \<and> s \<noteq> slot" for r s
    using frame [of s r] frame1 [of s r] that by (simp add: other_region_def)
  show ?thesis using rd man control others by (simp add: w)
qed


text \<open>The bytes of a 16-byte parameter block of load epoch 9.\<close>

definition sample_params :: "u8 list" where
  "sample_params = words_bytes
     [kPlcSlotParamsMagicV1, ucast kPlcRuntimeAbiV1Version + 0x20000, 16, 9]"

lemma params_roundtrip_witness:
  "let m = writeLoadedSlotMetadata 3 (slotManifestAddress 3) (slotControlAddress 3) (slotLayout 3)
        40 0 1 2 100 500 kPlcRuntimeHeaderAddr 7 99 (\<lambda>_. 0);
     (ok, m') = writeSlotParams 3 (Some sample_params) 16 m
   in ok \<and> map_option ph_load_epoch (readSlotParamsHeader 3 m') = Some 9"
proof -
  let ?m = "writeLoadedSlotMetadata 3 (slotManifestAddress 3) (slotControlAddress 3) (slotLayout 3)
        40 0 1 2 100 500 kPlcRuntimeHeaderAddr 7 99 (\<lambda>_. 0)"
  have c: "read_control ?m 3 = loaded_control 3 (slotLayout 3) 40 0 100 500"
    using metadata_readback [of 3 40 0 1 2 100 500 kPlcRuntimeHeaderAddr 7 99 "\<lambda>_. 0"]
    by (simp add: Let_def kPlcSlotCountV1_def)
  let ?h = "params_header_of_words (words_of_bytes sample_params 4)"
  have h: "ph_magic ?h = kPlcSlotParamsMagicV1" "ph_version ?h = kPlcRuntimeAbiV1Version"
    "ph_payload_size ?h = 16" "ph_load_epoch ?h = 9" "length sample_params = 16"
    by code_simp+
  have "let (ok, m') = writeSlotParams 3 (Some sample_params) 16 ?m in
     ok \<and> readSlotParamsHeader 3 m' = Some ?h"
    using params_roundtrip [of 3 ?m 16 sample_params ?h] h
    by (simp add: c loaded_control_def kPlcSlotCountV1_def sizeof_params_header_def
        split: prod.splits)
  then show ?thesis using h(4) by (auto split: prod.splits simp: Let_def)
qed

section \<open>Object snapshots read back\<close>

lemma mem_read_chunk:
  "i + k \<le> n \<Longrightarrow> mem_read m (a + of_nat i) k = take k (drop i (mem_read m a n))"
  by (rule nth_equalityI) (simp_all add: add.assoc)

lemma snapshot_read:
  assumes "slot < kPlcSlotCountV1"
  shows "read_snapshot (write_words m (slotObjectSnapshotHeaderAddress slot) (snapshot_words h)) slot = h"
  unfolding read_snapshot_def
  by (subst read_write_words) (simp_all add: struct_roundtrips metadata_words_length)

lemma snapshot_chunk_read:
  assumes slot: "slot < kPlcSlotCountV1"
    and n: "object_header_size \<le> n" "n \<le> slotObjectSnapshotCapacity"
    and rs: "read_snapshot m' slot = snapshot_header slot n checksum"
    and data: "mem_read m' (slotObjectSnapshotDataAddress slot) (unat n) = obj"
  shows "readObjectFileSnapshotChunk slot off cap m' =
    (if off > n then None else Some (take (unat cap) (drop (unat off) obj), n, checksum))"
proof (cases "off > n")
  case True
  then show ?thesis
    using slot rs by (simp add: readObjectFileSnapshotChunk_def snapshot_header_def)
next
  case False
  define k where "k = (if n - off > cap then cap else n - off)"
  have u: "unat (n - off) = unat n - unat off" using False by (simp add: unat_sub)
  have k: "unat off + unat k \<le> unat n"
    using False u by (auto simp: k_def word_less_nat_alt word_le_nat_alt not_less)
  have len: "length obj = unat n" using data by auto
  have "mem_read m' (slotObjectSnapshotDataAddress slot + off) (unat k) =
      take (unat k) (drop (unat off) obj)"
    using mem_read_chunk [OF k, of m' "slotObjectSnapshotDataAddress slot"] data by simp
  also have "\<dots> = take (unat cap) (drop (unat off) obj)"
    using u len by (auto simp: k_def word_less_nat_alt not_less)
  finally show ?thesis
    using False slot n rs
    by (simp add: readObjectFileSnapshotChunk_def Let_def snapshot_header_def
        objectSnapshotHeaderValid_def k_def)
qed

text \<open>
  C33: An object file staged in the snapshot area of a slot is read back in chunks: after
  \<open>writeObjectFileSnapshot\<close> has accepted it, a chunk at any offset up to its size holds
  exactly the file's bytes from there, cut to the caller's capacity, with the file's size
  and checksum; an offset past the end is refused.
\<close>
theorem snapshot_roundtrip:
  assumes slot: "slot < kPlcSlotCountV1"
    and src: "bytes \<noteq> 0" "bytes = slotObjectSnapshotDataAddress slot \<or>
        apart bytes (unat n) (slotObjectSnapshotDataAddress slot) (unat n)"
    and n: "object_header_size \<le> n" "n \<le> slotObjectSnapshotCapacity"
  shows "let (ok, m') = writeObjectFileSnapshot slot bytes n m;
       obj = mem_read m bytes (unat n)
     in ok \<and>
        readObjectFileSnapshotChunk slot off cap m' =
          (if off > n then None
           else Some (take (unat cap) (drop (unat off) obj), n, fnv1a 2166136261 obj))"
proof -
  let ?data = "slotObjectSnapshotDataAddress slot" and ?hd = "slotObjectSnapshotHeaderAddress slot"
  let ?obj = "mem_read m bytes (unat n)"
  define m1 where "m1 = (if ?data \<noteq> bytes then mem_write m ?data ?obj else m)"
  have m1_data: "mem_read m1 ?data (unat n) = ?obj"
    unfolding m1_def using mem_read_write_same [of ?obj m ?data] unsigned_less [of n, where ?'a = nat] by simp
  have m1_src: "mem_read m1 bytes (unat n) = ?obj"
    using src(2) m1_data unfolding m1_def by (auto simp: mem_read_write_apart)
  define h where "h = snapshot_header slot n (fnv1a 2166136261 ?obj)"
  define m' where "m' = write_words m1 ?hd (snapshot_words h)"
  have w: "writeObjectFileSnapshot slot bytes n m = (True, m')"
    using slot src(1) n m1_src
    by (simp add: writeObjectFileSnapshot_def Let_def loader_checksum32_def not_le not_less
        m1_def m'_def h_def)
  have rs: "read_snapshot m' slot = h" unfolding m'_def by (rule snapshot_read [OF slot])
  have "unat n \<le> region_size RSnapshotData"
    using n(2) by (simp add: slotObjectSnapshotCapacity_def layout_defs word_le_nat_alt)
  moreover have "apart ?data (region_size RSnapshotData) ?hd (region_size RSnapshotHeader)"
    using regions_apart [OF slot slot, of RSnapshotData RSnapshotHeader] by simp
  ultimately have "apart ?data (unat n) ?hd 20"
    by (elim apart_mono) simp_all
  then have data: "mem_read m' ?data (unat n) = ?obj"
    unfolding m'_def using m1_data by (subst write_words_apart) (simp_all add: metadata_words_length)
  have "readObjectFileSnapshotChunk slot off cap m' =
          (if off > n then None
           else Some (take (unat cap) (drop (unat off) ?obj), n, fnv1a 2166136261 ?obj))"
    by (rule snapshot_chunk_read [OF slot n _ data]) (simp add: rs h_def)
  then show ?thesis by (simp add: w)
qed

lemma snapshot_roundtrip_witness:
  "let (ok, m') = writeObjectFileSnapshot 2 0x100 60 (\<lambda>a. ucast a);
       obj = mem_read (\<lambda>a. ucast a) 0x100 60
     in ok \<and> readObjectFileSnapshotChunk 2 40 16 m' =
          Some (take 16 (drop 40 obj), 60, fnv1a 2166136261 obj)"
proof -
  have slot: "2 < kPlcSlotCountV1" by (simp add: kPlcSlotCountV1_def)
  have "apart 0x100 (unat (60 :: u32)) (slotObjectSnapshotDataAddress 2) (unat (60 :: u32))"
    by (simp add: apart_def slot_base_unat [OF slot])
  then have src: "(0x100 :: u32) = slotObjectSnapshotDataAddress 2 \<or>
      apart 0x100 (unat (60 :: u32)) (slotObjectSnapshotDataAddress 2) (unat (60 :: u32))" ..
  have n: "object_header_size \<le> 60" "60 \<le> slotObjectSnapshotCapacity"
    by (simp_all add: object_header_size_def slotObjectSnapshotCapacity_def layout_defs)
  show ?thesis
    using snapshot_roundtrip [OF slot _ src n, of "\<lambda>a. ucast a" 40 16]
    by (simp add: Let_def split: prod.splits)
qed

end
