(* ===== verification/Mmio.thy ===== *)
theory Mmio
  imports Prelude
begin

text \<open>
  Memory-mapped devices. A driver reaches its registers through a bus, a parameter of every
  operation that accesses them: what a register read returns and what an access does to the
  device is the device's business. The millisecond timer of \<open>bigsister.h\<close> is one more
  register of the same bus.
\<close>

record 'd bus =
  bus_rd :: "u32 \<Rightarrow> 'd \<Rightarrow> u32 \<times> 'd"
  bus_wr :: "u32 \<Rightarrow> u32 \<Rightarrow> 'd \<Rightarrow> 'd"

definition TIMER_MS :: u32 where "TIMER_MS = 0x10000010"

definition millis :: "'d bus \<Rightarrow> 'd \<Rightarrow> u32 \<times> 'd" where
  "millis b d = bus_rd b TIMER_MS d"

text \<open>The comparison \<open>(int32_t)(now - then) >= 0\<close> of two readings of the timer.\<close>

definition time_reached :: "u32 \<Rightarrow> u32 \<Rightarrow> bool" where
  "time_reached now deadline = (0 \<le> sint (now - deadline))"

lemma time_reached_half: "time_reached now deadline \<longleftrightarrow> unat (now - deadline) < 2 ^ 31"
proof -
  have "0 \<le> sint (now - deadline) \<longleftrightarrow> \<not> bit (now - deadline) 31"
    by (simp add: sint_uint not_less signed_take_bit_nonnegative_iff bit_uint_iff)
  also have "\<dots> \<longleftrightarrow> unat (now - deadline) < 2 ^ 31"
  proof -
    have "bit (now - deadline) 31 \<longleftrightarrow> odd (unat (now - deadline) div 2 ^ 31)"
      by (rule sign_bit_unat)
    moreover have "unat (now - deadline) div 2 ^ 31 < 2"
      using unat_u32_lt [of "now - deadline"] by simp
    ultimately show ?thesis by (auto simp: less_2_cases_iff div_eq_0_iff)
  qed
  finally show ?thesis by (simp add: time_reached_def)
qed

text \<open>Two points in time less than half the range of the timer apart.\<close>

lemma time_reached_of_nat:
  assumes "t' \<le> t" "t - t' < 2 ^ 31"
  shows "time_reached (of_nat t) (of_nat t')"
proof -
  have "(of_nat t - of_nat t' :: u32) = of_nat (t - t')" using assms(1) by (simp add: of_nat_diff)
  then show ?thesis using assms(2) by (simp add: time_reached_half unat_of_nat)
qed

lemma not_time_reached_of_nat:
  assumes "t < t'" "t' - t \<le> 2 ^ 31"
  shows "\<not> time_reached (of_nat t) (of_nat t')"
proof -
  let ?w = "of_nat (t' - t) :: u32"
  have "(of_nat t - of_nat t' :: u32) = 0 - ?w" using assms(1) by (simp add: of_nat_diff)
  moreover have w: "unat ?w = t' - t" using assms(2) by (simp add: unat_of_nat)
  ultimately have "unat (of_nat t - of_nat t' :: u32) = 2 ^ 32 - (t' - t)"
    using assms(1) by (simp only: unat_sub_if') simp
  then show ?thesis using assms(2) by (simp add: time_reached_half)
qed

section \<open>A bus on which time passes\<close>

text \<open>
  What the waiting loops rely on: the CPU runs at \<open>BIGSISTER_CPU_HZ\<close>, every register read
  takes at least one cycle and at most a millisecond, and the timer register shows the
  milliseconds of the cycles since boot.
\<close>

definition kCyclesPerMs :: nat where "kCyclesPerMs = 25000"

locale ticking_bus =
  fixes b :: "'d bus" and cycles :: "'d \<Rightarrow> nat"
  assumes read_ticks: "cycles d < cycles (snd (bus_rd b a d))"
    and read_bounded: "cycles (snd (bus_rd b a d)) \<le> cycles d + kCyclesPerMs"
    and timer: "fst (bus_rd b TIMER_MS d) =
      of_nat (cycles (snd (bus_rd b TIMER_MS d)) div kCyclesPerMs)"
begin

lemma millis_reading:
  assumes "millis b d = (now, d')"
  shows "now = of_nat (cycles d' div kCyclesPerMs)" "cycles d < cycles d'"
    "cycles d' \<le> cycles d + kCyclesPerMs"
  using assms timer [of d] read_ticks [of d TIMER_MS] read_bounded [of TIMER_MS d]
  by (simp_all add: millis_def)

end

end
