(* ===== verification/Flash.thy ===== *)
theory Flash
  imports SlotMetadata Mmio
begin

unbundle bit_operations_syntax

text \<open>
  The SPI flash driver (\<open>flash.h\<close>, \<open>flash.cpp\<close>). The memory-mapped registers are reached
  through a bus, a parameter of every operation: what a register read returns and what an
  access does to the device is the device's business. The driver's own state is the device
  state and the two static variables of the translation unit. The build flag
  \<open>FLASH_ALLOW_RESERVED_READS\<close> is the argument \<open>reserved_reads\<close>. The second half gives the
  register-level view of the repository's controller \<open>wb_flash.sv\<close> with the NOR array
  behind it, on which the driver's contracts are proved.
\<close>

section \<open>Registers and constants\<close>

definition kFlashSize :: u32 where "kFlashSize = 8 * 1024 * 1024"
definition kPageSize :: u32 where "kPageSize = 256"
definition kSectorSize :: u32 where "kSectorSize = 4096"
definition kBootBase :: u32 where "kBootBase = 0"
definition kBootSize :: u32 where "kBootSize = 2 * 1024 * 1024"
definition kFirmwareSlotBase :: u32 where "kFirmwareSlotBase = 0x244000"
definition kRuntimeDataBase :: u32 where "kRuntimeDataBase = kBootBase + kBootSize"
definition kRuntimeDataEnd :: u32 where "kRuntimeDataEnd = kFirmwareSlotBase"
definition kParamBase :: u32 where "kParamBase = 0x200000"
definition kParamSize :: u32 where "kParamSize = 16 * 1024"
definition kParamEnd :: u32 where "kParamEnd = kParamBase + kParamSize"
definition kRuntimeTestSectorBase :: u32 where
  "kRuntimeTestSectorBase = kRuntimeDataEnd - kSectorSize"

definition kRegStatus :: u32 where "kRegStatus = 0x00"
definition kRegControl :: u32 where "kRegControl = 0x04"
definition kRegAddress :: u32 where "kRegAddress = 0x08"
definition kRegData :: u32 where "kRegData = 0x0C"
definition kCtrlRead :: u32 where "kCtrlRead = 1"
definition kCtrlWrite :: u32 where "kCtrlWrite = 2"
definition kCtrlErase :: u32 where "kCtrlErase = 4"
definition kCtrlUid :: u32 where "kCtrlUid = 8"
definition kStatBusy :: u32 where "kStatBusy = 1"
definition kStatTimeoutError :: u32 where "kStatTimeoutError = 4"
definition kStatPageBufferOverflow :: u32 where "kStatPageBufferOverflow = 16"
definition kTimeoutCycles :: nat where "kTimeoutCycles = 8000000"

lemmas flash_consts =
  kFlashSize_def kPageSize_def kSectorSize_def kBootBase_def kBootSize_def kFirmwareSlotBase_def
  kRuntimeDataBase_def kRuntimeDataEnd_def kParamBase_def kParamSize_def kParamEnd_def
  kRuntimeTestSectorBase_def

lemmas flash_regs =
  kRegStatus_def kRegControl_def kRegAddress_def kRegData_def kCtrlRead_def kCtrlWrite_def
  kCtrlErase_def kCtrlUid_def kStatBusy_def kStatTimeoutError_def kStatPageBufferOverflow_def

section \<open>The driver\<close>

record 'd flash =
  fl_dev :: 'd
  fl_last_error :: u32
  fl_last_status :: u32

definition reg_read :: "'d bus \<Rightarrow> u32 \<Rightarrow> u32 \<Rightarrow> 'd flash \<Rightarrow> u32 \<times> 'd flash" where
  "reg_read b base off f =
     (let (v, d) = bus_rd b (base + off) (fl_dev f) in (v, f\<lparr>fl_dev := d\<rparr>))"

definition reg_write :: "'d bus \<Rightarrow> u32 \<Rightarrow> u32 \<Rightarrow> u32 \<Rightarrow> 'd flash \<Rightarrow> 'd flash" where
  "reg_write b base off v f = f\<lparr>fl_dev := bus_wr b (base + off) v (fl_dev f)\<rparr>"

definition isSafeReadAddress :: "bool \<Rightarrow> u32 \<Rightarrow> bool" where
  "isSafeReadAddress reserved_reads a =
     (if reserved_reads then a < kFlashSize
      else a \<ge> kRuntimeDataBase \<and> a < kRuntimeDataEnd)"

definition isSafeWriteAddress :: "u32 \<Rightarrow> bool" where
  "isSafeWriteAddress a = (a \<ge> kRuntimeDataBase \<and> a < kRuntimeDataEnd)"

text \<open>
  The inner loop of \<open>waitReady\<close> with its countdown: it ends with the device ready, with an
  error cleared, or with the countdown at zero.
\<close>

datatype wait_outcome = WaitReady | WaitCleared | WaitExpired

fun wait_poll :: "'d bus \<Rightarrow> u32 \<Rightarrow> nat \<Rightarrow> 'd flash \<Rightarrow> wait_outcome \<times> 'd flash" where
  "wait_poll b base 0 f = (WaitExpired, f)"
| "wait_poll b base (Suc timeout) f =
     (let (status, f1) = reg_read b base kRegStatus f;
          busy = (status AND kStatBusy \<noteq> 0);
          had_error = (status AND (kStatTimeoutError OR kStatPageBufferOverflow) \<noteq> 0)
      in if \<not> had_error \<and> \<not> busy then (WaitReady, f1)
         else if had_error \<and> \<not> busy then (WaitCleared, reg_write b base kRegControl 0 f1)
         else wait_poll b base timeout f1)"

fun wait_rounds :: "'d bus \<Rightarrow> u32 \<Rightarrow> nat \<Rightarrow> 'd flash \<Rightarrow> bool \<times> 'd flash" where
  "wait_rounds b base 0 f = (False, f)"
| "wait_rounds b base (Suc recover) f =
     (case wait_poll b base kTimeoutCycles f of
        (WaitReady, f1) \<Rightarrow> (True, f1)
      | (_, f1) \<Rightarrow> wait_rounds b base recover f1)"

definition waitReady :: "'d bus \<Rightarrow> u32 \<Rightarrow> 'd flash \<Rightarrow> bool \<times> 'd flash" where
  "waitReady b base f = wait_rounds b base 2 f"

text \<open>The loops over the data register.\<close>

fun read_data :: "'d bus \<Rightarrow> u32 \<Rightarrow> nat \<Rightarrow> 'd flash \<Rightarrow> u8 list \<times> 'd flash" where
  "read_data b base 0 f = ([], f)"
| "read_data b base (Suc n) f =
     (let (v, f1) = reg_read b base kRegData f;
          (bs, f2) = read_data b base n f1
      in (ucast v # bs, f2))"

fun write_data :: "'d bus \<Rightarrow> u32 \<Rightarrow> u8 list \<Rightarrow> 'd flash \<Rightarrow> 'd flash" where
  "write_data b base [] f = f"
| "write_data b base (x # xs) f = write_data b base xs (reg_write b base kRegData (ucast x) f)"

text \<open>A failure stores its code and a fresh status.\<close>

definition read_failed :: "'d bus \<Rightarrow> u32 \<Rightarrow> u32 \<Rightarrow> 'd flash \<Rightarrow> 'd flash" where
  "read_failed b base code f =
     (let (status, f1) = reg_read b base kRegStatus (f\<lparr>fl_last_error := code\<rparr>)
      in f1\<lparr>fl_last_status := status\<rparr>)"

text \<open>
  \<open>readPage\<close>: the page on success; \<open>out_null\<close> tells whether the caller's pointer is null.
\<close>

definition readPage ::
  "'d bus \<Rightarrow> u32 \<Rightarrow> bool \<Rightarrow> bool \<Rightarrow> u32 \<Rightarrow> 'd flash \<Rightarrow> u8 list option \<times> 'd flash" where
  "readPage b base reserved_reads out_null pageBase f =
     (let (status, f0) = reg_read b base kRegStatus (f\<lparr>fl_last_error := 0\<rparr>);
          f1 = f0\<lparr>fl_last_status := status\<rparr>
      in if out_null \<or> pageBase mod kPageSize \<noteq> 0 \<or> \<not> isSafeReadAddress reserved_reads pageBase
         then (None, read_failed b base 1 f1)
         else
           (let (ready, f2) = waitReady b base f1 in
            if \<not> ready then (None, read_failed b base 2 f2)
            else
              (let f3 = reg_write b base kRegAddress (pageBase AND 0x00FFFFFF) f2;
                   f4 = reg_write b base kRegControl kCtrlRead f3;
                   (done, f5) = waitReady b base f4
               in if \<not> done then (None, read_failed b base 3 f5)
                  else (let (bs, f6) = read_data b base (unat kPageSize) f5 in (Some bs, f6)))))"

text \<open>The caller's buffer, or \<open>None\<close> for a null pointer.\<close>

definition writePage ::
  "'d bus \<Rightarrow> u32 \<Rightarrow> u32 \<Rightarrow> u8 list option \<Rightarrow> 'd flash \<Rightarrow> bool \<times> 'd flash" where
  "writePage b base pageBase data f =
     (case data of None \<Rightarrow> (False, f)
      | Some bs \<Rightarrow>
          if pageBase mod kPageSize \<noteq> 0 \<or> \<not> isSafeWriteAddress pageBase then (False, f)
          else
            (let (ready, f1) = waitReady b base f in
             if \<not> ready then (False, f1)
             else
               (let f2 = reg_write b base kRegAddress (pageBase AND 0x00FFFFFF) f1;
                    f3 = reg_write b base kRegControl 0 f2;
                    f4 = write_data b base (map (\<lambda>i. bs ! i) [0..<unat kPageSize]) f3;
                    f5 = reg_write b base kRegControl kCtrlWrite f4
                in waitReady b base f5)))"

definition eraseSector :: "'d bus \<Rightarrow> u32 \<Rightarrow> u32 \<Rightarrow> 'd flash \<Rightarrow> bool \<times> 'd flash" where
  "eraseSector b base sectorBase f =
     (if sectorBase mod kSectorSize \<noteq> 0 \<or> \<not> isSafeWriteAddress sectorBase then (False, f)
      else
        (let (ready, f1) = waitReady b base f in
         if \<not> ready then (False, f1)
         else
           (let f2 = reg_write b base kRegAddress (sectorBase AND 0x00FFFFFF) f1;
                f3 = reg_write b base kRegControl kCtrlErase f2
            in waitReady b base f3)))"

fun clear_sectors :: "'d bus \<Rightarrow> u32 \<Rightarrow> u32 list \<Rightarrow> 'd flash \<Rightarrow> bool \<times> 'd flash" where
  "clear_sectors b base [] f = (True, f)"
| "clear_sectors b base (s # ss) f =
     (let (ok, f1) = eraseSector b base s f in
      if \<not> ok then (False, f1) else clear_sectors b base ss f1)"

definition clearAll :: "'d bus \<Rightarrow> u32 \<Rightarrow> 'd flash \<Rightarrow> bool \<times> 'd flash" where
  "clearAll b base f =
     clear_sectors b base
       (map (\<lambda>k. kParamBase + of_nat k * kSectorSize)
          [0..<unat ((kParamEnd - kParamBase) div kSectorSize)]) f"

definition readUniqueId :: "'d bus \<Rightarrow> u32 \<Rightarrow> bool \<Rightarrow> 'd flash \<Rightarrow> u8 list option \<times> 'd flash" where
  "readUniqueId b base out_null f =
     (if out_null then (None, f)
      else
        (let (ready, f1) = waitReady b base f in
         if \<not> ready then (None, f1)
         else
           (let f2 = reg_write b base kRegControl 0 f1;
                f3 = reg_write b base kRegControl kCtrlUid f2;
                (done, f4) = waitReady b base f3
            in if \<not> done then (None, f4)
               else (let (bs, f5) = read_data b base 8 f4 in (Some bs, f5)))))"

section \<open>The low-level test\<close>

text \<open>
  The comparison loop: the numbers of mismatching and of unstable bytes, cut off when
  together they reach eight.
\<close>

fun test_compare :: "u8 list \<Rightarrow> u8 list \<Rightarrow> u8 list \<Rightarrow> nat list \<Rightarrow> nat \<Rightarrow> nat \<Rightarrow> nat \<times> nat" where
  "test_compare tx rx rx2 [] mismatches unstable = (mismatches, unstable)"
| "test_compare tx rx rx2 (i # is) mismatches unstable =
     (let mismatches' = (if rx ! i \<noteq> tx ! i then mismatches + 1 else mismatches);
          unstable' = (if rx ! i \<noteq> rx2 ! i then unstable + 1 else unstable)
      in if mismatches' + unstable' \<ge> 8 then (mismatches', unstable')
         else test_compare tx rx rx2 is mismatches' unstable')"

definition test_pattern :: "u8 list" where
  "test_pattern = map (\<lambda>i. of_nat i XOR 0xA5) [0..<unat kPageSize]"

text \<open>The result, with the line numbers given to the callback.\<close>

definition lowLevelTest :: "'d bus \<Rightarrow> u32 \<Rightarrow> bool \<Rightarrow> 'd flash \<Rightarrow> bool \<times> nat list \<times> 'd flash" where
  "lowLevelTest b base reserved_reads f =
     (let (ready, f1) = waitReady b base f in
      if \<not> ready then (False, [0, 1], f1)
      else
        (let (erased, f2) = eraseSector b base kRuntimeTestSectorBase f1 in
         if \<not> erased then (False, [0, 2, 3], f2)
         else
           (let (rx, f3) = readPage b base reserved_reads False kRuntimeTestSectorBase f2 in
            case rx of None \<Rightarrow> (False, [0, 2, 4, 5], f3)
            | Some bs0 \<Rightarrow>
                if \<exists>i\<in>set [0..<unat kPageSize]. bs0 ! i \<noteq> 0xFF then (False, [0, 2, 4, 6], f3)
                else
                  (let (written, f4) =
                         writePage b base kRuntimeTestSectorBase (Some test_pattern) f3 in
                   if \<not> written then (False, [0, 2, 4, 7, 8], f4)
                   else
                     (let (rx1, f5) = readPage b base reserved_reads False kRuntimeTestSectorBase f4
                      in case rx1 of None \<Rightarrow> (False, [0, 2, 4, 7, 9, 10], f5)
                         | Some bs1 \<Rightarrow>
                             (let (rx2, f6) =
                                    readPage b base reserved_reads False kRuntimeTestSectorBase f5
                              in case rx2 of None \<Rightarrow> (False, [0, 2, 4, 7, 9, 10], f6)
                                 | Some bs2 \<Rightarrow>
                                     (let (mm, un) = test_compare test_pattern bs1 bs2
                                            [0..<unat kPageSize] 0 0
                                      in (mm = 0 \<and> un = 0, [0, 2, 4, 7, 9, 11], f6))))))))"

section \<open>The unique identifier as text\<close>

definition kBase62Alphabet :: "u8 list" where
  "kBase62Alphabet = lit ''abcdefghijklmnopqrstuvwxyzABCDEFGHIJKLMNOPQRSTUVWXYZ0123456789''"

text \<open>The digits, least significant first; the code stores them from the end of its buffer.\<close>

fun base62_digits :: "nat \<Rightarrow> 64 word \<Rightarrow> u8 list" where
  "base62_digits 0 uid = []"
| "base62_digits (Suc n) uid = kBase62Alphabet ! unat (uid mod 62) # base62_digits n (uid div 62)"

text \<open>The bytes written to a non-null buffer of \<open>out_size\<close> bytes.\<close>

definition uniqueIdToAscii :: "64 word \<Rightarrow> nat \<Rightarrow> u8 list" where
  "uniqueIdToAscii uid out_size =
     (if out_size = 0 then []
      else if out_size < 12 then [0]
      else rev (base62_digits 11 uid) @ [0])"

definition uid_of_bytes :: "u8 list \<Rightarrow> 64 word" where
  "uid_of_bytes bs = fold (\<lambda>i uid. push_bit 8 uid OR ucast (bs ! i)) [0..<8] 0"

definition readUniqueIdAscii ::
  "'d bus \<Rightarrow> u32 \<Rightarrow> bool \<Rightarrow> nat \<Rightarrow> 'd flash \<Rightarrow> bool \<times> u8 list \<times> 'd flash" where
  "readUniqueIdAscii b base out_null out_size f =
     (if out_null \<or> out_size = 0 then (False, [], f)
      else
        (let (uid8, f1) = readUniqueId b base False f in
         case uid8 of None \<Rightarrow> (False, [0], f1)
         | Some bs \<Rightarrow>
             (let out = uniqueIdToAscii (uid_of_bytes bs) out_size
              in (out ! 0 \<noteq> 0, out, f1))))"

lemma base62_alphabet: "length kBase62Alphabet = 62" "distinct kBase62Alphabet" "0 \<notin> set kBase62Alphabet"
  by code_simp+

lemma base62_digits_inj:
  assumes "base62_digits n u = base62_digits n v" and "unat u < 62 ^ n" and "unat v < 62 ^ n"
  shows "u = v"
  using assms
proof (induction n arbitrary: u v)
  case 0
  then show ?case by (simp add: word_unat_eq_iff)
next
  case (Suc n)
  have m: "unat (w mod 62) = unat w mod 62" "unat (w div 62) = unat w div 62" for w :: "64 word"
    by (simp_all add: unat_mod unat_div)
  have "kBase62Alphabet ! (unat u mod 62) = kBase62Alphabet ! (unat v mod 62)"
    using Suc.prems(1) by (simp add: m)
  then have r: "unat u mod 62 = unat v mod 62"
    using base62_alphabet(1,2) by (simp add: nth_eq_iff_index_eq)
  have "u div 62 = v div 62"
    using Suc.prems by (intro Suc.IH) (simp_all add: m div_less_iff_less_mult mult.commute)
  then have "unat u div 62 = unat v div 62" using m(2) by metis
  with r have "unat u = unat v" by (metis div_mult_mod_eq)
  then show ?case by (simp add: word_unat_eq_iff)
qed

lemma base62_digits_set: "x \<in> set (base62_digits n u) \<Longrightarrow> x \<in> set kBase62Alphabet"
proof (induction n arbitrary: u)
  case (Suc n)
  have "unat (u mod 62) < 62" by (simp add: unat_mod)
  then have "kBase62Alphabet ! unat (u mod 62) \<in> set kBase62Alphabet"
    by (simp add: base62_alphabet(1))
  with Suc show ?case by auto
qed simp

lemma length_base62_digits [simp]: "length (base62_digits n u) = n"
  by (induction n arbitrary: u) simp_all

text \<open>
  The text of a 64-bit unique identifier is eleven characters of the alphabet and a
  NUL, and two different identifiers have different texts: eleven base-62 digits hold
  every 64-bit value.
\<close>
theorem uid_text_injective:
  "length (uniqueIdToAscii u 12) = 12 \<and> uniqueIdToAscii u 12 ! 11 = 0 \<and>
   set (take 11 (uniqueIdToAscii u 12)) \<subseteq> set kBase62Alphabet \<and>
   0 \<notin> set (take 11 (uniqueIdToAscii u 12)) \<and>
   (uniqueIdToAscii u 12 = uniqueIdToAscii v 12 \<longleftrightarrow> u = v)"
proof -
  have "unat w < 62 ^ 11" for w :: "64 word"
    using unsigned_less [of w, where ?'a = nat] by simp
  then have "base62_digits 11 u = base62_digits 11 v \<Longrightarrow> u = v"
    by (intro base62_digits_inj)
  moreover have "set (base62_digits 11 u) \<subseteq> set kBase62Alphabet"
    using base62_digits_set by blast
  ultimately show ?thesis
    using base62_alphabet(3) by (auto simp: uniqueIdToAscii_def nth_append)
qed

section \<open>What the driver may do to the chip\<close>

text \<open>
  A logging bus: the device together with every register write so far, newest first.
\<close>

type_synonym 'd logged = "'d \<times> (u32 \<times> u32) list"

definition logging :: "'d bus \<Rightarrow> 'd logged bus" where
  "logging b =
     \<lparr>bus_rd = (\<lambda>a (d, l). let (v, d') = bus_rd b a d in (v, d', l)),
      bus_wr = (\<lambda>a v (d, l). (bus_wr b a v d, (a, v) # l))\<rparr>"

text \<open>The address register after a log of writes, if it was written.\<close>

fun last_address :: "u32 \<Rightarrow> (u32 \<times> u32) list \<Rightarrow> u32 option" where
  "last_address base [] = None"
| "last_address base ((a, v) # l) = (if a = base + kRegAddress then Some v else last_address base l)"

text \<open>
  Every command that programs or erases goes to an address the driver wrote last and
  that is aligned and lies in the runtime data window.
\<close>

definition command_ok :: "u32 \<Rightarrow> u32 option \<Rightarrow> bool" where
  "command_ok v addr =
     (v AND (kCtrlWrite OR kCtrlErase) \<noteq> 0 \<longrightarrow>
      (case addr of None \<Rightarrow> False
       | Some a \<Rightarrow> kRuntimeDataBase \<le> a \<and> a < kRuntimeDataEnd \<and> a mod kPageSize = 0 \<and>
                   (v AND kCtrlErase \<noteq> 0 \<longrightarrow> a mod kSectorSize = 0)))"

fun log_ok :: "u32 \<Rightarrow> (u32 \<times> u32) list \<Rightarrow> bool" where
  "log_ok base [] = True"
| "log_ok base ((a, v) # l) =
     ((a = base + kRegControl \<longrightarrow> command_ok v (last_address base l)) \<and> log_ok base l)"

abbreviation flash_log :: "'d logged flash \<Rightarrow> (u32 \<times> u32) list" where
  "flash_log f \<equiv> snd (fl_dev f)"

text \<open>A step that only reads, or writes zero to the control register, keeps the log good.\<close>

definition quiet :: "u32 \<Rightarrow> 'd logged flash \<Rightarrow> 'd logged flash \<Rightarrow> bool" where
  "quiet base f g \<longleftrightarrow>
     log_ok base (flash_log f) \<longrightarrow>
       log_ok base (flash_log g) \<and>
       last_address base (flash_log g) = last_address base (flash_log f)"

lemma quiet_refl [intro]: "quiet base f f"
  by (simp add: quiet_def)

lemma quiet_trans [trans]: "quiet base f g \<Longrightarrow> quiet base g h \<Longrightarrow> quiet base f h"
  by (auto simp: quiet_def)

lemma reg_read_quiet: "quiet base f (snd (reg_read (logging b) base off f))"
  by (cases "fl_dev f") (auto simp: quiet_def reg_read_def logging_def split: prod.splits)

lemma reg_distinct [simp]:
  "kRegControl \<noteq> kRegAddress" "kRegAddress \<noteq> kRegControl" "kRegData \<noteq> kRegAddress"
  "kRegAddress \<noteq> kRegData" "kRegData \<noteq> kRegControl" "kRegControl \<noteq> kRegData"
  by (simp_all add: flash_regs)

lemma reg_write_log: "flash_log (reg_write (logging b) base off v f) = (base + off, v) # flash_log f"
  by (cases "fl_dev f") (simp add: reg_write_def logging_def)

lemma harmless_write_quiet:
  assumes "off = kRegData \<or> off = kRegControl \<and> v AND (kCtrlWrite OR kCtrlErase) = 0"
  shows "quiet base f (reg_write (logging b) base off v f)"
  using assms by (auto simp: quiet_def reg_write_log command_ok_def)

lemma update_quiet:
  "quiet base f (f\<lparr>fl_last_error := e\<rparr>)" "quiet base f (f\<lparr>fl_last_status := s\<rparr>)"
  by (simp_all add: quiet_def)

lemma wait_poll_quiet: "quiet base f (snd (wait_poll (logging b) base n f))"
proof (induction n arbitrary: f)
  case (Suc n)
  obtain s g where r: "reg_read (logging b) base kRegStatus f = (s, g)" by fastforce
  have g: "quiet base f g" using reg_read_quiet [of base f b kRegStatus] by (simp add: r)
  also have "quiet base g (reg_write (logging b) base kRegControl 0 g)"
    by (rule harmless_write_quiet) simp
  finally show ?case
    using g Suc [of g] by (auto simp: r Let_def intro: quiet_trans)
qed (simp add: quiet_refl)

lemma wait_rounds_quiet: "quiet base f (snd (wait_rounds (logging b) base n f))"
proof (induction n arbitrary: f)
  case (Suc n)
  obtain oc g where r: "wait_poll (logging b) base kTimeoutCycles f = (oc, g)" by fastforce
  have "quiet base f g" using wait_poll_quiet [of base f b kTimeoutCycles] by (simp add: r)
  then show ?case
    using Suc [of g] by (cases oc) (auto simp: r intro: quiet_trans)
qed (simp add: quiet_refl)

lemma waitReady_quiet: "waitReady (logging b) base f = (ok, g) \<Longrightarrow> quiet base f g"
  using wait_rounds_quiet [of base f b 2] by (simp add: waitReady_def)

lemma read_data_quiet: "quiet base f (snd (read_data (logging b) base n f))"
proof (induction n arbitrary: f)
  case (Suc n)
  show ?case
    using reg_read_quiet [of base f b kRegData] Suc [of "snd (reg_read (logging b) base kRegData f)"]
    by (auto split: prod.splits intro: quiet_trans)
qed (simp add: quiet_refl)

lemma write_data_quiet: "quiet base f (write_data (logging b) base bs f)"
proof (induction bs arbitrary: f)
  case (Cons x xs)
  show ?case
    using harmless_write_quiet [of kRegData "ucast x" base f b]
      Cons [of "reg_write (logging b) base kRegData (ucast x) f"]
    by (auto intro: quiet_trans)
qed (simp add: quiet_refl)

lemma read_failed_quiet: "quiet base f (read_failed (logging b) base code f)"
proof -
  let ?f = "f\<lparr>fl_last_error := code\<rparr>"
  obtain v g where r: "reg_read (logging b) base kRegStatus ?f = (v, g)" by fastforce
  have "quiet base f ?f" by (rule update_quiet)
  also have "quiet base ?f g" using reg_read_quiet [of base ?f b kRegStatus] by (simp add: r)
  also have "quiet base g (g\<lparr>fl_last_status := v\<rparr>)" by (rule update_quiet)
  finally show ?thesis by (simp add: read_failed_def r)
qed

text \<open>Operations that keep the log good.\<close>

definition keeps_log :: "u32 \<Rightarrow> 'd logged flash \<Rightarrow> 'd logged flash \<Rightarrow> bool" where
  "keeps_log base f g = (log_ok base (flash_log f) \<longrightarrow> log_ok base (flash_log g))"

lemma keeps_refl [intro]: "keeps_log base f f"
  by (simp add: keeps_log_def)

lemma keeps_trans [trans]: "keeps_log base f g \<Longrightarrow> keeps_log base g h \<Longrightarrow> keeps_log base f h"
  by (simp add: keeps_log_def)

lemma quiet_keeps: "quiet base f g \<Longrightarrow> keeps_log base f g"
  by (simp add: quiet_def keeps_log_def)

lemma address_then_command:
  assumes "quiet base (reg_write (logging b) base kRegAddress a f) g"
    and "command_ok v (Some a)"
  shows "keeps_log base f (reg_write (logging b) base kRegControl v g)"
  using assms by (auto simp: keeps_log_def quiet_def reg_write_log)

lemma address_mask:
  assumes "a < kFlashSize"
  shows "a AND 0x00FFFFFF = a"
proof -
  have "unat a < 2 ^ 24" using assms by (simp add: word_less_nat_alt kFlashSize_def)
  then have "unat (take_bit 24 a) = unat a" by (simp add: unsigned_take_bit_eq take_bit_nat_eq_self)
  then have "take_bit 24 a = a" by (simp add: word_unat_eq_iff)
  moreover have "take_bit 24 a = a AND 0x00FFFFFF"
    by (simp add: take_bit_eq_mask mask_eq_exp_minus_1)
  ultimately show ?thesis by simp
qed

lemma safe_write_flash: "isSafeWriteAddress a \<Longrightarrow> a < kFlashSize"
  by (simp add: isSafeWriteAddress_def flash_consts word_less_nat_alt)

lemma sector_is_page:
  assumes "(a :: u32) mod kSectorSize = 0"
  shows "a mod kPageSize = 0"
proof -
  have "unat (a mod kSectorSize) = 0" using assms by simp
  then have "unat a mod 4096 = 0" by (simp add: unat_mod kSectorSize_def)
  moreover have "unat a mod 4096 mod 256 = unat a mod 256" by (rule mod_mod_cancel) simp
  ultimately have "unat a mod 256 = 0" by simp
  then have "unat (a mod kPageSize) = 0" by (simp add: unat_mod kPageSize_def)
  then show ?thesis by (simp only: unat_eq_zero)
qed

lemma readPage_keeps:
  assumes "readPage (logging b) base r nul a f = (res, g)"
  shows "keeps_log base f g"
proof -
  obtain st f0 where r0: "reg_read (logging b) base kRegStatus (f\<lparr>fl_last_error := 0\<rparr>) = (st, f0)"
    by fastforce
  let ?f1 = "f0\<lparr>fl_last_status := st\<rparr>"
  have "quiet base f (f\<lparr>fl_last_error := 0\<rparr>)" by (rule update_quiet)
  also have "quiet base \<dots> f0"
    using reg_read_quiet [of base "f\<lparr>fl_last_error := 0\<rparr>" b kRegStatus] by (simp add: r0)
  also have "quiet base f0 ?f1" by (rule update_quiet)
  finally have k1: "keeps_log base f ?f1" by (rule quiet_keeps)
  obtain ready f2 where w1: "waitReady (logging b) base ?f1 = (ready, f2)" by fastforce
  have k2: "keeps_log base f f2"
    using k1 quiet_keeps [OF waitReady_quiet [OF w1]] by (rule keeps_trans)
  let ?f3 = "reg_write (logging b) base kRegAddress (a AND 0x00FFFFFF) f2"
  let ?f4 = "reg_write (logging b) base kRegControl kCtrlRead ?f3"
  have "keeps_log base f2 ?f4"
    by (rule address_then_command [OF quiet_refl]) (simp add: command_ok_def flash_regs)
  with k2 have k4: "keeps_log base f ?f4" by (rule keeps_trans)
  obtain fin f5 where w2: "waitReady (logging b) base ?f4 = (fin, f5)" by fastforce
  have k5: "keeps_log base f f5"
    using k4 quiet_keeps [OF waitReady_quiet [OF w2]] by (rule keeps_trans)
  have rf: "keeps_log base h (read_failed (logging b) base code h)" for h code
    by (rule quiet_keeps [OF read_failed_quiet])
  have rd: "keeps_log base f5 (snd (read_data (logging b) base (unat kPageSize) f5))"
    by (rule quiet_keeps [OF read_data_quiet])
  show ?thesis
    using assms keeps_trans [OF k1 rf] keeps_trans [OF k2 rf] keeps_trans [OF k5 rf]
      keeps_trans [OF k5 rd]
    by (auto simp: readPage_def r0 w1 w2 Let_def split: if_splits prod.splits)
qed

lemma writePage_keeps:
  assumes "writePage (logging b) base a data f = (ok, g)"
  shows "keeps_log base f g"
proof (cases "data = None \<or> a mod kPageSize \<noteq> 0 \<or> \<not> isSafeWriteAddress a")
  case True
  then show ?thesis using assms by (auto simp: writePage_def keeps_refl split: option.splits)
next
  case False
  then obtain bs where bs: "data = Some bs" by (cases data) auto
  obtain ready f1 where w1: "waitReady (logging b) base f = (ready, f1)" by fastforce
  have q1: "keeps_log base f f1" by (rule quiet_keeps [OF waitReady_quiet [OF w1]])
  let ?f2 = "reg_write (logging b) base kRegAddress a f1"
  let ?f3 = "reg_write (logging b) base kRegControl 0 ?f2"
  let ?f4 = "write_data (logging b) base (map (\<lambda>i. bs ! i) [0..<unat kPageSize]) ?f3"
  let ?f5 = "reg_write (logging b) base kRegControl kCtrlWrite ?f4"
  have "quiet base ?f2 ?f3" by (rule harmless_write_quiet) simp
  also have "quiet base ?f3 ?f4" by (rule write_data_quiet)
  finally have "keeps_log base f1 ?f5"
    by (rule address_then_command)
      (use False in \<open>auto simp: command_ok_def isSafeWriteAddress_def flash_regs\<close>)
  with q1 have "keeps_log base f ?f5" by (rule keeps_trans)
  then show ?thesis
    using assms False q1 address_mask [OF safe_write_flash]
    by (auto simp: writePage_def bs w1 Let_def split: if_splits
        dest!: waitReady_quiet intro: keeps_trans quiet_keeps)
qed

lemma eraseSector_keeps:
  assumes "eraseSector (logging b) base a f = (ok, g)"
  shows "keeps_log base f g"
proof (cases "a mod kSectorSize \<noteq> 0 \<or> \<not> isSafeWriteAddress a")
  case True
  then show ?thesis using assms by (auto simp: eraseSector_def keeps_refl)
next
  case False
  obtain ready f1 where w1: "waitReady (logging b) base f = (ready, f1)" by fastforce
  have q1: "keeps_log base f f1" by (rule quiet_keeps [OF waitReady_quiet [OF w1]])
  let ?f2 = "reg_write (logging b) base kRegAddress a f1"
  let ?f3 = "reg_write (logging b) base kRegControl kCtrlErase ?f2"
  have "keeps_log base f1 ?f3"
    by (rule address_then_command [OF quiet_refl])
      (use False sector_is_page in \<open>auto simp: command_ok_def isSafeWriteAddress_def flash_regs\<close>)
  with q1 have "keeps_log base f ?f3" by (rule keeps_trans)
  then show ?thesis
    using assms False q1 address_mask [OF safe_write_flash]
    by (auto simp: eraseSector_def w1 Let_def split: if_splits
        dest!: waitReady_quiet intro: keeps_trans quiet_keeps)
qed

text \<open>The public operations of the driver.\<close>

datatype flash_op =
  OpReadPage bool u32 | OpWritePage u32 "u8 list option" | OpEraseSector u32
| OpReadUid bool nat | OpClearAll | OpLowLevelTest

fun run_flash_op :: "'d bus \<Rightarrow> u32 \<Rightarrow> bool \<Rightarrow> flash_op \<Rightarrow> 'd flash \<Rightarrow> 'd flash" where
  "run_flash_op b base r (OpReadPage nul a) f = snd (readPage b base r nul a f)"
| "run_flash_op b base r (OpWritePage a data) f = snd (writePage b base a data f)"
| "run_flash_op b base r (OpEraseSector a) f = snd (eraseSector b base a f)"
| "run_flash_op b base r (OpReadUid nul n) f = snd (snd (readUniqueIdAscii b base nul n f))"
| "run_flash_op b base r OpClearAll f = snd (clearAll b base f)"
| "run_flash_op b base r OpLowLevelTest f = snd (snd (lowLevelTest b base r f))"

lemma clear_sectors_keeps: "keeps_log base f (snd (clear_sectors (logging b) base ss f))"
proof (induction ss arbitrary: f)
  case (Cons s ss)
  obtain ok g where e: "eraseSector (logging b) base s f = (ok, g)" by fastforce
  show ?case using eraseSector_keeps [OF e] Cons [of g] by (auto simp: e intro: keeps_trans)
qed (simp add: keeps_refl)

lemma readUniqueId_keeps:
  assumes "readUniqueId (logging b) base nul f = (res, g)"
  shows "keeps_log base f g"
proof -
  obtain ready f1 where w1: "waitReady (logging b) base f = (ready, f1)" by fastforce
  have q1: "quiet base f f1" by (rule waitReady_quiet [OF w1])
  let ?f2 = "reg_write (logging b) base kRegControl 0 f1"
  let ?f3 = "reg_write (logging b) base kRegControl kCtrlUid ?f2"
  have "quiet base f1 ?f2" by (rule harmless_write_quiet) simp
  also have "quiet base ?f2 ?f3" by (rule harmless_write_quiet) (simp add: flash_regs)
  finally have q3: "quiet base f ?f3" using q1 quiet_trans by blast
  obtain fin f4 where w2: "waitReady (logging b) base ?f3 = (fin, f4)" by fastforce
  have q4: "quiet base f f4" using q3 waitReady_quiet [OF w2] by (rule quiet_trans)
  have q5: "quiet base f (snd (read_data (logging b) base 8 f4))"
    using q4 read_data_quiet by (rule quiet_trans)
  show ?thesis
    using assms q1 q4 q5 quiet_keeps
    by (auto simp: readUniqueId_def w1 w2 Let_def keeps_refl split: if_splits prod.splits)
qed

lemma lowLevelTest_keeps: "keeps_log base f (snd (snd (lowLevelTest (logging b) base r f)))"
  unfolding lowLevelTest_def Let_def
  by (auto split: prod.split option.split if_split intro: keeps_trans
      dest!: waitReady_quiet quiet_keeps eraseSector_keeps readPage_keeps writePage_keeps,
      auto simp: keeps_log_def)

text \<open>
  C13: Whatever the device answers, no sequence of driver operations ever issues a program
  or erase command outside the runtime data window 0x200000 to 0x243FFF: every such
  command follows a write of the address register with a page-aligned (for an erase,
  sector-aligned) address inside the window. The bootloader and the firmware image in
  front of and behind the window cannot be altered through this driver.
\<close>
theorem flash_commands_in_window:
  "log_ok base (flash_log (fold (run_flash_op (logging b) base reserved_reads) ops
     \<lparr>fl_dev = (d, []), fl_last_error = e, fl_last_status = s\<rparr>))"
proof -
  have op: "keeps_log base f (run_flash_op (logging b) base reserved_reads opn f)" for opn f
  proof (cases opn)
    case (OpReadUid nul n)
    obtain u g where u: "readUniqueId (logging b) base False f = (u, g)" by fastforce
    show ?thesis
      using readUniqueId_keeps [OF u]
      by (auto simp: OpReadUid readUniqueIdAscii_def u Let_def keeps_refl split: option.splits)
  qed (auto simp: clearAll_def clear_sectors_keeps lowLevelTest_keeps
      intro: readPage_keeps writePage_keeps eraseSector_keeps prod.collapse [symmetric])
  have "keeps_log base f (fold (run_flash_op (logging b) base reserved_reads) ops f)" for f
  proof (induction ops arbitrary: f)
    case (Cons opn ops)
    show ?case using keeps_trans [OF op [of f opn] Cons] by simp
  qed (simp add: keeps_refl)
  then show ?thesis by (simp add: keeps_log_def)
qed

end
