(* ===== verification/FlashDevice.thy ===== *)
theory FlashDevice
  imports Flash
begin

text \<open>
  The flash controller \<open>wb_flash.sv\<close> as the driver sees it, one register access at a time,
  with the NOR array behind it (a W25Q64: reads run on from the address and wrap at
  8 MB, a page program clears bits and wraps within its page, an erase sets a 4 KB sector
  to 0xFF). How long an operation takes and whether the controller's cycle counter cuts
  it off is a schedule, one entry per started operation: the number of status reads that
  still see it busy, and, when it ends in \<open>timeout_error\<close>, how many bytes of its data had gone
  over the line by then. The page buffer is filled byte by byte while a page is read, and a
  program or erase command whose frame has been sent takes effect in the chip although
  the controller gives up waiting for it.
  The contracts of the driver are proved on this device for every schedule without
  time-outs, and what the driver does on a time-out for every schedule with one.
\<close>

section \<open>The controller\<close>

record wb_flash =
  nor_array :: "u32 \<Rightarrow> u8"
  wf_address :: u32
  page_buffer :: "nat \<Rightarrow> u8"
  page_buf_offset :: nat
  page_buf_count :: nat
  page_buf_overflow :: bool
  timeout_error :: bool
  busy_polls :: nat
  wf_schedule :: "(nat \<times> nat option) list"

definition chip_size :: nat where "chip_size = 8388608"

definition nor_read :: "wb_flash \<Rightarrow> wb_flash" where
  "nor_read d = d\<lparr>page_buffer := (\<lambda>i. if i < 256
     then nor_array d (of_nat ((unat (wf_address d) + i) mod chip_size)) else page_buffer d i)\<rparr>"

definition nor_program :: "wb_flash \<Rightarrow> wb_flash" where
  "nor_program d = d\<lparr>nor_array := (\<lambda>x.
     if unat x div 256 = (unat (wf_address d) mod chip_size) div 256
     then nor_array d x AND page_buffer d ((unat x + 256 - unat (wf_address d) mod 256) mod 256)
     else nor_array d x)\<rparr>"

definition nor_erase :: "wb_flash \<Rightarrow> wb_flash" where
  "nor_erase d = d\<lparr>nor_array := (\<lambda>x.
     if unat x div 4096 = (unat (wf_address d) mod chip_size) div 4096 then 0xFF
     else nor_array d x)\<rparr>"

text \<open>What a command has done when it is cut off after \<open>k\<close> bytes.\<close>

definition nor_read_part :: "nat \<Rightarrow> wb_flash \<Rightarrow> wb_flash" where
  "nor_read_part k d =
     d\<lparr>page_buffer := (\<lambda>i. if i < k then page_buffer (nor_read d) i else page_buffer d i)\<rparr>"

definition nor_program_part :: "nat \<Rightarrow> wb_flash \<Rightarrow> wb_flash" where
  "nor_program_part k d = d\<lparr>nor_array := (\<lambda>x.
     if (unat x + 256 - unat (wf_address d) mod 256) mod 256 < k then nor_array (nor_program d) x
     else nor_array d x)\<rparr>"

definition nor_erase_part :: "nat \<Rightarrow> wb_flash \<Rightarrow> wb_flash" where
  "nor_erase_part k d = (if k = 0 then d else nor_erase d)"

definition start_op ::
  "(wb_flash \<Rightarrow> wb_flash) \<Rightarrow> (nat \<Rightarrow> wb_flash \<Rightarrow> wb_flash) \<Rightarrow> wb_flash \<Rightarrow> wb_flash" where
  "start_op effect part d =
     (case wf_schedule d of
        [] \<Rightarrow> effect d
      | (polls, cut_off) # rest \<Rightarrow>
          (case cut_off of None \<Rightarrow> effect d | Some k \<Rightarrow> (part k d)\<lparr>timeout_error := True\<rparr>)
            \<lparr>busy_polls := polls, wf_schedule := rest\<rparr>)"

text \<open>A write to the control register; the unique-ID command is not modelled.\<close>

definition write_control :: "u32 \<Rightarrow> wb_flash \<Rightarrow> wb_flash" where
  "write_control v d =
     (if busy_polls d \<noteq> 0 then d
      else
        (let d1 = d\<lparr>timeout_error := False, page_buf_offset := 0, page_buf_count := 0,
                    page_buf_overflow := False\<rparr>
         in if v AND 1 \<noteq> 0 then start_op (\<lambda>d. (nor_read d)\<lparr>page_buf_count := 256\<rparr>) nor_read_part d1
            else if v AND 2 \<noteq> 0 then start_op nor_program nor_program_part d1
            else if v AND 4 \<noteq> 0 then start_op nor_erase nor_erase_part d1
            else d1))"

definition write_buffer :: "u8 \<Rightarrow> wb_flash \<Rightarrow> wb_flash" where
  "write_buffer x d =
     (if page_buf_count d < 256
      then d\<lparr>page_buffer := (page_buffer d)(page_buf_offset d := x),
             page_buf_count := page_buf_count d + 1,
             page_buf_offset := (if page_buf_offset d < 255 then page_buf_offset d + 1
                                 else page_buf_offset d)\<rparr>
      else d\<lparr>page_buf_overflow := True\<rparr>)"

text \<open>The idle status word; a status read while an operation runs lets it advance.\<close>

definition idle_status :: "bool \<Rightarrow> bool \<Rightarrow> u32" where
  "idle_status t v = 2 OR (if t then 4 else 0) OR (if v then 16 else 0)"

definition read_status :: "wb_flash \<Rightarrow> u32 \<times> wb_flash" where
  "read_status d =
     (if busy_polls d \<noteq> 0 then (1, d\<lparr>busy_polls := busy_polls d - 1\<rparr>)
      else (idle_status (timeout_error d) (page_buf_overflow d), d))"

definition read_buffer :: "wb_flash \<Rightarrow> u32 \<times> wb_flash" where
  "read_buffer d =
     (ucast (page_buffer d (page_buf_offset d)),
      if page_buf_offset d < 255 then d\<lparr>page_buf_offset := page_buf_offset d + 1\<rparr> else d)"

definition wb_flash_bus :: "u32 \<Rightarrow> wb_flash bus" where
  "wb_flash_bus base =
     \<lparr>bus_rd = (\<lambda>a d.
        if a = base then read_status d
        else if a = base + 0x8 then (wf_address d, d)
        else if a = base + 0xC then read_buffer d
        else (0, d)),
      bus_wr = (\<lambda>a v d.
        if a = base + 0x4 then write_control v d
        else if a = base + 0x8 then d\<lparr>wf_address := v AND 0xFFFFFF\<rparr>
        else if a = base + 0xC then write_buffer (ucast v) d
        else d)\<rparr>"

lemma wb_flash_regs:
  "reg_read (wb_flash_bus base) base kRegStatus f =
     (let (v, d) = read_status (fl_dev f) in (v, f\<lparr>fl_dev := d\<rparr>))"
  "reg_read (wb_flash_bus base) base kRegData f =
     (let (v, d) = read_buffer (fl_dev f) in (v, f\<lparr>fl_dev := d\<rparr>))"
  "reg_write (wb_flash_bus base) base kRegControl v f =
     f\<lparr>fl_dev := write_control v (fl_dev f)\<rparr>"
  "reg_write (wb_flash_bus base) base kRegAddress v f =
     f\<lparr>fl_dev := (fl_dev f)\<lparr>wf_address := v AND 0xFFFFFF\<rparr>\<rparr>"
  "reg_write (wb_flash_bus base) base kRegData v f =
     f\<lparr>fl_dev := write_buffer (ucast v) (fl_dev f)\<rparr>"
  by (simp_all add: reg_read_def reg_write_def wb_flash_bus_def flash_regs)

section \<open>The driver's loops on this device\<close>

definition no_error :: "wb_flash \<Rightarrow> bool" where
  "no_error d = (\<not> timeout_error d \<and> \<not> page_buf_overflow d)"

lemma status_bits:
  "(1 :: u32) AND kStatBusy \<noteq> 0" "(1 :: u32) AND (kStatTimeoutError OR kStatPageBufferOverflow) = 0"
  "idle_status t v AND kStatBusy = 0"
  "(idle_status t v AND (kStatTimeoutError OR kStatPageBufferOverflow) = 0) = (\<not> t \<and> \<not> v)"
  by (simp_all add: flash_regs idle_status_def)

lemma wait_poll_device:
  assumes "busy_polls (fl_dev f) < n"
  shows "wait_poll (wb_flash_bus base) base n f =
    (if no_error (fl_dev f) then (WaitReady, f\<lparr>fl_dev := (fl_dev f)\<lparr>busy_polls := 0\<rparr>\<rparr>)
     else (WaitCleared, f\<lparr>fl_dev := write_control 0 ((fl_dev f)\<lparr>busy_polls := 0\<rparr>)\<rparr>))"
  using assms
proof (induction n arbitrary: f)
  case (Suc n)
  show ?case
  proof (cases "busy_polls (fl_dev f) = 0")
    case True
    then have d: "(fl_dev f)\<lparr>busy_polls := 0\<rparr> = fl_dev f" by simp
    show ?thesis
      unfolding d using True by (simp add: wb_flash_regs read_status_def Let_def status_bits no_error_def)
  next
    case False
    let ?g = "f\<lparr>fl_dev := (fl_dev f)\<lparr>busy_polls := busy_polls (fl_dev f) - 1\<rparr>\<rparr>"
    have "wait_poll (wb_flash_bus base) base n ?g =
      (if no_error (fl_dev ?g) then (WaitReady, ?g\<lparr>fl_dev := (fl_dev ?g)\<lparr>busy_polls := 0\<rparr>\<rparr>)
       else (WaitCleared, ?g\<lparr>fl_dev := write_control 0 ((fl_dev ?g)\<lparr>busy_polls := 0\<rparr>)\<rparr>))"
      using Suc.prems False by (intro Suc.IH) simp
    with False show ?thesis
      by (simp add: wb_flash_regs read_status_def Let_def status_bits no_error_def)
  qed
qed simp

text \<open>The device once it is idle and its error flags are clear.\<close>

definition settled :: "wb_flash \<Rightarrow> wb_flash" where
  "settled d = (let d0 = d\<lparr>busy_polls := 0\<rparr> in if no_error d then d0 else write_control 0 d0)"

lemma waitReady_device:
  assumes "busy_polls (fl_dev f) < kTimeoutCycles"
  shows "waitReady (wb_flash_bus base) base f = (True, f\<lparr>fl_dev := settled (fl_dev f)\<rparr>)"
proof -
  have k: "0 < kTimeoutCycles" by (simp add: kTimeoutCycles_def)
  have c: "no_error (write_control 0 d)" "busy_polls (write_control 0 d) = 0"
    if "busy_polls d = 0" for d
    using that by (simp_all add: write_control_def no_error_def Let_def)
  show ?thesis
    using assms k c [of "(fl_dev f)\<lparr>busy_polls := 0\<rparr>"]
    by (simp add: waitReady_def numeral_2_eq_2 wait_poll_device settled_def Let_def)
qed

lemma read_data_device:
  assumes "page_buf_offset (fl_dev f) + n \<le> 256" and "0 < n"
  shows "read_data (wb_flash_bus base) base n f =
    (map (\<lambda>i. page_buffer (fl_dev f) (page_buf_offset (fl_dev f) + i)) [0..<n],
     f\<lparr>fl_dev := (fl_dev f)\<lparr>page_buf_offset := min 255 (page_buf_offset (fl_dev f) + n)\<rparr>\<rparr>)"
  using assms
proof (induction n arbitrary: f)
  case (Suc n)
  let ?k = "page_buf_offset (fl_dev f)"
  let ?g = "f\<lparr>fl_dev := (fl_dev f)\<lparr>page_buf_offset := min 255 (?k + 1)\<rparr>\<rparr>"
  have g: "reg_read (wb_flash_bus base) base kRegData f = (ucast (page_buffer (fl_dev f) ?k), ?g)"
    using Suc.prems by (auto simp: wb_flash_regs read_buffer_def Let_def min_def)
  show ?case
  proof (cases n)
    case 0
    then show ?thesis using g by simp
  next
    case (Suc m)
    have "read_data (wb_flash_bus base) base n ?g =
      (map (\<lambda>i. page_buffer (fl_dev ?g) (page_buf_offset (fl_dev ?g) + i)) [0..<n],
       ?g\<lparr>fl_dev := (fl_dev ?g)\<lparr>page_buf_offset := min 255 (page_buf_offset (fl_dev ?g) + n)\<rparr>\<rparr>)"
      using Suc Suc.prems by (intro Suc.IH) simp_all
    moreover have "min 255 (?k + 1) = ?k + 1" using Suc Suc.prems by simp
    ultimately show ?thesis
      using g by (simp add: upt_conv_Cons map_Suc_upt [symmetric] del: upt_Suc)
  qed
qed simp

lemma write_data_device:
  assumes "page_buf_count (fl_dev f) + length bs \<le> 256"
    and "page_buf_offset (fl_dev f) = min 255 (page_buf_count (fl_dev f))"
  shows "write_data (wb_flash_bus base) base bs f =
    (let d = fl_dev f; k = page_buf_count d; n = k + length bs in
     f\<lparr>fl_dev := d\<lparr>page_buffer := (\<lambda>i. if k \<le> i \<and> i < n then bs ! (i - k) else page_buffer d i),
                   page_buf_count := n, page_buf_offset := min 255 n\<rparr>\<rparr>)"
  using assms
proof (induction bs arbitrary: f)
  case Nil
  let ?d = "fl_dev f"
  have "?d\<lparr>page_buffer := page_buffer ?d, page_buf_count := page_buf_count ?d,
           page_buf_offset := min 255 (page_buf_count ?d)\<rparr> = ?d"
    using Nil(2) by (intro wb_flash.equality) simp_all
  then have "f\<lparr>fl_dev := ?d\<lparr>page_buffer := page_buffer ?d, page_buf_count := page_buf_count ?d,
           page_buf_offset := min 255 (page_buf_count ?d)\<rparr>\<rparr> = f"
    by (intro flash.equality) simp_all
  moreover have "(\<lambda>i. if page_buf_count ?d \<le> i \<and> i < page_buf_count ?d
      then [] ! (i - page_buf_count ?d) else page_buffer ?d i) = page_buffer ?d"
    by (rule ext) auto
  ultimately show ?case by (simp only: write_data.simps Let_def list.size add_0_right)
next
  case (Cons x xs)
  let ?d = "fl_dev f" and ?k = "page_buf_count (fl_dev f)"
  let ?g = "f\<lparr>fl_dev := ?d\<lparr>page_buffer := (page_buffer ?d)(?k := x), page_buf_count := ?k + 1,
                           page_buf_offset := min 255 (?k + 1)\<rparr>\<rparr>"
  have g: "reg_write (wb_flash_bus base) base kRegData (ucast x) f = ?g"
  proof -
    have "?k \<le> 255" using Cons.prems by simp
    then have "page_buf_offset ?d = ?k" using Cons.prems by simp
    with \<open>?k \<le> 255\<close> show ?thesis by (auto simp: wb_flash_regs write_buffer_def min_def)
  qed
  have "write_data (wb_flash_bus base) base xs ?g =
    f\<lparr>fl_dev := ?d\<lparr>page_buffer := (\<lambda>i. if ?k + 1 \<le> i \<and> i < ?k + 1 + length xs
         then xs ! (i - (?k + 1)) else ((page_buffer ?d)(?k := x)) i),
       page_buf_count := ?k + 1 + length xs, page_buf_offset := min 255 (?k + 1 + length xs)\<rparr>\<rparr>"
    using Cons.prems Cons.IH [of ?g] by (simp add: Let_def cong: if_cong)
  also have "(\<lambda>i. if ?k + 1 \<le> i \<and> i < ?k + 1 + length xs then xs ! (i - (?k + 1))
       else ((page_buffer ?d)(?k := x)) i) =
     (\<lambda>i. if ?k \<le> i \<and> i < ?k + length (x # xs) then (x # xs) ! (i - ?k) else page_buffer ?d i)"
    by (auto simp: fun_eq_iff nth_Cons')
  also have "?k + 1 + length xs = ?k + length (x # xs)" by simp
  finally show ?case by (simp only: write_data.simps g Let_def)
qed

section \<open>The contracts of the driver\<close>

text \<open>
  A device without pending error whose running and scheduled operations all end within
  the driver's countdown and before the controller's own time-out.
\<close>

definition healthy :: "wb_flash \<Rightarrow> bool" where
  "healthy d \<longleftrightarrow>
     no_error d \<and> busy_polls d < kTimeoutCycles \<and>
     (\<forall>(polls, cut_off)\<in>set (wf_schedule d). cut_off = None \<and> polls < kTimeoutCycles)"

lemma waitReady_healthy:
  assumes "healthy (fl_dev f)"
  shows "waitReady (wb_flash_bus base) base f = (True, f\<lparr>fl_dev := (fl_dev f)\<lparr>busy_polls := 0\<rparr>\<rparr>)"
  using assms by (simp add: waitReady_device settled_def healthy_def Let_def no_error_def)

text \<open>A started operation of a healthy device, waited for.\<close>

lemma start_op_healthy:
  assumes h: "healthy d" and eff: "\<And>d. healthy d \<Longrightarrow> healthy (eff d)"
    and "\<And>d p s. eff (d\<lparr>busy_polls := p, wf_schedule := s\<rparr>) = (eff d)\<lparr>busy_polls := p, wf_schedule := s\<rparr>"
    and b: "busy_polls d = 0" "busy_polls (eff d) = 0"
  shows "healthy (start_op eff part d)"
    and "\<exists>s. (start_op eff part d)\<lparr>busy_polls := 0\<rparr> = (eff d)\<lparr>wf_schedule := s\<rparr>"
proof -
  have e: "healthy (eff d)" by (rule eff [OF h])
  have "healthy ((eff d)\<lparr>busy_polls := p, wf_schedule := s\<rparr>)"
    if "wf_schedule d = (p, c) # s" for p c s
    using h e that by (auto simp: healthy_def no_error_def)
  then show "healthy (start_op eff part d)"
    using h e by (auto simp: start_op_def healthy_def split: list.splits)
  show "\<exists>s. (start_op eff part d)\<lparr>busy_polls := 0\<rparr> = (eff d)\<lparr>wf_schedule := s\<rparr>"
  proof (cases "wf_schedule d")
    case Nil
    have "(eff d)\<lparr>busy_polls := 0\<rparr> = (eff d)\<lparr>wf_schedule := wf_schedule (eff d)\<rparr>"
      using b(2) by simp
    then show ?thesis using Nil by (intro exI [of _ "wf_schedule (eff d)"]) (simp add: start_op_def)
  next
    case (Cons x xs)
    obtain p c where x: "x = (p, c)" by fastforce
    with h Cons have "c = None" by (auto simp: healthy_def)
    then have "(start_op eff part d)\<lparr>busy_polls := 0\<rparr> = (eff d)\<lparr>wf_schedule := xs\<rparr>"
      using b(2) Cons x by (intro wb_flash.equality) (simp_all add: start_op_def)
    then show ?thesis by blast
  qed
qed

text \<open>The device with the control register's bookkeeping reset.\<close>

definition rewound :: "wb_flash \<Rightarrow> wb_flash" where
  "rewound d = d\<lparr>timeout_error := False, page_buf_offset := 0, page_buf_count := 0,
                 page_buf_overflow := False\<rparr>"

lemma write_control_commands:
  assumes "busy_polls d = 0"
  shows "write_control 0 d = rewound d"
    and "write_control kCtrlRead d = start_op (\<lambda>d. (nor_read d)\<lparr>page_buf_count := 256\<rparr>) nor_read_part (rewound d)"
    and "write_control kCtrlWrite d = start_op nor_program nor_program_part (rewound d)"
    and "write_control kCtrlErase d = start_op nor_erase nor_erase_part (rewound d)"
  using assms by (simp_all add: write_control_def rewound_def flash_regs)

lemma healthy_updates [simp]:
  "healthy (rewound d) = healthy (d\<lparr>timeout_error := False, page_buf_overflow := False\<rparr>)"
  "healthy (d\<lparr>wf_address := a\<rparr>) = healthy d"
  "healthy (d\<lparr>page_buffer := pb\<rparr>) = healthy d"
  "healthy (d\<lparr>page_buf_count := n\<rparr>) = healthy d"
  "healthy (d\<lparr>page_buf_offset := n\<rparr>) = healthy d"
  "healthy (nor_read d) = healthy d" "healthy (nor_program d) = healthy d"
  "healthy (nor_erase d) = healthy d"
  by (simp_all add: healthy_def no_error_def rewound_def nor_read_def nor_program_def nor_erase_def)

lemma healthy_clear [simp]:
  "healthy d \<Longrightarrow> healthy (d\<lparr>timeout_error := False, page_buf_overflow := False\<rparr>)"
  "healthy d \<Longrightarrow> healthy (d\<lparr>busy_polls := 0\<rparr>)"
  by (auto simp: healthy_def no_error_def kTimeoutCycles_def)

lemma run_command:
  assumes h: "healthy (fl_dev f)" and b: "busy_polls (fl_dev f) = 0"
    and cmd: "(v = kCtrlRead \<and> eff = (\<lambda>d. (nor_read d)\<lparr>page_buf_count := 256\<rparr>)) \<or>
       (v = kCtrlWrite \<and> eff = nor_program) \<or> (v = kCtrlErase \<and> eff = nor_erase)"
  obtains s where "healthy ((eff (rewound (fl_dev f)))\<lparr>wf_schedule := s\<rparr>)"
    "waitReady (wb_flash_bus base) base (reg_write (wb_flash_bus base) base kRegControl v f) =
       (True, f\<lparr>fl_dev := (eff (rewound (fl_dev f)))\<lparr>wf_schedule := s\<rparr>\<rparr>)"
proof -
  let ?d = "rewound (fl_dev f)"
  have hd: "healthy ?d" using h by simp
  have bd: "busy_polls ?d = 0" "busy_polls (eff ?d) = 0"
    using b cmd by (auto simp: rewound_def nor_read_def nor_program_def nor_erase_def)
  have eff: "healthy (eff d)" if "healthy d" for d
    using cmd that by auto
  have comm: "eff (d\<lparr>busy_polls := p, wf_schedule := s\<rparr>) = (eff d)\<lparr>busy_polls := p, wf_schedule := s\<rparr>"
    for d p s
    using cmd
    by (elim disjE conjE; intro wb_flash.equality)
      (simp_all add: nor_read_def nor_program_def nor_erase_def cong: if_cong)
  have "\<exists>part. write_control v (fl_dev f) = start_op eff part ?d"
    using cmd write_control_commands [OF b] by metis
  then obtain part where w: "write_control v (fl_dev f) = start_op eff part ?d" ..
  obtain s where s: "(start_op eff part ?d)\<lparr>busy_polls := 0\<rparr> = (eff ?d)\<lparr>wf_schedule := s\<rparr>"
    using start_op_healthy(2) [of ?d eff] hd eff comm bd by blast
  have hs: "healthy (start_op eff part ?d)"
    using start_op_healthy(1) [of ?d eff] hd eff comm bd by blast
  show ?thesis
  proof (rule that)
    show "healthy ((eff ?d)\<lparr>wf_schedule := s\<rparr>)" using healthy_clear(2) [OF hs] by (simp only: s)
    show "waitReady (wb_flash_bus base) base (reg_write (wb_flash_bus base) base kRegControl v f) =
       (True, f\<lparr>fl_dev := (eff ?d)\<lparr>wf_schedule := s\<rparr>\<rparr>)"
      using hs by (subst waitReady_healthy) (simp_all add: wb_flash_regs w s)
  qed
qed

text \<open>An aligned address inside the chip.\<close>

lemma aligned_page:
  fixes a :: u32
  assumes "a mod kPageSize = 0" "a < kFlashSize"
  shows "unat a mod 256 = 0" "unat a < chip_size" "unat a + 256 \<le> chip_size"
proof -
  have "unat (a mod kPageSize) = 0" using assms(1) by simp
  then show m: "unat a mod 256 = 0" by (simp add: unat_mod kPageSize_def)
  show lt: "unat a < chip_size"
    using assms(2) by (simp add: word_less_nat_alt kFlashSize_def chip_size_def)
  obtain k where "unat a = 256 * k" using m by auto
  with lt show "unat a + 256 \<le> chip_size" by (simp add: chip_size_def)
qed

lemma aligned_sector:
  fixes a :: u32
  assumes "a mod kSectorSize = 0" "a < kFlashSize"
  shows "unat a mod 4096 = 0" "unat a < chip_size"
proof -
  have "unat (a mod kSectorSize) = 0" using assms(1) by simp
  then show m: "unat a mod 4096 = 0" by (simp add: unat_mod kSectorSize_def)
  show lt: "unat a < chip_size"
    using assms(2) by (simp add: word_less_nat_alt kFlashSize_def chip_size_def)
qed

text \<open>The bytes at the addresses \<open>[a, a + n)\<close>.\<close>

definition at_offset :: "u32 \<Rightarrow> nat \<Rightarrow> u32 \<Rightarrow> bool" where
  "at_offset a n x = (unat a \<le> unat x \<and> unat x < unat a + n)"

lemma same_block:
  fixes n :: nat
  assumes "u mod n = 0" "0 < n"
  shows "(x div n = u div n) = (u \<le> x \<and> x < u + n)"
proof -
  obtain q where u: "u = n * q" using assms(1) by auto
  have "x div n = q \<Longrightarrow> n * q \<le> x \<and> x < n * q + n"
    using times_div_less_eq_dividend [of n x] dividend_less_times_div [OF assms(2), of x] by auto
  moreover have "n * q \<le> x \<Longrightarrow> x < n * q + n \<Longrightarrow> x div n = q"
    by (rule div_nat_eqI) simp_all
  ultimately show ?thesis using u assms(2) by auto
qed

lemma readPage_device:
  assumes h: "healthy (fl_dev f)" and a: "a mod kPageSize = 0" "isSafeReadAddress r a"
  obtains g where "readPage (wb_flash_bus base) base r False a f =
       (Some (map (\<lambda>i. nor_array (fl_dev f) (a + of_nat i)) [0..<256]), g)"
    "healthy (fl_dev g)" "nor_array (fl_dev g) = nor_array (fl_dev f)" "fl_last_error g = 0"
proof -
  let ?bus = "wb_flash_bus base"
  obtain st d0 where st: "read_status (fl_dev f) = (st, d0)" by fastforce
  have d0: "healthy d0" "nor_array d0 = nor_array (fl_dev f)"
    using st h by (auto simp: read_status_def healthy_def no_error_def split: if_splits)
  define f1 where "f1 = f\<lparr>fl_dev := d0\<lparr>busy_polls := 0\<rparr>, fl_last_error := 0, fl_last_status := st\<rparr>"
  have w1: "waitReady ?bus base (f\<lparr>fl_last_error := 0, fl_dev := d0, fl_last_status := st\<rparr>) = (True, f1)"
    using d0 by (subst waitReady_healthy) (simp_all add: f1_def)
  have lt: "a < kFlashSize"
    using a(2) by (cases r) (simp_all add: isSafeReadAddress_def flash_consts word_less_nat_alt)
  let ?f2 = "reg_write ?bus base kRegAddress (a AND 0x00FFFFFF) f1"
  have f2: "healthy (fl_dev ?f2)" "busy_polls (fl_dev ?f2) = 0" "wf_address (fl_dev ?f2) = a"
    "nor_array (fl_dev ?f2) = nor_array (fl_dev f)" "fl_last_error ?f2 = 0"
    using d0 address_mask [OF lt] by (simp_all add: wb_flash_regs f1_def)
  let ?eff = "\<lambda>d. (nor_read d)\<lparr>page_buf_count := 256\<rparr>"
  obtain s where h3: "healthy ((?eff (rewound (fl_dev ?f2)))\<lparr>wf_schedule := s\<rparr>)"
    and w3: "waitReady ?bus base (reg_write ?bus base kRegControl kCtrlRead ?f2) =
       (True, ?f2\<lparr>fl_dev := (?eff (rewound (fl_dev ?f2)))\<lparr>wf_schedule := s\<rparr>\<rparr>)"
    by (rule run_command [OF f2(1,2), where v = kCtrlRead and eff = ?eff and base = base]) auto
  define d3 where "d3 = (?eff (rewound (fl_dev ?f2)))\<lparr>wf_schedule := s\<rparr>"
  let ?f3 = "?f2\<lparr>fl_dev := d3\<rparr>"
  have d3: "page_buf_offset d3 = 0" "nor_array d3 = nor_array (fl_dev f)" "healthy d3"
    using h3 f2 by (simp_all add: d3_def rewound_def nor_read_def)
  have buf: "page_buffer d3 i = nor_array (fl_dev f) (a + of_nat i)" if "i < 256" for i
  proof -
    have "(unat a + i) mod chip_size = unat a + i"
      using aligned_page(3) [OF a(1) lt] that by simp
    then show ?thesis using that f2 by (simp add: d3_def rewound_def nor_read_def)
  qed
  have "map (\<lambda>i. page_buffer d3 i) [0..<256] = map (\<lambda>i. nor_array (fl_dev f) (a + of_nat i)) [0..<256]"
    by (rule map_cong [OF refl]) (rule buf, simp)
  then have rd: "read_data ?bus base (unat kPageSize) ?f3 =
     (map (\<lambda>i. nor_array (fl_dev f) (a + of_nat i)) [0..<256],
      ?f3\<lparr>fl_dev := d3\<lparr>page_buf_offset := 255\<rparr>\<rparr>)"
    using d3(1) by (subst read_data_device) (simp_all add: kPageSize_def)
  have res: "readPage ?bus base r False a f =
     (Some (map (\<lambda>i. nor_array (fl_dev f) (a + of_nat i)) [0..<256]),
      ?f3\<lparr>fl_dev := d3\<lparr>page_buf_offset := 255\<rparr>\<rparr>)"
    unfolding readPage_def
    using a rd w3 by (simp add: wb_flash_regs(1) st Let_def w1 d3_def del: upt_Suc)
  show ?thesis
    by (rule that [OF res]) (use d3 f2 in simp_all)
qed

lemma writePage_device:
  assumes h: "healthy (fl_dev f)" and a: "a mod kPageSize = 0" "isSafeWriteAddress a"
  obtains g where "writePage (wb_flash_bus base) base a (Some bs) f = (True, g)"
    "healthy (fl_dev g)"
    "nor_array (fl_dev g) = (\<lambda>x. if at_offset a 256 x
       then nor_array (fl_dev f) x AND bs ! (unat x - unat a) else nor_array (fl_dev f) x)"
proof -
  let ?bus = "wb_flash_bus base"
  define f1 where "f1 = f\<lparr>fl_dev := (fl_dev f)\<lparr>busy_polls := 0\<rparr>\<rparr>"
  have w1: "waitReady ?bus base f = (True, f1)" using h by (simp add: waitReady_healthy f1_def)
  have lt: "a < kFlashSize" by (rule safe_write_flash [OF a(2)])
  let ?f2 = "reg_write ?bus base kRegAddress (a AND 0x00FFFFFF) f1"
  let ?f3 = "reg_write ?bus base kRegControl 0 ?f2"
  let ?data = "map (\<lambda>i. bs ! i) [0..<unat kPageSize]"
  have d3: "fl_dev ?f3 = rewound (fl_dev ?f2)"
    by (simp add: wb_flash_regs f1_def write_control_commands)
  have len: "length ?data = 256" by (simp add: kPageSize_def)
  define f4 where "f4 = write_data ?bus base ?data ?f3"
  have f4: "f4 = ?f3\<lparr>fl_dev := (rewound (fl_dev ?f2))
     \<lparr>page_buffer := (\<lambda>i. if i < 256 then ?data ! i else page_buffer (fl_dev ?f2) i),
      page_buf_count := 256, page_buf_offset := 255\<rparr>\<rparr>"
    unfolding f4_def using len d3
    by (subst write_data_device) (simp_all add: Let_def rewound_def cong: if_cong del: upt_Suc)
  have d4: "healthy (fl_dev f4)" "busy_polls (fl_dev f4) = 0" "wf_address (fl_dev f4) = a"
    "nor_array (fl_dev f4) = nor_array (fl_dev f)"
    using h address_mask [OF lt] by (simp_all add: f4 wb_flash_regs f1_def rewound_def)
  have b4: "page_buffer (fl_dev f4) i = bs ! i" if "i < 256" for i
    using that len by (simp add: f4 kPageSize_def del: upt_Suc)
  obtain s where h5: "healthy ((nor_program (rewound (fl_dev f4)))\<lparr>wf_schedule := s\<rparr>)"
    and w5: "waitReady ?bus base (reg_write ?bus base kRegControl kCtrlWrite f4) =
       (True, f4\<lparr>fl_dev := (nor_program (rewound (fl_dev f4)))\<lparr>wf_schedule := s\<rparr>\<rparr>)"
    by (rule run_command [OF d4(1,2), where v = kCtrlWrite and eff = nor_program and base = base]) auto
  let ?d5 = "(nor_program (rewound (fl_dev f4)))\<lparr>wf_schedule := s\<rparr>"
  have page: "(unat x div 256 = unat a div 256) = at_offset a 256 x" for x
    unfolding at_offset_def by (rule same_block [OF aligned_page(1) [OF a(1) lt]]) simp
  have off: "(unat x + 256) mod 256 = unat x - unat a" if "at_offset a 256 x" for x
  proof -
    obtain k where "unat a = 256 * k" using aligned_page(1) [OF a(1) lt] by auto
    with that obtain j where "unat x = 256 * k + j" "j < 256"
      by (metis at_offset_def le_iff_add nat_add_left_cancel_less)
    with \<open>unat a = 256 * k\<close> show ?thesis by simp
  qed
  have nor5: "nor_array ?d5 = (\<lambda>x. if at_offset a 256 x
       then nor_array (fl_dev f) x AND bs ! (unat x - unat a) else nor_array (fl_dev f) x)"
  proof (rule ext)
    fix x
    have "unat a mod chip_size = unat a" "unat a mod 256 = 0"
      using aligned_page [OF a(1) lt] by simp_all
    then have "nor_array ?d5 x = (if at_offset a 256 x
       then nor_array (fl_dev f) x AND page_buffer (fl_dev f4) ((unat x + 256) mod 256)
       else nor_array (fl_dev f) x)"
      by (simp add: nor_program_def rewound_def d4 page cong: if_cong)
    also have "\<dots> = (if at_offset a 256 x
       then nor_array (fl_dev f) x AND bs ! (unat x - unat a) else nor_array (fl_dev f) x)"
      using b4 off by (auto simp: at_offset_def)
    finally show "nor_array ?d5 x = (if at_offset a 256 x
       then nor_array (fl_dev f) x AND bs ! (unat x - unat a) else nor_array (fl_dev f) x)" .
  qed
  have res: "writePage ?bus base a (Some bs) f = (True, f4\<lparr>fl_dev := ?d5\<rparr>)"
    using a w1 w5 by (simp add: writePage_def Let_def f4_def del: upt_Suc)
  show ?thesis by (rule that [OF res]) (use h5 nor5 in simp_all)
qed

lemma eraseSector_device:
  assumes h: "healthy (fl_dev f)" and a: "a mod kSectorSize = 0" "isSafeWriteAddress a"
  obtains g where "eraseSector (wb_flash_bus base) base a f = (True, g)" "healthy (fl_dev g)"
    "nor_array (fl_dev g) = (\<lambda>x. if at_offset a 4096 x then 0xFF else nor_array (fl_dev f) x)"
proof -
  let ?bus = "wb_flash_bus base"
  define f1 where "f1 = f\<lparr>fl_dev := (fl_dev f)\<lparr>busy_polls := 0\<rparr>\<rparr>"
  have w1: "waitReady ?bus base f = (True, f1)" using h by (simp add: waitReady_healthy f1_def)
  have lt: "a < kFlashSize" by (rule safe_write_flash [OF a(2)])
  let ?f2 = "reg_write ?bus base kRegAddress (a AND 0x00FFFFFF) f1"
  have d2: "healthy (fl_dev ?f2)" "busy_polls (fl_dev ?f2) = 0" "wf_address (fl_dev ?f2) = a"
    "nor_array (fl_dev ?f2) = nor_array (fl_dev f)"
    using h address_mask [OF lt] by (simp_all add: wb_flash_regs f1_def)
  obtain s where h3: "healthy ((nor_erase (rewound (fl_dev ?f2)))\<lparr>wf_schedule := s\<rparr>)"
    and w3: "waitReady ?bus base (reg_write ?bus base kRegControl kCtrlErase ?f2) =
       (True, ?f2\<lparr>fl_dev := (nor_erase (rewound (fl_dev ?f2)))\<lparr>wf_schedule := s\<rparr>\<rparr>)"
    by (rule run_command [OF d2(1,2), where v = kCtrlErase and eff = nor_erase and base = base]) auto
  let ?d3 = "(nor_erase (rewound (fl_dev ?f2)))\<lparr>wf_schedule := s\<rparr>"
  have sector: "(unat x div 4096 = unat a div 4096) = at_offset a 4096 x" for x
    unfolding at_offset_def by (rule same_block [OF aligned_sector(1) [OF a(1) lt]]) simp
  have nor3: "nor_array ?d3 = (\<lambda>x. if at_offset a 4096 x then 0xFF else nor_array (fl_dev f) x)"
    using aligned_sector [OF a(1) lt]
    by (simp add: fun_eq_iff nor_erase_def rewound_def d2 sector cong: if_cong)
  have res: "eraseSector ?bus base a f = (True, ?f2\<lparr>fl_dev := ?d3\<rparr>)"
    using a w1 w3 by (simp add: eraseSector_def Let_def)
  show ?thesis by (rule that [OF res]) (use h3 nor3 in simp_all)
qed

lemma safe_write_read: "isSafeWriteAddress a \<Longrightarrow> isSafeReadAddress r a"
  by (cases r) (simp_all add: isSafeReadAddress_def isSafeWriteAddress_def flash_consts
      word_less_nat_alt)

text \<open>
  C14: Data stored through the driver comes back: on a healthy controller, erasing a sector
  of the runtime window, programming a page of it and reading that page all succeed and
  the read returns the programmed bytes; the rest of the sector is erased and no other
  byte of the flash has changed.
\<close>
theorem flash_store_roundtrip:
  assumes h: "healthy (fl_dev f)"
    and s: "s mod kSectorSize = 0" "isSafeWriteAddress s"
    and p: "p mod kPageSize = 0" "isSafeWriteAddress p" "at_offset s 4096 p"
    and len: "length bs = 256"
  shows "let (ok1, f1) = eraseSector (wb_flash_bus base) base s f;
             (ok2, f2) = writePage (wb_flash_bus base) base p (Some bs) f1;
             (page, f3) = readPage (wb_flash_bus base) base reserved_reads False p f2
         in ok1 \<and> ok2 \<and> page = Some bs \<and>
            nor_array (fl_dev f3) =
              (\<lambda>x. if at_offset p 256 x then bs ! (unat x - unat p)
                   else if at_offset s 4096 x then 0xFF else nor_array (fl_dev f) x)"
proof -
  obtain f1 where e: "eraseSector (wb_flash_bus base) base s f = (True, f1)" "healthy (fl_dev f1)"
    "nor_array (fl_dev f1) = (\<lambda>x. if at_offset s 4096 x then 0xFF else nor_array (fl_dev f) x)"
    by (rule eraseSector_device [OF h s])
  obtain f2 where w: "writePage (wb_flash_bus base) base p (Some bs) f1 = (True, f2)"
    "healthy (fl_dev f2)"
    "nor_array (fl_dev f2) = (\<lambda>x. if at_offset p 256 x
       then nor_array (fl_dev f1) x AND bs ! (unat x - unat p) else nor_array (fl_dev f1) x)"
    by (rule writePage_device [OF e(2) p(1,2)])
  obtain f3 where r: "readPage (wb_flash_bus base) base reserved_reads False p f2 =
      (Some (map (\<lambda>i. nor_array (fl_dev f2) (p + of_nat i)) [0..<256]), f3)"
    "nor_array (fl_dev f3) = nor_array (fl_dev f2)"
    by (rule readPage_device [OF w(2) p(1) safe_write_read [OF p(2)]])
  have inside: "at_offset s 4096 x" if "at_offset p 256 x" for x
  proof -
    have lt: "s < kFlashSize" "p < kFlashSize" using s(2) p(2) safe_write_flash by blast+
    obtain j where "unat s = 4096 * j" using aligned_sector(1) [OF s(1) lt(1)] by auto
    moreover obtain k where "unat p = 256 * k" using aligned_page(1) [OF p(1) lt(2)] by auto
    moreover have "k + 1 \<le> 16 * j + 16"
      using p(3) calculation by (auto simp: at_offset_def)
    ultimately show ?thesis using p(3) that by (auto simp: at_offset_def)
  qed
  have ff: "(0xFF :: u8) AND b = b" for b
  proof -
    have "(0xFF :: u8) = - 1" by simp
    then show ?thesis by (simp only: and.left_neutral)
  qed
  have nor: "nor_array (fl_dev f2) = (\<lambda>x. if at_offset p 256 x then bs ! (unat x - unat p)
       else if at_offset s 4096 x then 0xFF else nor_array (fl_dev f) x)"
    using inside by (auto simp: w(3) e(3) fun_eq_iff ff)
  have byte: "nor_array (fl_dev f2) (p + of_nat i) = bs ! i" if "i < 256" for i
  proof -
    have "unat p + 256 \<le> chip_size" by (rule aligned_page(3) [OF p(1) safe_write_flash [OF p(2)]])
    then have "unat (p + of_nat i) = unat p + i"
      using that by (intro unat_add_of_nat) (simp add: chip_size_def)
    then show ?thesis using that by (simp add: nor at_offset_def)
  qed
  have "map (\<lambda>i. nor_array (fl_dev f2) (p + of_nat i)) [0..<256] = bs"
    by (rule nth_equalityI) (simp_all add: len byte del: upt_Suc)
  then show ?thesis by (simp add: e(1) w(1) r nor del: upt_Suc)
qed

definition blank_flash :: "(nat \<times> nat option) list \<Rightarrow> wb_flash flash" where
  "blank_flash sched =
     \<lparr>fl_dev = \<lparr>nor_array = (\<lambda>_. 0x5A), wf_address = 0, page_buffer = (\<lambda>_. 0x33),
                page_buf_offset = 0, page_buf_count = 0, page_buf_overflow = False,
                timeout_error = False, busy_polls = 0, wf_schedule = sched\<rparr>,
      fl_last_error = 0, fl_last_status = 0\<rparr>"

lemma flash_store_roundtrip_witness:
  "let f = blank_flash [(40, None), (7, None), (100, None)]; bs = map of_nat [0..<256];
       (ok1, f1) = eraseSector (wb_flash_bus 0x10007000) 0x10007000 0x205000 f;
       (ok2, f2) = writePage (wb_flash_bus 0x10007000) 0x10007000 0x205300 (Some bs) f1;
       (page, f3) = readPage (wb_flash_bus 0x10007000) 0x10007000 False False 0x205300 f2
   in ok1 \<and> ok2 \<and> page = Some bs"
proof -
  let ?f = "blank_flash [(40, None), (7, None), (100, None)]"
  let ?bs = "map of_nat [0..<256] :: u8 list"
  have h: "healthy (fl_dev ?f)"
    by (simp add: blank_flash_def healthy_def no_error_def kTimeoutCycles_def)
  have a: "(0x205000 :: u32) mod kSectorSize = 0" "isSafeWriteAddress 0x205000"
    "(0x205300 :: u32) mod kPageSize = 0" "isSafeWriteAddress 0x205300"
    "at_offset 0x205000 4096 0x205300"
    by (simp_all add: isSafeWriteAddress_def flash_consts at_offset_def)
  have len: "length ?bs = 256" by simp
  show ?thesis
    using flash_store_roundtrip [OF h a(1,2,3,4,5) len, of "0x10007000" False]
    by (simp add: Let_def del: upt_Suc upt_rec_numeral split: prod.splits)
qed

section \<open>Time-outs\<close>

lemma run_command_cut_off:
  assumes b: "busy_polls (fl_dev f) = 0" and sched: "wf_schedule (fl_dev f) = (n, Some k) # rest"
    and n: "n < kTimeoutCycles"
    and v: "(v = kCtrlRead \<and> part = nor_read_part) \<or> (v = kCtrlWrite \<and> part = nor_program_part) \<or>
      (v = kCtrlErase \<and> part = nor_erase_part)"
  shows "waitReady (wb_flash_bus base) base (reg_write (wb_flash_bus base) base kRegControl v f) =
     (True, f\<lparr>fl_dev := (part k (rewound (fl_dev f)))\<lparr>wf_schedule := rest\<rparr>\<rparr>)"
proof -
  let ?p = "part k (rewound (fl_dev f))"
  let ?d = "?p\<lparr>timeout_error := True, busy_polls := n, wf_schedule := rest\<rparr>"
  have keep: "timeout_error ?p = False" "page_buf_overflow ?p = False" "page_buf_offset ?p = 0"
    "page_buf_count ?p = 0" "busy_polls ?p = 0"
    using v b
    by (cases "k = 0"; auto simp: nor_read_part_def nor_program_part_def nor_erase_part_def
        nor_erase_def rewound_def)+
  have "write_control v (fl_dev f) = ?d"
    using v sched write_control_commands [OF b] by (auto simp: start_op_def rewound_def)
  then have "reg_write (wb_flash_bus base) base kRegControl v f = f\<lparr>fl_dev := ?d\<rparr>"
    by (simp add: wb_flash_regs)
  moreover have "settled ?d = ?p\<lparr>wf_schedule := rest\<rparr>"
    using keep by (intro wb_flash.equality)
      (simp_all add: settled_def no_error_def write_control_def Let_def)
  ultimately show ?thesis using n by (subst (asm) eq_commute) (simp add: waitReady_device)
qed

lemma waitReady_idle:
  assumes "no_error (fl_dev f)" "busy_polls (fl_dev f) = 0"
  shows "waitReady (wb_flash_bus base) base f = (True, f)"
proof -
  have "settled (fl_dev f) = fl_dev f"
    using assms by (simp add: settled_def no_error_def Let_def)
  then show ?thesis using assms(2) by (simp add: waitReady_device kTimeoutCycles_def)
qed

lemma page_index:
  assumes "a mod kPageSize = 0" "a < kFlashSize"
  shows "(unat x div 256 = unat a div 256) = at_offset a 256 x"
    "at_offset a 256 x \<Longrightarrow> (unat x + 256) mod 256 = unat x - unat a"
proof -
  show "(unat x div 256 = unat a div 256) = at_offset a 256 x"
    unfolding at_offset_def by (rule same_block [OF aligned_page(1) [OF assms]]) simp
  assume at: "at_offset a 256 x"
  obtain k where k: "unat a = 256 * k" using aligned_page(1) [OF assms] by auto
  with at obtain j where "unat x = 256 * k + j" "j < 256"
    by (metis at_offset_def le_iff_add nat_add_left_cancel_less)
  with k show "(unat x + 256) mod 256 = unat x - unat a" by simp
qed

lemma erase_cut_off:
  assumes "no_error (fl_dev f)" "busy_polls (fl_dev f) = 0"
    and "wf_schedule (fl_dev f) = (n, Some k) # rest" "n < kTimeoutCycles"
    and a: "a mod kSectorSize = 0" "isSafeWriteAddress a"
  obtains g where "eraseSector (wb_flash_bus base) base a f = (True, g)"
    "nor_array (fl_dev g) = (\<lambda>x. if 0 < k \<and> at_offset a 4096 x then 0xFF else nor_array (fl_dev f) x)"
proof -
  let ?bus = "wb_flash_bus base"
  have lt: "a < kFlashSize" by (rule safe_write_flash [OF a(2)])
  let ?g = "reg_write ?bus base kRegAddress (a AND 0x00FFFFFF) f"
  have g: "busy_polls (fl_dev ?g) = 0" "wf_schedule (fl_dev ?g) = (n, Some k) # rest"
    "nor_array (fl_dev ?g) = nor_array (fl_dev f)" "wf_address (fl_dev ?g) = a"
    using assms(1-3) address_mask [OF lt] by (simp_all add: wb_flash_regs)
  let ?d = "(nor_erase_part k (rewound (fl_dev ?g)))\<lparr>wf_schedule := rest\<rparr>"
  have res: "eraseSector ?bus base a f = (True, ?g\<lparr>fl_dev := ?d\<rparr>)"
    using a run_command_cut_off [OF g(1,2) assms(4), of kCtrlErase nor_erase_part base]
    by (simp add: eraseSector_def waitReady_idle [OF assms(1,2)] Let_def)
  have sector: "(unat x div 4096 = unat a div 4096) = at_offset a 4096 x" for x
    unfolding at_offset_def by (rule same_block [OF aligned_sector(1) [OF a(1) lt]]) simp
  have "nor_array ?d = (\<lambda>x. if 0 < k \<and> at_offset a 4096 x then 0xFF else nor_array (fl_dev f) x)"
    using aligned_sector [OF a(1) lt]
    by (auto simp: fun_eq_iff nor_erase_part_def nor_erase_def rewound_def g sector)
  then show ?thesis by (intro that [OF res]) simp
qed

lemma program_cut_off:
  assumes ok: "no_error (fl_dev f)" "busy_polls (fl_dev f) = 0"
    and sched: "wf_schedule (fl_dev f) = (n, Some k) # rest" "n < kTimeoutCycles"
    and a: "a mod kPageSize = 0" "isSafeWriteAddress a"
  obtains g where "writePage (wb_flash_bus base) base a (Some bs) f = (True, g)"
    "nor_array (fl_dev g) = (\<lambda>x. if at_offset a (min k 256) x
       then nor_array (fl_dev f) x AND bs ! (unat x - unat a) else nor_array (fl_dev f) x)"
proof -
  let ?bus = "wb_flash_bus base"
  have lt: "a < kFlashSize" by (rule safe_write_flash [OF a(2)])
  let ?g = "reg_write ?bus base kRegAddress (a AND 0x00FFFFFF) f"
  have g: "busy_polls (fl_dev ?g) = 0" "wf_schedule (fl_dev ?g) = (n, Some k) # rest"
    "nor_array (fl_dev ?g) = nor_array (fl_dev f)" "wf_address (fl_dev ?g) = a"
    using ok sched address_mask [OF lt] by (simp_all add: wb_flash_regs)
  let ?data = "map (\<lambda>i. bs ! i) [0..<unat kPageSize]"
  have len: "length ?data = 256" by (simp add: kPageSize_def)
  have d3: "fl_dev (reg_write ?bus base kRegControl 0 ?g) = rewound (fl_dev ?g)"
    using g(1) by (simp add: wb_flash_regs write_control_commands)
  define w where "w = write_data ?bus base ?data (reg_write ?bus base kRegControl 0 ?g)"
  have w: "w = (reg_write ?bus base kRegControl 0 ?g)\<lparr>fl_dev := (rewound (fl_dev ?g))
     \<lparr>page_buffer := (\<lambda>i. if i < 256 then ?data ! i else page_buffer (fl_dev ?g) i),
      page_buf_count := 256, page_buf_offset := 255\<rparr>\<rparr>"
    unfolding w_def using len d3
    by (subst write_data_device) (simp_all add: Let_def rewound_def cong: if_cong del: upt_Suc)
  have dw: "busy_polls (fl_dev w) = 0" "wf_schedule (fl_dev w) = (n, Some k) # rest"
    "nor_array (fl_dev w) = nor_array (fl_dev f)" "wf_address (fl_dev w) = a"
    using g by (simp_all add: w rewound_def)
  have bw: "page_buffer (fl_dev w) i = bs ! i" if "i < 256" for i
    using that len by (simp add: w kPageSize_def del: upt_Suc)
  let ?d = "(nor_program_part k (rewound (fl_dev w)))\<lparr>wf_schedule := rest\<rparr>"
  have res: "writePage ?bus base a (Some bs) f = (True, w\<lparr>fl_dev := ?d\<rparr>)"
    using a run_command_cut_off [OF dw(1,2) sched(2), of kCtrlWrite nor_program_part base]
    by (simp add: writePage_def waitReady_idle [OF ok] Let_def w_def del: upt_Suc)
  have "nor_array ?d x = (if at_offset a (min k 256) x
       then nor_array (fl_dev f) x AND bs ! (unat x - unat a) else nor_array (fl_dev f) x)" for x
  proof (cases "at_offset a 256 x")
    case True
    have am: "unat a mod chip_size = unat a" "unat a mod 256 = 0"
      using aligned_page [OF a(1) lt] by simp_all
    have i: "unat x - unat a < 256" using True by (auto simp: at_offset_def)
    show ?thesis
      using True page_index [OF a(1) lt, of x] bw [OF i] am
      by (auto simp: nor_program_part_def nor_program_def rewound_def dw at_offset_def)
  next
    case False
    then show ?thesis
      using page_index(1) [OF a(1) lt, of x] aligned_page [OF a(1) lt]
      by (auto simp: nor_program_part_def nor_program_def rewound_def dw at_offset_def)
  qed
  then show ?thesis by (intro that [OF res]) (simp add: fun_eq_iff)
qed

lemma read_cut_off:
  assumes ok: "no_error (fl_dev f)" "busy_polls (fl_dev f) = 0"
    and sched: "wf_schedule (fl_dev f) = (n, Some k) # rest" "n < kTimeoutCycles"
    and a: "a mod kPageSize = 0" "isSafeReadAddress r a"
  shows "fst (readPage (wb_flash_bus base) base r False a f) =
       Some (map (\<lambda>i. if i < k then nor_array (fl_dev f) (a + of_nat i) else page_buffer (fl_dev f) i) [0..<256])"
    "fl_last_error (snd (readPage (wb_flash_bus base) base r False a f)) = 0"
proof -
  let ?bus = "wb_flash_bus base"
  have lt: "a < kFlashSize"
    using a(2) by (cases r) (simp_all add: isSafeReadAddress_def flash_consts word_less_nat_alt)
  have st: "read_status (fl_dev f) = (idle_status False False, fl_dev f)"
    using ok by (simp add: read_status_def no_error_def)
  let ?f1 = "f\<lparr>fl_last_error := 0, fl_last_status := idle_status False False\<rparr>"
  have i1: "waitReady ?bus base ?f1 = (True, ?f1)" using ok by (intro waitReady_idle) simp_all
  let ?g = "reg_write ?bus base kRegAddress (a AND 0x00FFFFFF) ?f1"
  have g: "busy_polls (fl_dev ?g) = 0" "wf_schedule (fl_dev ?g) = (n, Some k) # rest"
    "wf_address (fl_dev ?g) = a" "nor_array (fl_dev ?g) = nor_array (fl_dev f)"
    "page_buffer (fl_dev ?g) = page_buffer (fl_dev f)"
    using ok sched address_mask [OF lt] by (simp_all add: wb_flash_regs)
  define d where "d = (nor_read_part k (rewound (fl_dev ?g)))\<lparr>wf_schedule := rest\<rparr>"
  have d0: "page_buf_offset d = 0" by (simp add: d_def nor_read_part_def rewound_def)
  let ?out = "map (\<lambda>i. if i < k then nor_array (fl_dev f) (a + of_nat i) else page_buffer (fl_dev f) i) [0..<256]"
  have "page_buffer d i = (if i < k then nor_array (fl_dev f) (a + of_nat i) else page_buffer (fl_dev f) i)"
    if "i < 256" for i
  proof -
    have "(unat a + i) mod chip_size = unat a + i" using aligned_page(3) [OF a(1) lt] that by simp
    then show ?thesis using that by (simp add: d_def nor_read_part_def nor_read_def rewound_def g)
  qed
  then have "map (\<lambda>i. page_buffer d i) [0..<256] = ?out" by (intro map_cong) simp_all
  then have rd: "read_data ?bus base (unat kPageSize) (?g\<lparr>fl_dev := d\<rparr>) =
     (?out, ?g\<lparr>fl_dev := d\<lparr>page_buf_offset := 255\<rparr>\<rparr>)"
    by (subst read_data_device) (simp_all add: kPageSize_def d0)
  have "readPage ?bus base r False a f = (Some ?out, ?g\<lparr>fl_dev := d\<lparr>page_buf_offset := 255\<rparr>\<rparr>)"
    unfolding readPage_def
    using a rd run_command_cut_off [OF g(1,2) sched(2), of kCtrlRead nor_read_part base]
    by (simp add: wb_flash_regs(1) st Let_def i1 d_def del: upt_Suc upt_rec_numeral)
  then show "fst (readPage ?bus base r False a f) = Some ?out"
    "fl_last_error (snd (readPage ?bus base r False a f)) = 0"
    by (simp_all add: wb_flash_regs)
qed



end
