(* ===== verification/PagedFlash.thy ===== *)
theory PagedFlash
  imports FlashDevice
begin

text \<open>
  How the loader reads object files out of flash (\<open>flashReadBytes\<close> and
  \<open>checksum32FromFlash\<close> of \<open>plc_loader_v1.h\<close>): page by page through \<open>Flash::readPage\<close>, at
  any byte offset. The page reader is the locale \<open>page_source\<close>; under its law a paged read
  is the bytewise read of the stored bytes. The flash driver on its controller is the
  interpretation.
\<close>

section \<open>The loops\<close>

type_synonym 's page_reader = "u32 \<Rightarrow> 's \<Rightarrow> u8 list option \<times> 's"

definition page_base_of :: "u32 \<Rightarrow> u32" where
  "page_base_of pos = pos AND NOT (kPageSize - 1)"

definition page_chunk :: "u32 \<Rightarrow> nat \<Rightarrow> nat" where
  "page_chunk pos remaining =
     (let chunk = unat (kPageSize - (pos - page_base_of pos))
      in if chunk > remaining then remaining else chunk)"

lemma unat_page_offset: "unat (pos - page_base_of pos) = unat pos mod 256"
proof -
  have "page_base_of pos = push_bit 8 (drop_bit 8 pos)"
  proof -
    have "page_base_of pos = pos AND NOT (mask 8)"
      by (simp add: page_base_of_def kPageSize_def mask_eq_exp_minus_1)
    also have "\<dots> = push_bit 8 (drop_bit 8 pos)"
      by (rule bit_word_eqI) (auto simp: bit_simps)
    finally show ?thesis .
  qed
  then have "pos - page_base_of pos = take_bit 8 pos"
    using bits_ident [of 8 pos] by (simp add: algebra_simps)
  moreover have "unat (take_bit 8 pos) = unat pos mod 256"
  proof -
    have "unat (take_bit 8 pos) = take_bit 8 (unat pos)" by (rule unsigned_take_bit_eq)
    then show ?thesis by (simp only: take_bit_eq_mod) simp
  qed
  ultimately show ?thesis by simp
qed

lemma page_chunk_eq: "page_chunk pos remaining = min remaining (256 - unat pos mod 256)"
proof -
  have "unat (kPageSize - (pos - page_base_of pos)) = 256 - unat pos mod 256"
    using unat_page_offset [of pos] mod_less_divisor [of 256 "unat pos"]
    by (subst unat_sub) (auto simp: kPageSize_def word_le_nat_alt)
  then show ?thesis by (simp add: page_chunk_def Let_def min_def)
qed

text \<open>
  \<open>flashReadBytes\<close>: whether every page could be read, and the bytes copied to the caller's
  buffer before it returned.
\<close>

function flash_read_loop ::
  "'s page_reader \<Rightarrow> u32 \<Rightarrow> nat \<Rightarrow> nat \<Rightarrow> u8 list \<Rightarrow> 's \<Rightarrow> bool \<times> u8 list \<times> 's" where
  "flash_read_loop rp offset amount copied out s =
     (if copied < amount then
        (let pos = offset + of_nat copied in
         case rp (page_base_of pos) s of
           (None, s') \<Rightarrow> (False, out, s')
         | (Some page, s') \<Rightarrow>
             (let chunk = page_chunk pos (amount - copied)
              in flash_read_loop rp offset amount (copied + chunk)
                   (out @ take chunk (drop (unat (pos - page_base_of pos)) page)) s'))
      else (True, out, s))"
  by pat_completeness auto
termination
proof (relation "measure (\<lambda>(rp, offset, amount, copied, out, s). amount - copied)", goal_cases)
  case (2 rp offset amount copied out s pos res s' page chunk)
  have "0 < page_chunk pos (amount - copied)"
    using 2(1) mod_less_divisor [of 256 "unat pos"] by (simp add: page_chunk_eq)
  with 2 show ?case by simp
qed simp

declare flash_read_loop.simps [simp del]

definition flashReadBytes :: "'s page_reader \<Rightarrow> u32 \<Rightarrow> u32 \<Rightarrow> 's \<Rightarrow> bool \<times> u8 list \<times> 's" where
  "flashReadBytes rp offset amount s = flash_read_loop rp offset (unat amount) 0 [] s"

function checksum_loop ::
  "'s page_reader \<Rightarrow> u32 \<Rightarrow> nat \<Rightarrow> nat \<Rightarrow> u32 \<Rightarrow> 's \<Rightarrow> u32 \<times> 's" where
  "checksum_loop rp offset amount copied acc s =
     (if copied < amount then
        (let pos = offset + of_nat copied in
         case rp (page_base_of pos) s of
           (None, s') \<Rightarrow> (0, s')
         | (Some page, s') \<Rightarrow>
             (let chunk = page_chunk pos (amount - copied)
              in checksum_loop rp offset amount (copied + chunk)
                   (fnv1a acc (take chunk (drop (unat (pos - page_base_of pos)) page))) s'))
      else (acc, s))"
  by pat_completeness auto
termination
proof (relation "measure (\<lambda>(rp, offset, amount, copied, acc, s). amount - copied)", goal_cases)
  case (2 rp offset amount copied acc s pos res s' page chunk)
  have "0 < page_chunk pos (amount - copied)"
    using 2(1) mod_less_divisor [of 256 "unat pos"] by (simp add: page_chunk_eq)
  with 2 show ?case by simp
qed simp

declare checksum_loop.simps [simp del]

definition checksum32FromFlash :: "'s page_reader \<Rightarrow> u32 \<Rightarrow> u32 \<Rightarrow> 's \<Rightarrow> u32 \<times> 's" where
  "checksum32FromFlash rp offset amount s = checksum_loop rp offset (unat amount) 0 2166136261 s"

section \<open>The interface\<close>

text \<open>
  A page reader over stored bytes: while the store is in order, reading an aligned page of
  the readable window returns its bytes, and leaves the store in order with the same bytes.
\<close>

locale page_source =
  fixes rp :: "'s page_reader"
    and store_ok :: "'s \<Rightarrow> bool"
    and content :: "'s \<Rightarrow> u32 \<Rightarrow> u8"
    and readable :: "u32 \<Rightarrow> bool"
  assumes read_page: "store_ok s \<Longrightarrow> readable a \<Longrightarrow> unat a mod 256 = 0 \<Longrightarrow>
      \<exists>s'. rp a s = (Some (map (\<lambda>i. content s (a + of_nat i)) [0..<256]), s') \<and>
           store_ok s' \<and> content s' = content s"
    and read_keeps: "store_ok s \<Longrightarrow> rp a s = (res, s') \<Longrightarrow> store_ok s' \<and> content s' = content s"
begin

text \<open>The bytes of a range, and the range being readable page by page.\<close>

definition stored :: "'s \<Rightarrow> u32 \<Rightarrow> nat \<Rightarrow> u8 list" where
  "stored s a n = map (\<lambda>i. content s (a + of_nat i)) [0..<n]"

definition readable_range :: "u32 \<Rightarrow> nat \<Rightarrow> bool" where
  "readable_range a n = (\<forall>i<n. readable (page_base_of (a + of_nat i)))"

lemma page_part:
  assumes "store_ok s" "readable (page_base_of pos)"
  obtains s' where "rp (page_base_of pos) s =
      (Some (map (\<lambda>i. content s (page_base_of pos + of_nat i)) [0..<256]), s')"
    "store_ok s'" "content s' = content s"
proof -
  have "unat (page_base_of pos) = unat pos - unat pos mod 256"
  proof -
    have "page_base_of pos \<le> pos" by (simp add: page_base_of_def word_and_le2 and.commute)
    then have "unat (pos - page_base_of pos) = unat pos - unat (page_base_of pos)"
      by (simp add: unat_sub)
    moreover have "unat (page_base_of pos) \<le> unat pos"
      using \<open>page_base_of pos \<le> pos\<close> by (simp add: word_le_nat_alt)
    ultimately show ?thesis using unat_page_offset [of pos] by linarith
  qed
  then have "unat (page_base_of pos) mod 256 = 0" by (simp add: minus_mod_eq_mult_div)
  then obtain s' where "rp (page_base_of pos) s =
      (Some (map (\<lambda>i. content s (page_base_of pos + of_nat i)) [0..<256]), s')"
    "store_ok s' \<and> content s' = content s"
    using read_page [OF assms] by auto
  then show ?thesis using that by simp
qed

lemma page_slice:
  assumes "k \<le> 256 - unat pos mod 256"
  shows "take k (drop (unat (pos - page_base_of pos))
      (map (\<lambda>i. content s (page_base_of pos + of_nat i)) [0..<256])) =
    map (\<lambda>i. content s (pos + of_nat i)) [0..<k]"
proof (rule nth_equalityI)
  let ?o = "unat (pos - page_base_of pos)"
  have o: "?o = unat pos mod 256" by (rule unat_page_offset)
  then show len: "length (take k (drop ?o (map (\<lambda>i. content s (page_base_of pos + of_nat i)) [0..<256]))) =
     length (map (\<lambda>i. content s (pos + of_nat i)) [0..<k])"
    using assms mod_less_divisor [of 256 "unat pos"] by simp
  fix i assume "i < length (take k (drop ?o (map (\<lambda>i. content s (page_base_of pos + of_nat i)) [0..<256])))"
  then have i: "i < k" "?o + i < 256" using assms o by simp_all
  have "page_base_of pos + of_nat (?o + i) = pos + of_nat i" by simp
  then show "take k (drop ?o (map (\<lambda>i. content s (page_base_of pos + of_nat i)) [0..<256])) ! i =
      map (\<lambda>i. content s (pos + of_nat i)) [0..<k] ! i"
    using i by (simp add: algebra_simps del: upt_Suc upt_rec_numeral)
qed

lemma stored_append: "stored s a (k + n) = stored s a k @ stored s (a + of_nat k) n"
  by (rule nth_equalityI) (auto simp: stored_def nth_append add.assoc simp flip: of_nat_add)

lemma stored_split: "k \<le> n \<Longrightarrow> stored s a n = stored s a k @ stored s (a + of_nat k) (n - k)"
  using stored_append [of s a k "n - k"] by simp

lemma flash_read_loop_correct:
  assumes "store_ok s" "readable_range offset amount" "copied \<le> amount"
  shows "\<exists>s'. flash_read_loop rp offset amount copied out s =
      (True, out @ stored s (offset + of_nat copied) (amount - copied), s') \<and>
      store_ok s' \<and> content s' = content s"
  using assms
proof (induction "amount - copied" arbitrary: copied out s rule: less_induct)
  case less
  show ?case
  proof (cases "copied < amount")
    case False
    then show ?thesis
      using less.prems by (subst flash_read_loop.simps) (simp add: stored_def)
  next
    case True
    let ?pos = "offset + of_nat copied"
    obtain s' where s': "rp (page_base_of ?pos) s =
        (Some (map (\<lambda>i. content s (page_base_of ?pos + of_nat i)) [0..<256]), s')"
      "store_ok s'" "content s' = content s"
      using page_part [OF less.prems(1), of ?pos] less.prems(2) True
      by (auto simp: readable_range_def)
    define k where "k = page_chunk ?pos (amount - copied)"
    have k: "0 < k" "k \<le> amount - copied" "k \<le> 256 - unat ?pos mod 256"
      using True mod_less_divisor [of 256 "unat ?pos"] by (simp_all add: k_def page_chunk_eq)
    have slice: "take k (drop (unat (?pos - page_base_of ?pos))
        (map (\<lambda>i. content s (page_base_of ?pos + of_nat i)) [0..<256])) = stored s ?pos k"
      unfolding stored_def by (rule page_slice [OF k(3)])
    obtain s'' where r: "flash_read_loop rp offset amount (copied + k) (out @ stored s ?pos k) s' =
        (True, (out @ stored s ?pos k) @
          stored s' (offset + of_nat (copied + k)) (amount - (copied + k)), s'')"
      "store_ok s''" "content s'' = content s'"
    proof -
      have "amount - (copied + k) < amount - copied" "copied + k \<le> amount" using k True by simp_all
      from less.hyps [OF this(1) s'(2) less.prems(2) this(2), of "out @ stored s ?pos k"] that
      show thesis by blast
    qed
    have "stored s ?pos (amount - copied) =
        stored s ?pos k @ stored s (?pos + of_nat k) (amount - copied - k)"
      using k(2) by (rule stored_split)
    moreover have "stored s' a n = stored s a n" for a n
      by (simp add: stored_def s'(3))
    ultimately have "flash_read_loop rp offset amount copied out s =
        (True, out @ stored s ?pos (amount - copied), s'')"
      using True r(1)
      by (subst flash_read_loop.simps)
        (simp add: s'(1) Let_def slice k_def [symmetric] add.assoc del: upt_Suc upt_rec_numeral)
    then show ?thesis using r s' by auto
  qed
qed

lemma checksum_loop_correct:
  assumes "store_ok s" "readable_range offset amount" "copied \<le> amount"
  shows "\<exists>s'. checksum_loop rp offset amount copied acc s =
      (fnv1a acc (stored s (offset + of_nat copied) (amount - copied)), s') \<and>
      store_ok s' \<and> content s' = content s"
  using assms
proof (induction "amount - copied" arbitrary: copied acc s rule: less_induct)
  case less
  show ?case
  proof (cases "copied < amount")
    case False
    then show ?thesis
      using less.prems by (subst checksum_loop.simps) (simp add: stored_def)
  next
    case True
    let ?pos = "offset + of_nat copied"
    obtain s' where s': "rp (page_base_of ?pos) s =
        (Some (map (\<lambda>i. content s (page_base_of ?pos + of_nat i)) [0..<256]), s')"
      "store_ok s'" "content s' = content s"
      using page_part [OF less.prems(1), of ?pos] less.prems(2) True
      by (auto simp: readable_range_def)
    define k where "k = page_chunk ?pos (amount - copied)"
    have k: "0 < k" "k \<le> amount - copied" "k \<le> 256 - unat ?pos mod 256"
      using True mod_less_divisor [of 256 "unat ?pos"] by (simp_all add: k_def page_chunk_eq)
    have slice: "take k (drop (unat (?pos - page_base_of ?pos))
        (map (\<lambda>i. content s (page_base_of ?pos + of_nat i)) [0..<256])) = stored s ?pos k"
      unfolding stored_def by (rule page_slice [OF k(3)])
    obtain s'' where r: "checksum_loop rp offset amount (copied + k) (fnv1a acc (stored s ?pos k)) s' =
        (fnv1a (fnv1a acc (stored s ?pos k))
          (stored s' (offset + of_nat (copied + k)) (amount - (copied + k))), s'')"
      "store_ok s''" "content s'' = content s'"
    proof -
      have "amount - (copied + k) < amount - copied" "copied + k \<le> amount" using k True by simp_all
      from less.hyps [OF this(1) s'(2) less.prems(2) this(2), of "fnv1a acc (stored s ?pos k)"] that
      show thesis by blast
    qed
    have "stored s ?pos (amount - copied) =
        stored s ?pos k @ stored s (?pos + of_nat k) (amount - copied - k)"
      using k(2) by (rule stored_split)
    moreover have "stored s' a n = stored s a n" for a n
      by (simp add: stored_def s'(3))
    ultimately have "checksum_loop rp offset amount copied acc s =
        (fnv1a acc (stored s ?pos (amount - copied)), s'')"
      using True r(1)
      by (subst checksum_loop.simps)
        (simp add: s'(1) Let_def slice k_def [symmetric] add.assoc fnv1a_append
          del: upt_Suc upt_rec_numeral)
    then show ?thesis using r s' by auto
  qed
qed

lemma flash_read_loop_keeps:
  "store_ok s \<Longrightarrow> flash_read_loop rp offset amount copied out s = (ok, bs, s') \<Longrightarrow>
   store_ok s' \<and> content s' = content s"
proof (induction "amount - copied" arbitrary: copied out s rule: less_induct)
  case less
  show ?case
  proof (cases "copied < amount")
    case False
    then show ?thesis using less.prems by (simp add: flash_read_loop.simps)
  next
    case True
    let ?pos = "offset + of_nat copied"
    obtain res s1 where r: "rp (page_base_of ?pos) s = (res, s1)" by fastforce
    have s1: "store_ok s1" "content s1 = content s" using read_keeps [OF less.prems(1) r] by simp_all
    show ?thesis
    proof (cases res)
      case None
      then show ?thesis using less.prems(2) True r s1 by (simp add: flash_read_loop.simps Let_def)
    next
      case (Some page)
      let ?k = "page_chunk ?pos (amount - copied)"
      have "0 < ?k"
        using True mod_less_divisor [of 256 "unat ?pos"] by (simp add: page_chunk_eq)
      then have lt: "amount - (copied + ?k) < amount - copied" using True by simp
      have "flash_read_loop rp offset amount (copied + ?k)
          (out @ take ?k (drop (unat (?pos - page_base_of ?pos)) page)) s1 = (ok, bs, s')"
        using less.prems(2) True r Some by (simp add: flash_read_loop.simps [of _ _ _ copied] Let_def)
      from less.hyps [OF lt s1(1) this] s1(2) show ?thesis by simp
    qed
  qed
qed

lemma checksum_loop_keeps:
  "store_ok s \<Longrightarrow> checksum_loop rp offset amount copied acc s = (v, s') \<Longrightarrow>
   store_ok s' \<and> content s' = content s"
proof (induction "amount - copied" arbitrary: copied acc s rule: less_induct)
  case less
  show ?case
  proof (cases "copied < amount")
    case False
    then show ?thesis using less.prems by (simp add: checksum_loop.simps)
  next
    case True
    let ?pos = "offset + of_nat copied"
    obtain res s1 where r: "rp (page_base_of ?pos) s = (res, s1)" by fastforce
    have s1: "store_ok s1" "content s1 = content s" using read_keeps [OF less.prems(1) r] by simp_all
    show ?thesis
    proof (cases res)
      case None
      then show ?thesis using less.prems(2) True r s1 by (simp add: checksum_loop.simps Let_def)
    next
      case (Some page)
      let ?k = "page_chunk ?pos (amount - copied)"
      have "0 < ?k"
        using True mod_less_divisor [of 256 "unat ?pos"] by (simp add: page_chunk_eq)
      then have lt: "amount - (copied + ?k) < amount - copied" using True by simp
      have "checksum_loop rp offset amount (copied + ?k)
          (fnv1a acc (take ?k (drop (unat (?pos - page_base_of ?pos)) page))) s1 = (v, s')"
        using less.prems(2) True r Some by (simp add: checksum_loop.simps [of _ _ _ copied] Let_def)
      from less.hyps [OF lt s1(1) this] s1(2) show ?thesis by simp
    qed
  qed
qed

lemma flashReadBytes_keeps:
  "store_ok s \<Longrightarrow> flashReadBytes rp offset amount s = (ok, bs, s') \<Longrightarrow>
   store_ok s' \<and> content s' = content s"
  unfolding flashReadBytes_def by (rule flash_read_loop_keeps)

lemma checksum32FromFlash_keeps:
  "store_ok s \<Longrightarrow> checksum32FromFlash rp offset amount s = (v, s') \<Longrightarrow>
   store_ok s' \<and> content s' = content s"
  unfolding checksum32FromFlash_def by (rule checksum_loop_keeps)

lemma flashReadBytes_stored:
  assumes "store_ok s" "readable_range offset (unat amount)"
  obtains s' where "flashReadBytes rp offset amount s = (True, stored s offset (unat amount), s')"
    "store_ok s'" "content s' = content s"
  using flash_read_loop_correct [OF assms, of 0 "[]"] by (auto simp: flashReadBytes_def)

lemma checksum32FromFlash_stored:
  assumes "store_ok s" "readable_range offset (unat amount)"
  obtains s' where "checksum32FromFlash rp offset amount s =
      (fnv1a 2166136261 (stored s offset (unat amount)), s')"
    "store_ok s'" "content s' = content s"
  using checksum_loop_correct [OF assms, of 0 2166136261] by (auto simp: checksum32FromFlash_def)

end

section \<open>The flash driver as a page source\<close>

interpretation flash_pages: page_source
  "readPage (wb_flash_bus base) base r False" "\<lambda>f. healthy (fl_dev f)"
  "\<lambda>f. nor_array (fl_dev f)" "isSafeReadAddress r" for base r
proof
  fix f :: "wb_flash flash" and a :: u32
  assume h: "healthy (fl_dev f)" and a: "isSafeReadAddress r a" "unat a mod 256 = 0"
  have "unat (a mod kPageSize) = 0" using a(2) by (simp add: unat_mod kPageSize_def)
  then have "a mod kPageSize = 0" by (simp only: unat_eq_zero)
  then obtain g where "readPage (wb_flash_bus base) base r False a f =
       (Some (map (\<lambda>i. nor_array (fl_dev f) (a + of_nat i)) [0..<256]), g)"
    "healthy (fl_dev g)" "nor_array (fl_dev g) = nor_array (fl_dev f)"
    using readPage_device [OF h _ a(1), of base] by metis
  then show "\<exists>g. readPage (wb_flash_bus base) base r False a f =
       (Some (map (\<lambda>i. nor_array (fl_dev f) (a + of_nat i)) [0..<256]), g) \<and>
       healthy (fl_dev g) \<and> nor_array (fl_dev g) = nor_array (fl_dev f)"
    by blast
next
  fix f g :: "wb_flash flash" and a res
  assume h: "healthy (fl_dev f)" and r: "readPage (wb_flash_bus base) base r False a f = (res, g)"
  show "healthy (fl_dev g) \<and> nor_array (fl_dev g) = nor_array (fl_dev f)"
  proof (cases "a mod kPageSize = 0 \<and> isSafeReadAddress r a")
    case True
    then show ?thesis using readPage_device [OF h, of a r base] r by (metis prod.inject)
  next
    case False
    have st: "healthy d' \<and> nor_array d' = nor_array d"
      if "healthy d" "read_status d = (v, d')" for d d' v
      using that by (auto simp: read_status_def healthy_def no_error_def split: if_splits)
    show ?thesis
      using r False h
      by (auto simp: readPage_def read_failed_def wb_flash_regs(1) Let_def split: prod.splits)
        (metis st)+
  qed
qed

lemma unat_page_base: "unat (page_base_of pos) = unat pos - unat pos mod 256"
proof -
  have "page_base_of pos \<le> pos" by (simp add: page_base_of_def word_and_le2 and.commute)
  then have "unat (pos - page_base_of pos) = unat pos - unat (page_base_of pos)"
    "unat (page_base_of pos) \<le> unat pos"
    by (simp_all add: unat_sub word_le_nat_alt)
  then show ?thesis using unat_page_offset [of pos] by linarith
qed

lemma window_readable:
  assumes "kRuntimeDataBase \<le> a" "unat a + n \<le> unat kRuntimeDataEnd"
  shows "flash_pages.readable_range r a n"
  unfolding flash_pages.readable_range_def
proof (intro allI impI)
  fix i assume i: "i < n"
  have c: "unat kRuntimeDataBase = 0x200000" "unat kRuntimeDataEnd = 0x244000"
    "unat kFlashSize = 0x800000"
    by (simp_all add: flash_consts)
  have u: "unat (a + of_nat i) = unat a + i"
    using assms i by (intro unat_add_of_nat) (simp add: c)
  have a: "0x200000 \<le> unat a" using assms(1) by (simp add: word_le_nat_alt c)
  let ?b = "unat (page_base_of (a + of_nat i))"
  have b: "?b = (unat a + i) - (unat a + i) mod 256" by (simp only: unat_page_base u)
  also have "\<dots> = (unat a + i) div 256 * 256" by (rule minus_mod_eq_div_mult)
  finally have "?b = (unat a + i) div 256 * 256" .
  moreover have "0x2000 \<le> (unat a + i) div 256" using a by (simp add: less_eq_div_iff_mult_less_eq)
  ultimately have "0x200000 \<le> ?b" by simp
  moreover have "?b < 0x244000" using b assms(2) i c by linarith
  ultimately show "isSafeReadAddress r (page_base_of (a + of_nat i))"
    by (cases r) (simp_all add: isSafeReadAddress_def word_less_nat_alt word_le_nat_alt c)
qed

text \<open>
  C15: Reading any byte range of the runtime data window through the paged loop of the
  loader, over the flash driver and its controller, yields exactly the stored bytes, at
  any alignment and across page boundaries; the streaming checksum is the checksum of
  those bytes, and neither changes the flash.
\<close>
theorem paged_read_bytewise:
  assumes "healthy (fl_dev f)"
    and "kRuntimeDataBase \<le> a" "unat a + unat n \<le> unat kRuntimeDataEnd"
  shows "let rp = readPage (wb_flash_bus base) base r False;
             bytes = map (\<lambda>i. nor_array (fl_dev f) (a + of_nat i)) [0..<unat n];
             (ok, out, g) = flashReadBytes rp a n f;
             (sum, h) = checksum32FromFlash rp a n f
         in ok \<and> out = bytes \<and> sum = fnv1a 2166136261 bytes \<and>
            nor_array (fl_dev g) = nor_array (fl_dev f) \<and>
            nor_array (fl_dev h) = nor_array (fl_dev f)"
proof -
  note rng = window_readable [OF assms(2,3), of r]
  obtain g where "flashReadBytes (readPage (wb_flash_bus base) base r False) a n f =
      (True, flash_pages.stored f a (unat n), g)" "nor_array (fl_dev g) = nor_array (fl_dev f)"
    using flash_pages.flashReadBytes_stored [OF assms(1) rng, of base] by blast
  moreover obtain h where "checksum32FromFlash (readPage (wb_flash_bus base) base r False) a n f =
      (fnv1a 2166136261 (flash_pages.stored f a (unat n)), h)"
    "nor_array (fl_dev h) = nor_array (fl_dev f)"
    using flash_pages.checksum32FromFlash_stored [OF assms(1) rng, of base] by blast
  ultimately show ?thesis by (simp add: flash_pages.stored_def)
qed

lemma paged_read_bytewise_witness:
  "let rp = readPage (wb_flash_bus 0) 0 False False;
       (ok, out, g) = flashReadBytes rp 0x2040F0 600 (blank_flash [(3, None), (5, None)])
   in ok \<and> out = replicate 600 0x5A"
proof -
  let ?f = "blank_flash [(3, None), (5, None)]"
  have h: "healthy (fl_dev ?f)"
    by (simp add: blank_flash_def healthy_def no_error_def kTimeoutCycles_def)
  have a: "kRuntimeDataBase \<le> 0x2040F0"
    "unat (0x2040F0 :: u32) + unat (600 :: u32) \<le> unat kRuntimeDataEnd"
    by (simp_all add: flash_consts)
  have "map (\<lambda>i. nor_array (fl_dev ?f) (0x2040F0 + of_nat i)) [0..<600] = replicate 600 0x5A"
    by (rule nth_equalityI) (simp_all add: blank_flash_def del: upt_Suc upt_rec_numeral)
  then show ?thesis
    using paged_read_bytewise [OF h a, of 0 False]
    by (simp add: Let_def del: upt_Suc upt_rec_numeral split: prod.splits)
qed

end
