(* ===== verification/Loader.thy ===== *)
theory Loader
  imports PagedFlash Bytecode CatalogProps
begin

text \<open>
  The load paths of \<open>PlcSlotLoaderV1\<close> (\<open>plc_loader_v1.h\<close>): the reconciliation of the slot
  variables of an object file with the point catalog, loading a parsed or serialised
  object from memory, and loading an object file out of flash. The loader works on the
  memory, the catalog, the publisher, the flash and the static scratch array of the
  catalog; the C heap behind that array is the argument \<open>alloc\<close>, which says for a required
  count whether \<open>realloc\<close> succeeds.
\<close>

section \<open>State and results\<close>

record 's loader =
  ld_mem :: mem
  ld_catalog :: point_catalog
  ld_publisher :: publisher
  ld_scratch_capacity :: nat
  ld_flash :: 's

datatype slot_load_status =
  LoadOk | LoadInvalidArgument | LoadRegionUnavailable | LoadSlotOutOfRange
| LoadBytecodeTooLarge | LoadParseFailed | LoadLinkFailed | LoadAbiMismatch
| LoadChecksumMismatch | LoadFlashReadFailed | LoadParamsTooLarge | LoadUnsupportedOpcode

record slot_load_result =
  sr_status :: slot_load_status
  sr_parse_status :: object_parse_status
  sr_link :: object_link_result
  sr_bytecode_addr :: u32
  sr_manifest_addr :: u32
  sr_control_addr :: u32
  sr_layout :: slot_layout

definition empty_link_result :: object_link_result where
  "empty_link_result =
     \<lparr>ol_status = ObjLinkOk, ol_resolve_status = LinkResolved, ol_failing_symbol_index = 0,
      ol_failing_relocation_index = 0, ol_resolved_relocation_count = 0,
      ol_linked_code_size = 0, ol_entry_offset = 0\<rparr>"

definition empty_load_result :: slot_load_result where
  "empty_load_result =
     \<lparr>sr_status = LoadOk, sr_parse_status = ParseOk, sr_link = empty_link_result,
      sr_bytecode_addr = 0, sr_manifest_addr = 0, sr_control_addr = 0, sr_layout = empty_layout\<rparr>"

text \<open>The result both load functions start from, and with the addresses of the slot.\<close>

definition initial_load_result :: slot_load_result where
  "initial_load_result =
     empty_load_result\<lparr>sr_status := LoadInvalidArgument,
                       sr_link := empty_link_result\<lparr>ol_status := ObjLinkInvalidArgument\<rparr>\<rparr>"

definition slot_load_result_at :: "u16 \<Rightarrow> slot_load_result \<Rightarrow> slot_load_result" where
  "slot_load_result_at slot r =
     r\<lparr>sr_bytecode_addr := slotBytecodeAddress slot, sr_manifest_addr := slotManifestAddress slot,
       sr_control_addr := slotControlAddress slot, sr_layout := slotLayout slot\<rparr>"

definition variables_failed :: "slot_load_result \<Rightarrow> slot_load_result" where
  "variables_failed r =
     r\<lparr>sr_status := LoadLinkFailed,
       sr_link := (sr_link r)\<lparr>ol_status := ObjLinkResolveFailed,
                              ol_resolve_status := LinkUnsupportedPointType\<rparr>\<rparr>"

section \<open>Slot variables\<close>

definition isReservedSlotPointId :: "u8 list \<Rightarrow> bool" where
  "isReservedSlotPointId pt =
     (if cstr pt = [] then True else list_ex (\<lambda>r. strcmp_eq pt (lit r)) reserved_point_ids)"

text \<open>
  The loader's own \<open>buildSlotVariableIdentity\<close>: the flag, and the identity the caller is
  left with in either case.
\<close>

definition loaderSlotVariableIdentity ::
  "point_catalog \<Rightarrow> u16 \<Rightarrow> u8 list \<Rightarrow> point_identity \<Rightarrow> bool \<times> point_identity" where
  "loaderSlotVariableIdentity c slot symbol_name pid =
     (if cat_count c = 0 \<or> cstr symbol_name = [] then (False, pid)
      else
        (let text = slot_feature_text slot in
         if length text \<ge> 32 then (False, empty_identity\<lparr>feature := take 31 text @ [0]\<rparr>)
         else
           (let feat = text @ replicate (32 - length text) 0;
                first = find (\<lambda>i. backend (cat_entries c i) = BackendLocal \<and>
                                  strcmp_eq (feature (pd_id (cat_entries c i))) feat)
                          [0..<cat_count c];
                dev = (case first of None \<Rightarrow> zbuf 16
                       | Some i \<Rightarrow> strncpy (zbuf 16) (device_id (pd_id (cat_entries c i))) 15);
                dev' = (if cstr dev \<noteq> [] then dev
                        else strncpy dev (device_id (pd_id (cat_entries c 0))) 15);
                base = empty_identity\<lparr>device_id := dev', feature := feat\<rparr>
            in if isReservedSlotPointId symbol_name then (False, base)
               else
                 (let pt = strncpy (zbuf 32) symbol_name 31
                  in (cstr pt \<noteq> [], base\<lparr>point_id := pt\<rparr>)))))"

definition sym_flags :: "symbol_record \<Rightarrow> u8" where "sym_flags s = s ! 17"
definition kPlcSymbolFlagSlotVarPrivate :: u8 where "kPlcSymbolFlagSlotVarPrivate = 1"

text \<open>The definition of a slot variable, over the identity.\<close>

definition slot_variable_definition :: "point_identity \<Rightarrow> symbol_record \<Rightarrow> point_definition" where
  "slot_variable_definition pid s =
     empty_definition\<lparr>pd_id := pid,
       display_name := strncpy (zbuf 32) (sym_name s) 31,
       backend := BackendLocal,
       direction := (if sym_flags s AND kPlcSymbolFlagSlotVarPrivate \<noteq> 0 then DirInput else DirInOut),
       value_type := value_type_of_raw (sym_expected_type s),
       polling := \<lparr>refresh_ms = 0, timeout_ms = 0\<rparr>,
       string_capacity := 0, scale := f32_one,
       unit_text := (zbuf 10)[0 := 0], ref := zbuf ref_size\<rparr>"

definition buildExpectedSlotVariableDefinition ::
  "point_catalog \<Rightarrow> u16 \<Rightarrow> symbol_record \<Rightarrow> point_definition" where
  "buildExpectedSlotVariableDefinition c slot s =
     (case loaderSlotVariableIdentity c slot (sym_name s) empty_identity of
        (ok, pid) \<Rightarrow>
          if \<not> ok \<or> \<not> isSupportedSlotVariableType (sym_expected_type s)
          then empty_definition\<lparr>pd_id := pid\<rparr>
          else slot_variable_definition pid s)"

definition slotVariableDefinitionMatches :: "point_definition \<Rightarrow> point_definition \<Rightarrow> bool" where
  "slotVariableDefinitionMatches actual expected =
     (strcmp_eq (device_id (pd_id actual)) (device_id (pd_id expected)) \<and>
      strcmp_eq (feature (pd_id actual)) (feature (pd_id expected)) \<and>
      strcmp_eq (point_id (pd_id actual)) (point_id (pd_id expected)) \<and>
      strcmp_eq (display_name actual) (display_name expected) \<and>
      backend actual = backend expected \<and>
      direction actual = direction expected \<and>
      value_type actual = value_type expected \<and>
      refresh_ms (polling actual) = refresh_ms (polling expected) \<and>
      timeout_ms (polling actual) = timeout_ms (polling expected) \<and>
      string_capacity actual = string_capacity expected \<and>
      f32_eq (scale actual) (scale expected) \<and>
      strcmp_eq (unit_text actual) (unit_text expected) \<and>
      enum_def actual = enum_def expected \<and>
      ref actual = ref expected)"

definition isSlotVariablePoint :: "point_definition \<Rightarrow> u16 \<Rightarrow> bool" where
  "isSlotVariablePoint d slot =
     (if backend d \<noteq> BackendLocal then False
      else
        (let text = slot_feature_text slot in
         if length text \<ge> 32 then False
         else strcmp_eq (feature (pd_id d)) text \<and>
              \<not> isReservedSlotPointId (point_id (pd_id d))))"

definition existing_variable_count :: "point_catalog \<Rightarrow> u16 \<Rightarrow> nat" where
  "existing_variable_count c slot =
     length (filter (\<lambda>i. isSlotVariablePoint (cat_entries c i) slot) [0..<cat_count c])"

text \<open>The static scratch array: its new capacity, or \<open>None\<close> when it cannot grow.\<close>

definition slotVariableDefinitionScratch :: "(nat \<Rightarrow> bool) \<Rightarrow> nat \<Rightarrow> nat \<Rightarrow> nat option" where
  "slotVariableDefinitionScratch alloc capacity required_count =
     (let required = (if required_count = 0 then 1 else required_count)
      in if capacity < required then (if alloc required then Some required else None)
         else Some capacity)"

text \<open>
  The symbol loop of \<open>reconcileSlotVariablePoints\<close>: the expected definitions and whether a
  publication is needed, or \<open>None\<close> for a return of false. The reader may change the flash.
\<close>

type_synonym 's symbol_reader = "nat \<Rightarrow> 's loader \<Rightarrow> symbol_record option \<times> 's loader"

fun expected_variables ::
  "'s symbol_reader \<Rightarrow> u16 \<Rightarrow> nat list \<Rightarrow> point_definition list \<Rightarrow> bool \<Rightarrow> 's loader \<Rightarrow>
   (point_definition list \<times> bool) option \<times> 's loader" where
  "expected_variables rd slot [] ds needs_publish s = (Some (ds, needs_publish), s)"
| "expected_variables rd slot (i # is) ds needs_publish s =
     (case rd i s of
        (None, s1) \<Rightarrow> (None, s1)
      | (Some symb, s1) \<Rightarrow>
          if sym_kind symb \<noteq> kPlcSymbolSlotVar
          then expected_variables rd slot is ds needs_publish s1
          else if length ds \<ge> kMaxPoints then (None, s1)
          else
            (let c = ld_catalog s1; d = buildExpectedSlotVariableDefinition c slot symb
             in if cstr (point_id (pd_id d)) = [] then (None, s1)
                else
                  (let k = findIndex c (pd_id d);
                       stale = (if k < cat_count c
                                then \<not> slotVariableDefinitionMatches (cat_entries c k) d
                                else True);
                       unpublished = (k \<ge> cat_count c \<or>
                         pointStateIndexForCatalogIndex (ld_publisher s1) k = kInvalidPointStateIndex)
                   in expected_variables rd slot is (ds @ [d])
                        (needs_publish \<or> stale \<or> unpublished) s1)))"

definition reconcileSlotVariablePoints ::
  "(nat \<Rightarrow> bool) \<Rightarrow> 's symbol_reader \<Rightarrow> u16 \<Rightarrow> u16 \<Rightarrow> 's loader \<Rightarrow> bool \<times> 's loader" where
  "reconcileSlotVariablePoints alloc rd slot symbol_count s =
     (case slotVariableDefinitionScratch alloc (ld_scratch_capacity s) (unat symbol_count) of
        None \<Rightarrow> (False, s)
      | Some capacity \<Rightarrow>
          (case expected_variables rd slot [0..<unat symbol_count] [] False
                  (s\<lparr>ld_scratch_capacity := capacity\<rparr>) of
             (None, s1) \<Rightarrow> (False, s1)
           | (Some (ds, needs), s1) \<Rightarrow>
               (let needs' = (needs \<or> existing_variable_count (ld_catalog s1) slot \<noteq> length ds);
                    (ok, changed, c') =
                      replaceSlotVariableDefinitions (ld_catalog s1) slot (Some ds);
                    s2 = s1\<lparr>ld_catalog := c'\<rparr>
                in if \<not> ok then (False, s2)
                   else if changed \<or> needs'
                   then (let (pub_ok, p, m) = publish (ld_publisher s2) (ld_mem s2) (ld_catalog s2)
                         in (pub_ok, s2\<lparr>ld_publisher := p, ld_mem := m\<rparr>))
                   else (True, s2))))"

text \<open>The two readers: a symbol table in memory, and one in flash.\<close>

definition memory_symbols :: "object_image \<Rightarrow> 's symbol_reader" where
  "memory_symbols img i s =
     (Some (read_symbol (ld_mem s) (oi_symbols img + of_nat i * symbol_record_size)), s)"

definition flash_symbols :: "'s page_reader \<Rightarrow> u32 \<Rightarrow> object_header \<Rightarrow> 's symbol_reader" where
  "flash_symbols rp flash_offset h i s =
     (let (ok, bytes, fl) = flashReadBytes rp
            (flash_offset + oh_symbol_table_offset h + of_nat i * symbol_record_size)
            symbol_record_size (ld_flash s)
      in (if ok then Some bytes else None, s\<lparr>ld_flash := fl\<rparr>))"

definition prepareSlotVariablePoints ::
  "(nat \<Rightarrow> bool) \<Rightarrow> u16 \<Rightarrow> object_image \<Rightarrow> 's loader \<Rightarrow> bool \<times> 's loader" where
  "prepareSlotVariablePoints alloc slot img s =
     reconcileSlotVariablePoints alloc (memory_symbols img) slot (oi_symbol_count img) s"

definition prepareSlotVariablePointsFromFlash ::
  "(nat \<Rightarrow> bool) \<Rightarrow> 's page_reader \<Rightarrow> u16 \<Rightarrow> u32 \<Rightarrow> object_header \<Rightarrow> 's loader \<Rightarrow> bool \<times> 's loader" where
  "prepareSlotVariablePointsFromFlash alloc rp slot flash_offset h s =
     reconcileSlotVariablePoints alloc (flash_symbols rp flash_offset h) slot (oh_symbol_count h) s"

section \<open>The remaining slot variable operations\<close>

definition slotVariableCatalogMatchesObjectImage :: "u16 \<Rightarrow> object_image \<Rightarrow> 's loader \<Rightarrow> bool" where
  "slotVariableCatalogMatchesObjectImage slot img s =
     (let c = ld_catalog s;
          syms = filter (\<lambda>symb. sym_kind symb = kPlcSymbolSlotVar)
            (map (\<lambda>i. read_symbol (ld_mem s) (oi_symbols img + of_nat i * symbol_record_size))
               [0..<unat (oi_symbol_count img)])
      in list_all (\<lambda>symb.
            let d = buildExpectedSlotVariableDefinition c slot symb; k = findIndex c (pd_id d)
            in cstr (point_id (pd_id d)) \<noteq> [] \<and> k < cat_count c \<and>
               slotVariableDefinitionMatches (cat_entries c k) d \<and>
               pointStateIndexForCatalogIndex (ld_publisher s) k \<noteq> kInvalidPointStateIndex) syms \<and>
         existing_variable_count c slot = length syms)"

fun slotVariableIdentityPresentInSymbolSet ::
  "'s symbol_reader \<Rightarrow> u16 \<Rightarrow> nat list \<Rightarrow> point_identity \<Rightarrow> 's loader \<Rightarrow> bool \<times> 's loader" where
  "slotVariableIdentityPresentInSymbolSet rd slot [] pid s = (False, s)"
| "slotVariableIdentityPresentInSymbolSet rd slot (i # is) pid s =
     (case rd i s of
        (None, s1) \<Rightarrow> (False, s1)
      | (Some symb, s1) \<Rightarrow>
          if sym_kind symb \<noteq> kPlcSymbolSlotVar
          then slotVariableIdentityPresentInSymbolSet rd slot is pid s1
          else
            (let d = buildExpectedSlotVariableDefinition (ld_catalog s1) slot symb
             in if cstr (point_id (pd_id d)) = [] then (False, s1)
                else if identitiesEqual (pd_id d) pid then (True, s1)
                else slotVariableIdentityPresentInSymbolSet rd slot is pid s1))"

definition ensureSlotVariablePoint ::
  "point_catalog \<Rightarrow> u16 \<Rightarrow> symbol_record \<Rightarrow> bool \<times> point_catalog" where
  "ensureSlotVariablePoint c slot s =
     (if sym_kind s \<noteq> kPlcSymbolSlotVar then (True, c)
      else
        (case loaderSlotVariableIdentity c slot (sym_name s) empty_identity of
           (ok, pid) \<Rightarrow>
             if \<not> ok \<or> \<not> isSupportedSlotVariableType (sym_expected_type s) then (False, c)
             else upsert c (slot_variable_definition pid s)))"

lemma remove_count:
  assumes "remove c pid = (True, c')"
  shows "cat_count c' < cat_count c"
  using assms by (auto simp: remove_def Let_def commit_definitions_fields split: if_splits)

text \<open>
  The loop of \<open>clearSlotVariablePoints\<close>: the index stays while rows are removed, so the
  rows left over shrink in every step.
\<close>

function clear_variables_from :: "u16 \<Rightarrow> nat \<Rightarrow> point_catalog \<Rightarrow> bool \<times> point_catalog" where
  "clear_variables_from slot i c =
     (if i < cat_count c then
        (if \<not> isSlotVariablePoint (cat_entries c i) slot then clear_variables_from slot (i + 1) c
         else
           (case remove c (pd_id (cat_entries c i)) of
              (ok, c') \<Rightarrow>
                if ok then clear_variables_from slot i c' else (False, c')))
      else (True, c))"
  by pat_completeness auto
termination
  by (relation "measure (\<lambda>(slot, i, c). cat_count c - i)") (auto dest!: remove_count [OF sym] intro: diff_less_mono)

declare clear_variables_from.simps [simp del]

definition clearSlotVariablePoints :: "point_catalog \<Rightarrow> u16 \<Rightarrow> bool \<times> point_catalog" where
  "clearSlotVariablePoints c slot = clear_variables_from slot 0 c"

text \<open>The loader's \<open>resolveSymbolRecord\<close>: the identity of the resolved record.\<close>

definition loaderResolveSymbolRecord ::
  "point_catalog \<Rightarrow> u16 \<Rightarrow> symbol_record \<Rightarrow> point_identity option" where
  "loaderResolveSymbolRecord c slot s =
     (if sym_kind s \<noteq> kPlcSymbolSlotVar then Some (sym_point_id s)
      else
        (case loaderSlotVariableIdentity c slot (sym_name s) (sym_point_id s) of
           (ok, pid) \<Rightarrow>
             if \<not> ok \<or> \<not> isSupportedSlotVariableType (sym_expected_type s) then None
             else Some pid))"

section \<open>Loading from memory\<close>

definition loadParsedObjectIntoSlot ::
  "(nat \<Rightarrow> bool) \<Rightarrow> u16 \<Rightarrow> object_image \<Rightarrow> u32 \<Rightarrow> u32 \<Rightarrow> 's loader \<Rightarrow>
   slot_load_result \<times> 's loader" where
  "loadParsedObjectIntoSlot alloc slot img max_instructions max_time s =
     (let r = initial_load_result in
      if \<not> loader_regionAvailable then (r\<lparr>sr_status := LoadRegionUnavailable\<rparr>, s)
      else if slot \<ge> kPlcSlotCountV1 then (r\<lparr>sr_status := LoadSlotOutOfRange\<rparr>, s)
      else if oi_code img = 0 then (r, s)
      else
        (let r1 = slot_load_result_at slot r; l = slotLayout slot in
         if oi_code_size img > sl_linked_code_capacity l
         then (r1\<lparr>sr_status := LoadBytecodeTooLarge\<rparr>, s)
         else if \<not> validateSupportedBytecode
                     (Some (mem_read (ld_mem s) (oi_code img) (unat (oi_code_size img))))
         then (r1\<lparr>sr_status := LoadUnsupportedOpcode\<rparr>, s)
         else
           (case prepareSlotVariablePoints alloc slot img s of
              (ok, s1) \<Rightarrow>
                if \<not> ok then (variables_failed r1, s1)
                else
                  (let (lr, m) = linkObjectImage (ld_publisher s1) (ld_catalog s1) img
                         (sl_linked_code_addr l) (sl_linked_code_capacity l) slot (ld_mem s1);
                       s2 = s1\<lparr>ld_mem := m\<rparr>; r2 = r1\<lparr>sr_link := lr\<rparr>
                   in if ol_status lr \<noteq> ObjLinkOk then (r2\<lparr>sr_status := LoadLinkFailed\<rparr>, s2)
                      else
                        (r2\<lparr>sr_status := LoadOk\<rparr>,
                         s2\<lparr>ld_mem := writeLoadedSlotMetadata slot (slotManifestAddress slot)
                              (slotControlAddress slot) l (oi_code_size img) (oi_entry_offset img)
                              (oi_symbol_count img) (oi_relocation_count img) max_instructions
                              max_time kPlcRuntimeHeaderAddr
                              (h_epoch (headerSnapshot (ld_publisher s2)))
                              (loader_checksum32 m (sl_linked_code_addr l) (oi_code_size img)) m\<rparr>)))))"

definition loadObjectFileIntoSlot ::
  "(nat \<Rightarrow> bool) \<Rightarrow> u16 \<Rightarrow> u32 \<Rightarrow> u32 \<Rightarrow> 's loader \<Rightarrow> slot_load_result \<times> 's loader" where
  "loadObjectFileIntoSlot alloc slot bytes file_size s =
     (let (st, parsed) = parseObjectFile (ld_mem s) bytes file_size;
          r = empty_load_result\<lparr>sr_parse_status := st\<rparr>
      in case parsed of
           None \<Rightarrow> (r\<lparr>sr_status := LoadParseFailed\<rparr>, s)
         | Some (h, img) \<Rightarrow>
             if oh_abi_version h \<noteq> kPlcRuntimeAbiV1Version
             then (r\<lparr>sr_status := LoadAbiMismatch\<rparr>, s)
             else
               (let (r1, s1) = loadParsedObjectIntoSlot alloc slot img
                      (oh_max_instructions_per_scan h) (oh_max_scan_time_us h) s
                in if sr_status r1 = LoadOk
                   then
                     (let (ok, m) = writeObjectFileSnapshot slot bytes file_size (ld_mem s1)
                      in ((if ok then r1 else r1\<lparr>sr_status := LoadBytecodeTooLarge\<rparr>)
                            \<lparr>sr_parse_status := st\<rparr>,
                          s1\<lparr>ld_mem := m\<rparr>))
                   else (r1\<lparr>sr_parse_status := st\<rparr>, s1)))"

section \<open>Loading from flash\<close>

text \<open>Structures read into zeroed locals: their bytes as a memory of their own.\<close>

definition local_struct :: "u8 list \<Rightarrow> mem" where
  "local_struct bs = mem_write (\<lambda>_. 0) 0 bs"

definition header_of_bytes :: "u8 list \<Rightarrow> object_header" where
  "header_of_bytes bs = read_object_header (local_struct bs) 0"

definition relocation_of_bytes :: "u8 list \<Rightarrow> relocation_record" where
  "relocation_of_bytes bs = read_relocation (local_struct bs) 0"

definition validateObjectFileHeader :: "object_header \<Rightarrow> u32 \<Rightarrow> slot_load_status" where
  "validateObjectFileHeader h capacity =
     (if oh_magic h \<noteq> kPlcObjectFileMagicV1 \<or> oh_version h \<noteq> kPlcObjectFileVersionV1 \<or>
         oh_abi_version h \<noteq> kPlcRuntimeAbiV1Version then LoadParseFailed
      else if oh_total_size h < object_header_size \<or> oh_total_size h > capacity \<or>
              oh_entry_offset h > oh_code_size h then LoadParseFailed
      else if object_header_size + oh_code_size h > oh_total_size h then LoadParseFailed
      else if oh_symbol_table_offset h < object_header_size \<or>
              oh_symbol_table_offset h > oh_total_size h then LoadParseFailed
      else if oh_relocation_table_offset h < object_header_size \<or>
              oh_relocation_table_offset h > oh_total_size h then LoadParseFailed
      else if oh_symbol_table_offset h + ucast (oh_symbol_count h) * symbol_record_size
                > oh_total_size h \<or>
              oh_relocation_table_offset h + ucast (oh_relocation_count h) * relocation_record_size
                > oh_total_size h then LoadParseFailed
      else LoadOk)"

definition validateObjectFileChecksum ::
  "'s page_reader \<Rightarrow> u32 \<Rightarrow> object_header \<Rightarrow> 's \<Rightarrow> bool \<times> 's" where
  "validateObjectFileChecksum rp flash_offset h fl =
     (let (v, fl') = checksum32FromFlash rp (flash_offset + object_header_size)
            (oh_total_size h - object_header_size) fl
      in (v = oh_object_checksum h, fl'))"

text \<open>
  One iteration of the relocation loop of \<open>linkObjectFileFromFlash\<close>; the flag tells whether
  the loop goes on.
\<close>

definition flash_link_relocation ::
  "publisher \<Rightarrow> point_catalog \<Rightarrow> 's page_reader \<Rightarrow> u16 \<Rightarrow> u32 \<Rightarrow> object_header \<Rightarrow> u32 \<Rightarrow> nat \<Rightarrow>
   object_link_result \<Rightarrow> mem \<Rightarrow> 's \<Rightarrow> bool \<times> object_link_result \<times> mem \<times> 's" where
  "flash_link_relocation p c rp slot flash_offset h out i r m fl =
     (let (ok, bytes, fl1) = flashReadBytes rp
            (flash_offset + oh_relocation_table_offset h + of_nat i * relocation_record_size)
            relocation_record_size fl;
          r1 = r\<lparr>ol_failing_relocation_index := of_nat i\<rparr>
      in if \<not> ok then (False, r1\<lparr>ol_status := ObjLinkRelocationOutOfRange\<rparr>, m, fl1)
         else
           (let rel = relocation_of_bytes bytes in
            if rel_symbol_index rel \<ge> oh_symbol_count h
            then (False, r1\<lparr>ol_status := ObjLinkSymbolIndexOutOfRange,
                            ol_failing_symbol_index := rel_symbol_index rel\<rparr>, m, fl1)
            else
              (let patch_size = relocationPatchSize (rel_kind rel) in
               if patch_size = 0
               then (False, r1\<lparr>ol_status := ObjLinkUnsupportedRelocationKind\<rparr>, m, fl1)
               else if rel_code_offset rel + patch_size > oh_code_size h
               then (False, r1\<lparr>ol_status := ObjLinkRelocationOutOfRange\<rparr>, m, fl1)
               else
                 (let (ok2, symb, fl2) = flashReadBytes rp
                        (flash_offset + oh_symbol_table_offset h +
                         ucast (rel_symbol_index rel) * symbol_record_size)
                        symbol_record_size fl1;
                      r2 = r1\<lparr>ol_failing_symbol_index := rel_symbol_index rel\<rparr>
                  in if \<not> ok2
                     then (False, r2\<lparr>ol_status := ObjLinkSymbolIndexOutOfRange\<rparr>, m, fl2)
                     else
                       (case loaderResolveSymbolRecord c slot symb of
                          None \<Rightarrow> (False, r2\<lparr>ol_status := ObjLinkResolveFailed,
                                             ol_resolve_status := LinkUnsupportedPointType\<rparr>, m, fl2)
                        | Some pid \<Rightarrow>
                            (let lr = resolveLinkRequest p c
                                   \<lparr>rq_point = pid, rq_type = value_type_of_raw (sym_expected_type symb),
                                    rq_access = link_access_of_raw (sym_access symb)\<rparr>;
                                 r3 = r2\<lparr>ol_resolve_status := lr_status lr\<rparr>
                             in if lr_status lr \<noteq> LinkResolved
                                then (False, r3\<lparr>ol_status := ObjLinkResolveFailed\<rparr>, m, fl2)
                                else
                                  (True,
                                   r3\<lparr>ol_resolved_relocation_count :=
                                        ol_resolved_relocation_count r3 + 1\<rparr>,
                                   applyRelocation m (out + rel_code_offset rel) (rel_kind rel)
                                     (if rel_kind rel = kPlcRelocationPointStateIndexU16Le
                                      then ucast (lr_index lr) else lr_value_offset lr),
                                   fl2)))))))"

fun flash_link_loop ::
  "publisher \<Rightarrow> point_catalog \<Rightarrow> 's page_reader \<Rightarrow> u16 \<Rightarrow> u32 \<Rightarrow> object_header \<Rightarrow> u32 \<Rightarrow> nat list \<Rightarrow>
   object_link_result \<Rightarrow> mem \<Rightarrow> 's \<Rightarrow> bool \<times> object_link_result \<times> mem \<times> 's" where
  "flash_link_loop p c rp slot flash_offset h out [] r m fl = (True, r, m, fl)"
| "flash_link_loop p c rp slot flash_offset h out (i # is) r m fl =
     (case flash_link_relocation p c rp slot flash_offset h out i r m fl of
        (continues, r', m', fl') \<Rightarrow>
          if continues then flash_link_loop p c rp slot flash_offset h out is r' m' fl'
          else (False, r', m', fl'))"

definition linkObjectFileFromFlash ::
  "publisher \<Rightarrow> point_catalog \<Rightarrow> 's page_reader \<Rightarrow> u16 \<Rightarrow> u32 \<Rightarrow> object_header \<Rightarrow> u32 \<Rightarrow> u32 \<Rightarrow>
   mem \<Rightarrow> 's \<Rightarrow> object_link_result \<times> mem \<times> 's" where
  "linkObjectFileFromFlash p c rp slot flash_offset h out capacity m fl =
     (let r = \<lparr>ol_status = ObjLinkInvalidArgument, ol_resolve_status = LinkResolved,
               ol_failing_symbol_index = 0xFFFF, ol_failing_relocation_index = 0xFFFF,
               ol_resolved_relocation_count = 0, ol_linked_code_size = oh_code_size h,
               ol_entry_offset = oh_entry_offset h\<rparr>
      in if out = 0 \<or> oh_code_size h > capacity
         then (r\<lparr>ol_status := ObjLinkOutputTooSmall\<rparr>, m, fl)
         else
           (case flash_link_loop p c rp slot flash_offset h out [0..<unat (oh_relocation_count h)]
                   r m fl of
              (continues, r', m', fl') \<Rightarrow>
                if continues
                then (r'\<lparr>ol_status := ObjLinkOk, ol_failing_symbol_index := 0xFFFF,
                         ol_failing_relocation_index := 0xFFFF\<rparr>, m', fl')
                else (r', m', fl')))"

definition writeObjectFileSnapshotFromFlash ::
  "'s page_reader \<Rightarrow> u16 \<Rightarrow> u32 \<Rightarrow> u32 \<Rightarrow> u32 \<Rightarrow> mem \<Rightarrow> 's \<Rightarrow> bool \<times> mem \<times> 's" where
  "writeObjectFileSnapshotFromFlash rp slot flash_offset object_size checksum m fl =
     (if slot \<ge> kPlcSlotCountV1 \<or> object_size < object_header_size \<or>
         object_size > slotObjectSnapshotCapacity
      then (False, m, fl)
      else
        (let (ok, bytes, fl1) = flashReadBytes rp flash_offset object_size fl;
             m1 = mem_write m (slotObjectSnapshotDataAddress slot) bytes
         in if \<not> ok then (False, m1, fl1)
            else (True, write_words m1 (slotObjectSnapshotHeaderAddress slot)
                    (snapshot_words (snapshot_header slot object_size checksum)), fl1)))"

text \<open>
  The tail of \<open>loadObjectFileFromFlash\<close>, from the reconciliation of the slot variables on:
  the header has been accepted and the code is in place.
\<close>

definition load_linked_from_flash ::
  "(nat \<Rightarrow> bool) \<Rightarrow> 's page_reader \<Rightarrow> u16 \<Rightarrow> u32 \<Rightarrow> object_header \<Rightarrow> slot_load_result \<Rightarrow>
   's loader \<Rightarrow> slot_load_result \<times> 's loader" where
  "load_linked_from_flash alloc rp slot flash_offset h r s =
     (case prepareSlotVariablePointsFromFlash alloc rp slot flash_offset h s of
        (ok, s1) \<Rightarrow>
          if \<not> ok then (variables_failed r, s1)
          else
            (let l = slotLayout slot;
                 (lr, m, fl) = linkObjectFileFromFlash (ld_publisher s1) (ld_catalog s1) rp slot
                    flash_offset h (sl_linked_code_addr l) (sl_linked_code_capacity l)
                    (ld_mem s1) (ld_flash s1);
                 s2 = s1\<lparr>ld_mem := m, ld_flash := fl\<rparr>; r2 = r\<lparr>sr_link := lr\<rparr>
             in if ol_status lr \<noteq> ObjLinkOk then (r2\<lparr>sr_status := LoadLinkFailed\<rparr>, s2)
                else
                  (let m3 = writeLoadedSlotMetadata slot (slotManifestAddress slot)
                          (slotControlAddress slot) l (oh_code_size h) (oh_entry_offset h)
                          (oh_symbol_count h) (oh_relocation_count h)
                          (oh_max_instructions_per_scan h) (oh_max_scan_time_us h)
                          (oh_runtime_header_addr h) (h_epoch (headerSnapshot (ld_publisher s2)))
                          (loader_checksum32 m (sl_linked_code_addr l) (oh_code_size h)) m;
                       (stored, m4, fl4) = writeObjectFileSnapshotFromFlash rp slot flash_offset
                          (oh_total_size h) (oh_object_checksum h) m3 fl;
                       s4 = s2\<lparr>ld_mem := m4, ld_flash := fl4\<rparr>
                   in if \<not> stored then (r2\<lparr>sr_status := LoadBytecodeTooLarge\<rparr>, s4)
                      else (r2\<lparr>sr_status := LoadOk\<rparr>, s4))))"

definition loadObjectFileFromFlash ::
  "(nat \<Rightarrow> bool) \<Rightarrow> 's page_reader \<Rightarrow> u16 \<Rightarrow> u32 \<Rightarrow> u32 \<Rightarrow> 's loader \<Rightarrow>
   slot_load_result \<times> 's loader" where
  "loadObjectFileFromFlash alloc rp slot flash_offset flash_capacity s =
     (let r = initial_load_result in
      if \<not> loader_regionAvailable then (r\<lparr>sr_status := LoadRegionUnavailable\<rparr>, s)
      else if slot \<ge> kPlcSlotCountV1 then (r\<lparr>sr_status := LoadSlotOutOfRange\<rparr>, s)
      else if flash_capacity < object_header_size then (r\<lparr>sr_status := LoadParseFailed\<rparr>, s)
      else
        (let (ok, hb, fl1) = flashReadBytes rp flash_offset object_header_size (ld_flash s);
             s1 = s\<lparr>ld_flash := fl1\<rparr>
         in if \<not> ok then (r\<lparr>sr_status := LoadFlashReadFailed\<rparr>, s1)
            else
              (let h = header_of_bytes hb; st = validateObjectFileHeader h flash_capacity in
               if st \<noteq> LoadOk then (r\<lparr>sr_status := st\<rparr>, s1)
               else
                 (let (sum_ok, fl2) = validateObjectFileChecksum rp flash_offset h fl1;
                      s2 = s1\<lparr>ld_flash := fl2\<rparr>
                  in if \<not> sum_ok then (r\<lparr>sr_status := LoadChecksumMismatch\<rparr>, s2)
                     else
                       (let r1 = slot_load_result_at slot (r\<lparr>sr_status := LoadOk\<rparr>);
                            l = slotLayout slot
                        in if oh_code_size h > sl_linked_code_capacity l
                           then (r1\<lparr>sr_status := LoadBytecodeTooLarge\<rparr>, s2)
                           else
                             (let (code_ok, code, fl3) = flashReadBytes rp
                                    (flash_offset + object_header_size) (oh_code_size h) fl2;
                                  s3 = s2\<lparr>ld_flash := fl3,
                                    ld_mem := mem_write (ld_mem s2) (sl_linked_code_addr l) code\<rparr>
                              in if \<not> code_ok then (r1\<lparr>sr_status := LoadFlashReadFailed\<rparr>, s3)
                                 else if \<not> validateSupportedBytecode
                                        (Some (mem_read (ld_mem s3) (sl_linked_code_addr l)
                                           (unat (oh_code_size h))))
                                 then (r1\<lparr>sr_status := LoadUnsupportedOpcode\<rparr>, s3)
                                 else load_linked_from_flash alloc rp slot flash_offset h r1 s3))))))"

end
