(* ===== verification/LoaderProps.thy ===== *)
theory LoaderProps
  imports Loader
begin

text \<open>
  What a load guarantees: the properties of the load paths of \<open>Loader\<close>, over any page
  source and, through its interpretation, over the flash driver; and what the slot
  variable reconciliation does to the catalog.
\<close>

section \<open>Loading from a page source\<close>

context page_source
begin

lemma flash_symbols_keeps:
  assumes "store_ok (ld_flash s)" "flash_symbols rp off h i s = (res, s')"
  shows "store_ok (ld_flash s') \<and> content (ld_flash s') = content (ld_flash s)"
  using assms flashReadBytes_keeps by (fastforce simp: flash_symbols_def split: prod.splits)

lemma expected_variables_keeps:
  "store_ok (ld_flash s) \<Longrightarrow>
   expected_variables (flash_symbols rp off h) slot is ds needs s = (res, s') \<Longrightarrow>
   store_ok (ld_flash s') \<and> content (ld_flash s') = content (ld_flash s)"
proof (induction "is" arbitrary: ds needs s)
  case (Cons i "is")
  obtain symb s1 where r: "flash_symbols rp off h i s = (symb, s1)" by fastforce
  have s1: "store_ok (ld_flash s1)" "content (ld_flash s1) = content (ld_flash s)"
    using flash_symbols_keeps [OF Cons.prems(1) r] by simp_all
  show ?case
    using Cons.prems(2) s1 Cons.IH [OF s1(1)]
    by (auto simp: r Let_def split: option.splits if_splits)
qed simp

lemma reconcile_keeps:
  assumes "store_ok (ld_flash s)"
    and "reconcileSlotVariablePoints alloc (flash_symbols rp off h) slot n s = (ok, s')"
  shows "store_ok (ld_flash s') \<and> content (ld_flash s') = content (ld_flash s)"
proof (cases "slotVariableDefinitionScratch alloc (ld_scratch_capacity s) (unat n)")
  case None
  then show ?thesis using assms by (simp add: reconcileSlotVariablePoints_def)
next
  case (Some k)
  obtain res s1 where r: "expected_variables (flash_symbols rp off h) slot [0..<unat n] [] False
      (s\<lparr>ld_scratch_capacity := k\<rparr>) = (res, s1)" by fastforce
  have s1: "store_ok (ld_flash s1) \<and> content (ld_flash s1) = content (ld_flash s)"
    using expected_variables_keeps [OF _ r] assms(1) by simp
  show ?thesis
    using assms(2) s1
    by (auto simp: reconcileSlotVariablePoints_def Some r Let_def
        split: option.splits prod.splits if_splits)
qed

lemma flash_link_relocation_keeps:
  assumes "store_ok fl" "flash_link_relocation p c rp slot off h out i r m fl = (b, r', m', fl')"
  shows "store_ok fl' \<and> content fl' = content fl"
proof -
  obtain ok bs fl1 where r1: "flashReadBytes rp
      (off + oh_relocation_table_offset h + of_nat i * relocation_record_size)
      relocation_record_size fl = (ok, bs, fl1)" by (metis prod_cases3)
  have f1: "store_ok fl1" "content fl1 = content fl"
    using flashReadBytes_keeps [OF assms(1) r1] by simp_all
  obtain ok2 symb fl2 where r2: "flashReadBytes rp (off + oh_symbol_table_offset h +
      ucast (rel_symbol_index (relocation_of_bytes bs)) * symbol_record_size)
      symbol_record_size fl1 = (ok2, symb, fl2)" by (metis prod_cases3)
  have f2: "store_ok fl2" "content fl2 = content fl"
    using flashReadBytes_keeps [OF f1(1) r2] f1(2) by simp_all
  show ?thesis
    using assms(2) f1 f2
    by (auto simp: flash_link_relocation_def r1 r2 Let_def split: option.splits if_splits)
qed

lemma flash_link_loop_keeps:
  "store_ok fl \<Longrightarrow> flash_link_loop p c rp slot off h out is r m fl = (b, r', m', fl') \<Longrightarrow>
   store_ok fl' \<and> content fl' = content fl"
proof (induction "is" arbitrary: r m fl)
  case (Cons i "is")
  obtain b1 r1 m1 fl1 where l: "flash_link_relocation p c rp slot off h out i r m fl =
      (b1, r1, m1, fl1)" by (metis prod_cases4)
  have f1: "store_ok fl1" "content fl1 = content fl"
    using flash_link_relocation_keeps [OF Cons.prems(1) l] by simp_all
  show ?case
    using Cons.prems(2) Cons.IH [OF f1(1)] f1 by (auto simp: l split: if_splits)
qed simp

lemma linkObjectFileFromFlash_keeps:
  assumes "store_ok fl" "linkObjectFileFromFlash p c rp slot off h out cap m fl = (lr, m', fl')"
  shows "store_ok fl' \<and> content fl' = content fl"
  using assms flash_link_loop_keeps [OF assms(1)]
  by (auto simp: linkObjectFileFromFlash_def Let_def split: if_splits prod.splits)

lemma readable_sub:
  assumes "readable_range a n" "k + j \<le> n"
  shows "readable_range (a + of_nat k) j"
  unfolding readable_range_def
proof (intro allI impI)
  fix i assume "i < j"
  then have "k + i < n" using assms(2) by simp
  then have "readable (page_base_of (a + of_nat (k + i)))"
    using assms(1) by (simp only: readable_range_def)
  then show "readable (page_base_of (a + of_nat k + of_nat i))" by (simp add: add.assoc)
qed

lemma stored_cong: "content s' = content s \<Longrightarrow> stored s' a n = stored s a n"
  by (simp add: stored_def)

end

section \<open>A successful load\<close>

lemma metadata_control:
  assumes "slot < kPlcSlotCountV1"
  shows "read_control (writeLoadedSlotMetadata slot (slotManifestAddress slot)
      (slotControlAddress slot) (slotLayout slot) code_size entry symbols relocations
      max_instructions max_time header_addr epoch checksum m) slot =
    loaded_control slot (slotLayout slot) code_size entry max_instructions max_time"
  unfolding writeLoadedSlotMetadata_regions
  using write_metadata_words(4) [OF assms] by (simp add: read_control_def struct_roundtrips)

text \<open>Writing a snapshot leaves the control block alone and reads back.\<close>

lemma snapshot_written:
  fixes m :: mem and bs :: "u8 list" and h :: object_snapshot
  assumes slot: "slot < kPlcSlotCountV1" and len: "length bs \<le> region_size RSnapshotData"
  defines "m' \<equiv> write_words (mem_write m (slotObjectSnapshotDataAddress slot) bs)
      (slotObjectSnapshotHeaderAddress slot) (snapshot_words h)"
  shows "read_control m' slot = read_control m slot"
    and "mem_read m' (slotObjectSnapshotDataAddress slot) (length bs) = bs"
    and "read_snapshot m' slot = h"
proof -
  let ?m1 = "mem_write m (region_base RSnapshotData slot) bs"
  have m': "m' = write_words ?m1 (region_base RSnapshotHeader slot) (snapshot_words h)"
    by (simp add: m'_def)
  have "region_read m' RControl slot = region_read ?m1 RControl slot"
    unfolding m' by (rule region_words_frame)
      (use slot in \<open>simp_all add: other_region_def metadata_words_length\<close>)
  also have "\<dots> = region_read m RControl slot"
    by (rule region_write_frame) (use slot len in \<open>simp_all add: other_region_def\<close>)
  finally have "read_words m' (region_base RControl slot) 18 = read_words m (region_base RControl slot) 18"
    by (rule region_words_cong) simp
  then show "read_control m' slot = read_control m slot" by (simp add: read_control_def)
  have "region_read m' RSnapshotData slot = region_read ?m1 RSnapshotData slot"
    unfolding m' by (rule region_words_frame)
      (use slot in \<open>simp_all add: other_region_def metadata_words_length\<close>)
  then have "mem_read m' (region_base RSnapshotData slot + of_nat 0) (length bs) =
      mem_read ?m1 (region_base RSnapshotData slot + of_nat 0) (length bs)"
    unfolding region_read_def by (rule mem_read_sub) (use len in simp)
  also have "\<dots> = bs" using len by (simp add: mem_read_write_same)
  finally show "mem_read m' (slotObjectSnapshotDataAddress slot) (length bs) = bs" by simp
  show "read_snapshot m' slot = h" unfolding m'_def by (rule snapshot_read [OF slot])
qed

context page_source
begin

lemma load_linked_ok:
  assumes slot: "slot < kPlcSlotCountV1" and st: "store_ok (ld_flash s)"
    and rng: "readable_range off (unat (oh_total_size h))"
    and res: "load_linked_from_flash alloc rp slot off h r s = (r', s')" "sr_status r' = LoadOk"
  shows "read_control (ld_mem s') slot = loaded_control slot (slotLayout slot) (oh_code_size h)
      (oh_entry_offset h) (oh_max_instructions_per_scan h) (oh_max_scan_time_us h) \<and>
    mem_read (ld_mem s') (slotObjectSnapshotDataAddress slot) (unat (oh_total_size h)) =
      stored (ld_flash s) off (unat (oh_total_size h)) \<and>
    read_snapshot (ld_mem s') slot =
      snapshot_header slot (oh_total_size h) (oh_object_checksum h) \<and>
    oh_total_size h \<le> slotObjectSnapshotCapacity \<and> object_header_size \<le> oh_total_size h"
proof -
  let ?n = "unat (oh_total_size h)"
  obtain ok s1 where p: "prepareSlotVariablePointsFromFlash alloc rp slot off h s = (ok, s1)"
    by fastforce
  have k1: "store_ok (ld_flash s1)" "content (ld_flash s1) = content (ld_flash s)"
    using reconcile_keeps [OF st] p by (auto simp: prepareSlotVariablePointsFromFlash_def)
  let ?l = "slotLayout slot"
  obtain lr m fl where lk: "linkObjectFileFromFlash (ld_publisher s1) (ld_catalog s1) rp slot off h
      (sl_linked_code_addr ?l) (sl_linked_code_capacity ?l) (ld_mem s1) (ld_flash s1) = (lr, m, fl)"
    by (metis prod_cases3)
  have k2: "store_ok fl" "content fl = content (ld_flash s)"
    using linkObjectFileFromFlash_keeps [OF k1(1) lk] k1(2) by simp_all
  obtain fl4 where rd: "flashReadBytes rp off (oh_total_size h) fl = (True, stored fl off ?n, fl4)"
    by (rule flashReadBytes_stored [OF k2(1) rng])
  define m3 where "m3 = writeLoadedSlotMetadata slot (slotManifestAddress slot)
      (slotControlAddress slot) ?l (oh_code_size h) (oh_entry_offset h)
      (oh_symbol_count h) (oh_relocation_count h)
      (oh_max_instructions_per_scan h) (oh_max_scan_time_us h)
      (oh_runtime_header_addr h) (h_epoch (headerSnapshot (ld_publisher s1)))
      (loader_checksum32 m (sl_linked_code_addr ?l) (oh_code_size h)) m"
  let ?snap = "snapshot_header slot (oh_total_size h) (oh_object_checksum h)"
  have good: "oh_total_size h \<le> slotObjectSnapshotCapacity" "object_header_size \<le> oh_total_size h"
    "ld_mem s' = write_words (mem_write m3 (slotObjectSnapshotDataAddress slot) (stored fl off ?n))
        (slotObjectSnapshotHeaderAddress slot) (snapshot_words ?snap)"
    using res slot rd
    by (auto simp: load_linked_from_flash_def p lk Let_def m3_def [symmetric] variables_failed_def
        writeObjectFileSnapshotFromFlash_def not_le not_less simp del: write_words.simps
        split: if_splits)
  have len: "length (stored fl off ?n) = ?n" by (simp add: stored_def)
  have "?n \<le> region_size RSnapshotData"
    using good(1) by (simp add: slotObjectSnapshotCapacity_def layout_defs word_le_nat_alt)
  note sw = snapshot_written [OF slot, of "stored fl off ?n" m3 ?snap, unfolded len, OF this]
  show ?thesis
    using sw good(1,2) metadata_control [OF slot] stored_cong [OF k2(2)]
    by (simp add: good(3) m3_def)
qed

lemma load_flash_ok:
  assumes st: "store_ok (ld_flash s)" and rng: "readable_range off (unat cap)"
    and res: "loadObjectFileFromFlash alloc rp slot off cap s = (r, s')" "sr_status r = LoadOk"
    and h: "h = header_of_bytes (stored (ld_flash s) off (unat object_header_size))"
  shows "slot < kPlcSlotCountV1 \<and> validateObjectFileHeader h cap = LoadOk \<and>
    fnv1a 2166136261 (stored (ld_flash s) (off + object_header_size)
        (unat (oh_total_size h - object_header_size))) = oh_object_checksum h \<and>
    oh_code_size h \<le> sl_linked_code_capacity (slotLayout slot) \<and>
    validateSupportedBytecode
      (Some (stored (ld_flash s) (off + object_header_size) (unat (oh_code_size h)))) \<and>
    read_control (ld_mem s') slot = loaded_control slot (slotLayout slot) (oh_code_size h)
      (oh_entry_offset h) (oh_max_instructions_per_scan h) (oh_max_scan_time_us h) \<and>
    (\<forall>k cp. readObjectFileSnapshotChunk slot k cp (ld_mem s') =
       (if k > oh_total_size h then None
        else Some (take (unat cp) (drop (unat k) (stored (ld_flash s) off (unat (oh_total_size h)))),
                   oh_total_size h, oh_object_checksum h)))"
proof -
  let ?fl = "ld_flash s"
  have avail: "slot < kPlcSlotCountV1" "object_header_size \<le> cap"
    using res by (auto simp: loadObjectFileFromFlash_def initial_load_result_def Let_def
        loader_region_available not_le not_less split: if_splits)
  have u52: "unat object_header_size = 52" by (simp add: object_header_size_def)
  have cap: "52 \<le> unat cap" using avail(2) by (simp add: word_le_nat_alt u52)
  have sub: "readable_range (off + of_nat k) j" if "k + j \<le> unat cap" for k j
    by (rule readable_sub [OF rng that])
  obtain fl1 where r1: "flashReadBytes rp off object_header_size ?fl =
      (True, stored ?fl off (unat object_header_size), fl1)"
    and k1: "store_ok fl1" "content fl1 = content ?fl"
    using flashReadBytes_stored [OF st, of off object_header_size] sub [of 0 52] cap u52 by auto
  obtain v fl2 where r2: "checksum32FromFlash rp (off + object_header_size)
      (oh_total_size h - object_header_size) fl1 = (v, fl2)" by fastforce
  have k2: "store_ok fl2" "content fl2 = content ?fl"
    using checksum32FromFlash_keeps [OF k1(1) r2] k1(2) by simp_all
  obtain cok code fl3 where r3: "flashReadBytes rp (off + object_header_size) (oh_code_size h) fl2 =
      (cok, code, fl3)" by (metis prod_cases3)
  have k3: "store_ok fl3" "content fl3 = content ?fl"
    using flashReadBytes_keeps [OF k2(1) r3] k2(2) by simp_all
  let ?l = "slotLayout slot"
  define s3 where "s3 = s\<lparr>ld_flash := fl3,
      ld_mem := mem_write (ld_mem s) (sl_linked_code_addr ?l) code\<rparr>"
  define r1' where "r1' = slot_load_result_at slot (initial_load_result\<lparr>sr_status := LoadOk\<rparr>)"
  have steps: "validateObjectFileHeader h cap = LoadOk" "v = oh_object_checksum h"
    "oh_code_size h \<le> sl_linked_code_capacity ?l" "cok"
    "validateSupportedBytecode (Some (mem_read (ld_mem s3) (sl_linked_code_addr ?l)
        (unat (oh_code_size h))))"
    "load_linked_from_flash alloc rp slot off h r1' s3 = (r, s')"
    using res avail
    by (auto simp: loadObjectFileFromFlash_def loader_region_available Let_def r1 h [symmetric]
        validateObjectFileChecksum_def r2 r3 s3_def r1'_def slot_load_result_at_def
        not_le not_less split: if_splits)
  have hdr: "oh_total_size h \<le> cap" "object_header_size \<le> oh_total_size h"
    "object_header_size + oh_code_size h \<le> oh_total_size h"
    using steps(1) by (auto simp: validateObjectFileHeader_def split: if_splits)
  have tot: "unat (oh_total_size h) \<le> unat cap" "52 \<le> unat (oh_total_size h)"
    using hdr(1,2) by (simp_all add: word_le_nat_alt u52)
  have "unat (oh_code_size h) \<le> 0x36D0"
    using steps(3) slot_layout_unat(7) [OF avail(1)] by (simp add: word_le_nat_alt)
  then have code: "52 + unat (oh_code_size h) \<le> unat (oh_total_size h)"
    using hdr(3) by (simp add: word_le_nat_alt unat_word_ariths u52)
  have u: "unat (oh_total_size h - object_header_size) = unat (oh_total_size h) - 52"
    using hdr(2) by (simp add: unat_sub u52)
  have of52: "of_nat 52 = object_header_size" by (simp add: object_header_size_def)
  have "readable_range (off + object_header_size) (unat (oh_total_size h - object_header_size))"
    using sub [of 52 "unat (oh_total_size h) - 52"] tot by (simp only: of52 u)
  then have sum: "v = fnv1a 2166136261 (stored ?fl (off + object_header_size)
        (unat (oh_total_size h - object_header_size)))"
    using checksum32FromFlash_stored [OF k1(1)] r2 stored_cong [OF k1(2)] by (metis prod.inject)
  have "readable_range (off + object_header_size) (unat (oh_code_size h))"
    using sub [of 52 "unat (oh_code_size h)"] code tot by (simp only: of52)
  then have cd: "code = stored ?fl (off + object_header_size) (unat (oh_code_size h))"
    using flashReadBytes_stored [OF k2(1)] r3 stored_cong [OF k2(2)] by (metis prod.inject)
  have "length code = unat (oh_code_size h)" by (simp add: cd stored_def)
  then have "mem_read (ld_mem s3) (sl_linked_code_addr ?l) (unat (oh_code_size h)) = code"
    using mem_read_write_same [of code "ld_mem s" "sl_linked_code_addr ?l"]
      unsigned_less [of "oh_code_size h", where ?'a = nat]
    by (simp add: s3_def)
  with steps(5) have val: "validateSupportedBytecode (Some code)" by simp
  have "readable_range off (unat (oh_total_size h))"
    using sub [of 0 "unat (oh_total_size h)"] tot by simp
  from load_linked_ok [OF avail(1) _ this steps(6) res(2)] k3(1)
  have fin: "read_control (ld_mem s') slot = loaded_control slot ?l (oh_code_size h)
      (oh_entry_offset h) (oh_max_instructions_per_scan h) (oh_max_scan_time_us h)"
    "mem_read (ld_mem s') (slotObjectSnapshotDataAddress slot) (unat (oh_total_size h)) =
      stored ?fl off (unat (oh_total_size h))"
    "read_snapshot (ld_mem s') slot = snapshot_header slot (oh_total_size h) (oh_object_checksum h)"
    "oh_total_size h \<le> slotObjectSnapshotCapacity"
    using stored_cong [OF k3(2)] by (simp_all add: s3_def)
  show ?thesis
    using avail(1) steps(1,2,3) sum val cd fin(1)
      snapshot_chunk_read [OF avail(1) hdr(2) fin(4,3,2)]
    by simp
qed

text \<open>
  The load up to the validation of the code: with an acceptable header and checksum the
  code is copied over the linked code of the slot first, and only then validated.
\<close>

lemma load_prefix:
  assumes st: "store_ok (ld_flash s)" and rng: "readable_range off (unat cap)"
    and slot: "slot < kPlcSlotCountV1"
    and h: "h = header_of_bytes (stored (ld_flash s) off (unat object_header_size))"
    and hv: "object_header_size \<le> cap" "validateObjectFileHeader h cap = LoadOk"
    and sum: "fnv1a 2166136261 (stored (ld_flash s) (off + object_header_size)
        (unat (oh_total_size h - object_header_size))) = oh_object_checksum h"
    and size: "oh_code_size h \<le> sl_linked_code_capacity (slotLayout slot)"
  defines "code \<equiv> stored (ld_flash s) (off + object_header_size) (unat (oh_code_size h))"
  obtains fl where "store_ok fl" "content fl = content (ld_flash s)"
    "loadObjectFileFromFlash alloc rp slot off cap s =
      (let r = slot_load_result_at slot (initial_load_result\<lparr>sr_status := LoadOk\<rparr>);
           s3 = s\<lparr>ld_flash := fl,
             ld_mem := mem_write (ld_mem s) (sl_linked_code_addr (slotLayout slot)) code\<rparr>
       in if \<not> validateSupportedBytecode (Some code) then (r\<lparr>sr_status := LoadUnsupportedOpcode\<rparr>, s3)
          else load_linked_from_flash alloc rp slot off h r s3)"
proof -
  let ?fl = "ld_flash s" and ?l = "slotLayout slot"
  have u52: "unat object_header_size = 52" by (simp add: object_header_size_def)
  have of52: "of_nat 52 = object_header_size" by (simp add: object_header_size_def)
  have cap: "52 \<le> unat cap" using hv(1) by (simp add: word_le_nat_alt u52)
  have sub: "readable_range (off + of_nat k) j" if "k + j \<le> unat cap" for k j
    by (rule readable_sub [OF rng that])
  have hdr: "oh_total_size h \<le> cap" "object_header_size \<le> oh_total_size h"
    "object_header_size + oh_code_size h \<le> oh_total_size h"
    using hv(2) by (auto simp: validateObjectFileHeader_def split: if_splits)
  have tot: "unat (oh_total_size h) \<le> unat cap" "52 \<le> unat (oh_total_size h)"
    using hdr(1,2) by (simp_all add: word_le_nat_alt u52)
  have "unat (oh_code_size h) \<le> 0x36D0"
    using size slot_layout_unat(7) [OF slot] by (simp add: word_le_nat_alt)
  then have fit: "52 + unat (oh_code_size h) \<le> unat (oh_total_size h)"
    using hdr(3) by (simp add: word_le_nat_alt unat_word_ariths u52)
  have u: "unat (oh_total_size h - object_header_size) = unat (oh_total_size h) - 52"
    using hdr(2) by (simp add: unat_sub u52)
  obtain fl1 where r1: "flashReadBytes rp off object_header_size ?fl =
      (True, stored ?fl off (unat object_header_size), fl1)"
    and k1: "store_ok fl1" "content fl1 = content ?fl"
    using flashReadBytes_stored [OF st, of off object_header_size] sub [of 0 52] cap u52 by auto
  have "readable_range (off + object_header_size) (unat (oh_total_size h - object_header_size))"
    using sub [of 52 "unat (oh_total_size h) - 52"] tot by (simp only: of52 u)
  then obtain fl2 where r2: "checksum32FromFlash rp (off + object_header_size)
      (oh_total_size h - object_header_size) fl1 = (oh_object_checksum h, fl2)"
    and k2: "store_ok fl2" "content fl2 = content ?fl"
    using checksum32FromFlash_stored [OF k1(1)] stored_cong [OF k1(2)] k1(2) sum by metis
  have "readable_range (off + object_header_size) (unat (oh_code_size h))"
    using sub [of 52 "unat (oh_code_size h)"] fit tot by (simp only: of52)
  then obtain fl3 where r3: "flashReadBytes rp (off + object_header_size) (oh_code_size h) fl2 =
      (True, code, fl3)"
    and k3: "store_ok fl3" "content fl3 = content ?fl"
    using flashReadBytes_stored [OF k2(1)] stored_cong [OF k2(2)] k2(2) unfolding code_def by metis
  have "length code = unat (oh_code_size h)" by (simp add: code_def stored_def)
  then have rd: "mem_read (mem_write (ld_mem s) (sl_linked_code_addr ?l) code)
      (sl_linked_code_addr ?l) (unat (oh_code_size h)) = code"
    using mem_read_write_same [of code "ld_mem s" "sl_linked_code_addr ?l"]
      unsigned_less [of "oh_code_size h", where ?'a = nat] by simp
  show ?thesis
  proof (rule that [OF k3])
    show "loadObjectFileFromFlash alloc rp slot off cap s =
      (let r = slot_load_result_at slot (initial_load_result\<lparr>sr_status := LoadOk\<rparr>);
           s3 = s\<lparr>ld_flash := fl3,
             ld_mem := mem_write (ld_mem s) (sl_linked_code_addr ?l) code\<rparr>
       in if \<not> validateSupportedBytecode (Some code) then (r\<lparr>sr_status := LoadUnsupportedOpcode\<rparr>, s3)
          else load_linked_from_flash alloc rp slot off h r s3)"
    proof -
      have "(kPlcSlotCountV1 \<le> slot) = False" "(cap < object_header_size) = False"
        "(sl_linked_code_capacity ?l < oh_code_size h) = False"
        using slot hv(1) size by auto
      then show ?thesis
        using hv(2)
        by (simp add: loadObjectFileFromFlash_def loader_region_available Let_def r1 h [symmetric]
            validateObjectFileChecksum_def r2 r3 rd)
    qed
  qed
qed

text \<open>An object without symbols and relocations links into an empty catalog.\<close>

lemma load_linked_no_tables:
  assumes st: "store_ok (ld_flash s)" and rng: "readable_range off (unat (oh_total_size h))"
    and slot: "slot < kPlcSlotCountV1"
    and none: "oh_symbol_count h = 0" "oh_relocation_count h = 0" "cat_count (ld_catalog s) = 0"
      "1 \<le> ld_scratch_capacity s"
    and size: "oh_code_size h \<le> sl_linked_code_capacity (slotLayout slot)"
      "object_header_size \<le> oh_total_size h" "oh_total_size h \<le> slotObjectSnapshotCapacity"
  shows "sr_status (fst (load_linked_from_flash alloc rp slot off h r s)) = LoadOk"
proof -
  have p: "prepareSlotVariablePointsFromFlash alloc rp slot off h s = (True, s)"
    using none by (simp add: prepareSlotVariablePointsFromFlash_def reconcileSlotVariablePoints_def
        slotVariableDefinitionScratch_def existing_variable_count_def
        replaceSlotVariableDefinitions_def)
  have out: "sl_linked_code_addr (slotLayout slot) \<noteq> 0"
    using slot_layout_unat(2) [OF slot] by auto
  obtain fl where rd: "flashReadBytes rp off (oh_total_size h) (ld_flash s) =
      (True, stored (ld_flash s) off (unat (oh_total_size h)), fl)"
    by (rule flashReadBytes_stored [OF st rng])
  have "(kPlcSlotCountV1 \<le> slot) = False" "(oh_total_size h < object_header_size) = False"
    "(slotObjectSnapshotCapacity < oh_total_size h) = False"
    "(sl_linked_code_capacity (slotLayout slot) < oh_code_size h) = False"
    using slot size by auto
  then show ?thesis
    using none out
    by (simp add: load_linked_from_flash_def p linkObjectFileFromFlash_def Let_def rd
        writeObjectFileSnapshotFromFlash_def)
qed

end

section \<open>Loading out of the flash\<close>

definition flash_bytes :: "wb_flash flash \<Rightarrow> u32 \<Rightarrow> nat \<Rightarrow> u8 list" where
  "flash_bytes f a n = map (\<lambda>i. nor_array (fl_dev f) (a + of_nat i)) [0..<n]"

lemma flash_bytes_stored: "flash_bytes = flash_pages.stored"
  by (simp add: fun_eq_iff flash_bytes_def flash_pages.stored_def)

text \<open>The load up to the validation, over the flash.\<close>

lemma flash_load_prefix:
  assumes st: "healthy (fl_dev (ld_flash s))"
    and win: "kRuntimeDataBase \<le> off" "unat off + unat cap \<le> unat kRuntimeDataEnd"
    and slot: "slot < kPlcSlotCountV1"
    and h: "h = header_of_bytes (flash_bytes (ld_flash s) off (unat object_header_size))"
    and hv: "object_header_size \<le> cap" "validateObjectFileHeader h cap = LoadOk"
    and sum: "fnv1a 2166136261 (flash_bytes (ld_flash s) (off + object_header_size)
        (unat (oh_total_size h - object_header_size))) = oh_object_checksum h"
    and size: "oh_code_size h \<le> sl_linked_code_capacity (slotLayout slot)"
    and code: "code = flash_bytes (ld_flash s) (off + object_header_size) (unat (oh_code_size h))"
  obtains g where "healthy (fl_dev g)"
    "loadObjectFileFromFlash alloc (readPage (wb_flash_bus base) base rr False) slot off cap s =
      (let r = slot_load_result_at slot (initial_load_result\<lparr>sr_status := LoadOk\<rparr>);
           s3 = s\<lparr>ld_flash := g,
             ld_mem := mem_write (ld_mem s) (sl_linked_code_addr (slotLayout slot)) code\<rparr>
       in if \<not> validateSupportedBytecode (Some code) then (r\<lparr>sr_status := LoadUnsupportedOpcode\<rparr>, s3)
          else load_linked_from_flash alloc (readPage (wb_flash_bus base) base rr False) slot off h r s3)"
proof -
  note code' = code [unfolded flash_bytes_stored]
  show ?thesis
    by (rule flash_pages.load_prefix [OF st window_readable [OF win] slot
          h [unfolded flash_bytes_stored] hv sum [unfolded flash_bytes_stored] size,
          where base = base and alloc = alloc], rule that)
      (simp_all only: code')
qed

text \<open>
  C9: A load from flash that reports success has loaded a valid program: over the flash
  driver and its controller, the header of the object file in flash is valid for its
  area, the payload has the checksum the header states, the code fits the slot and passes
  the bytecode validation; the control block of the slot describes exactly that code with
  the program counter at the entry offset, and the snapshot of the slot reads back the
  whole object file, in chunks, with its size and checksum.
\<close>
theorem flash_load_correct:
  assumes "healthy (fl_dev (ld_flash s))"
    and "kRuntimeDataBase \<le> off" "unat off + unat cap \<le> unat kRuntimeDataEnd"
    and "loadObjectFileFromFlash alloc (readPage (wb_flash_bus base) base rr False) slot off cap s =
      (r, s')"
    and "sr_status r = LoadOk"
    and "h = header_of_bytes (flash_bytes (ld_flash s) off (unat object_header_size))"
  shows "slot < kPlcSlotCountV1 \<and> validateObjectFileHeader h cap = LoadOk \<and>
    fnv1a 2166136261 (flash_bytes (ld_flash s) (off + object_header_size)
        (unat (oh_total_size h - object_header_size))) = oh_object_checksum h \<and>
    oh_code_size h \<le> sl_linked_code_capacity (slotLayout slot) \<and>
    validateSupportedBytecode
      (Some (flash_bytes (ld_flash s) (off + object_header_size) (unat (oh_code_size h)))) \<and>
    read_control (ld_mem s') slot = loaded_control slot (slotLayout slot) (oh_code_size h)
      (oh_entry_offset h) (oh_max_instructions_per_scan h) (oh_max_scan_time_us h) \<and>
    (\<forall>k cp. readObjectFileSnapshotChunk slot k cp (ld_mem s') =
       (if k > oh_total_size h then None
        else Some (take (unat cp) (drop (unat k)
                     (flash_bytes (ld_flash s) off (unat (oh_total_size h)))),
                   oh_total_size h, oh_object_checksum h)))"
  unfolding flash_bytes_stored
  by (rule flash_pages.load_flash_ok [OF assms(1) window_readable [OF assms(2,3)] assms(4,5)
        assms(6) [unfolded flash_bytes_stored]])

text \<open>A flash that holds an object file with the given code and no symbols.\<close>

definition sample_object :: "u8 list \<Rightarrow> u8 list" where
  "sample_object code =
     words_bytes [kPlcObjectFileMagicV1, 0x00010001, 0, object_header_size + of_nat (length code),
                  of_nat (length code), 0, 0, object_header_size, object_header_size, 1000, 5000,
                  kPlcRuntimeHeaderAddr, fnv1a 2166136261 code] @ code"

definition flash_with :: "u8 list \<Rightarrow> wb_flash flash" where
  "flash_with bytes = (blank_flash [(9, None), (70, None)])
     \<lparr>fl_dev := (fl_dev (blank_flash [(9, None), (70, None)]))
        \<lparr>nor_array := (\<lambda>a. if 0x204000 \<le> a \<and> unat (a - 0x204000) < length bytes
                          then bytes ! unat (a - 0x204000) else 0xFF)\<rparr>\<rparr>"

definition sample_loader :: "mem \<Rightarrow> u8 list \<Rightarrow> wb_flash flash loader" where
  "sample_loader m code =
     \<lparr>ld_mem = m, ld_catalog = new_PointCatalog (\<lambda>_. empty_state),
      ld_publisher = ready_publisher, ld_scratch_capacity = 1,
      ld_flash = flash_with (sample_object code)\<rparr>"

lemma sample_window:
  "kRuntimeDataBase \<le> 0x204000" "unat (0x204000 :: u32) + unat (0x20000 :: u32) \<le> unat kRuntimeDataEnd"
  "healthy (fl_dev (ld_flash (sample_loader m code)))" "2 < kPlcSlotCountV1"
  by (simp_all add: flash_consts sample_loader_def flash_with_def blank_flash_def healthy_def
      no_error_def kTimeoutCycles_def kPlcSlotCountV1_def)

text \<open>What the loads of the two samples need: evaluated on the bytes in flash.\<close>

abbreviation sample_header :: "u8 list \<Rightarrow> object_header" where
  "sample_header code \<equiv> header_of_bytes (flash_bytes (flash_with (sample_object code)) 0x204000
     (unat object_header_size))"

lemma sample_nop:
  "validateObjectFileHeader (sample_header [0]) 0x20000 = LoadOk"
  "oh_code_size (sample_header [0]) = 1" "oh_total_size (sample_header [0]) = 53"
  "oh_symbol_count (sample_header [0]) = 0" "oh_relocation_count (sample_header [0]) = 0"
  "oh_object_checksum (sample_header [0]) = fnv1a 2166136261 [0]"
  "flash_bytes (flash_with (sample_object [0])) (0x204000 + object_header_size) 1 = [0]"
  "validateSupportedBytecode (Some [0])"
  by code_simp+

lemma sample_bad:
  "validateObjectFileHeader (sample_header [0xFF]) 0x20000 = LoadOk"
  "oh_code_size (sample_header [0xFF]) = 1" "oh_total_size (sample_header [0xFF]) = 53"
  "oh_object_checksum (sample_header [0xFF]) = fnv1a 2166136261 [0xFF]"
  "flash_bytes (flash_with (sample_object [0xFF])) (0x204000 + object_header_size) 1 = [0xFF]"
  "\<not> validateSupportedBytecode (Some [0xFF])"
  by code_simp+

lemma sample_loads:
  "sr_status (fst (loadObjectFileFromFlash (\<lambda>_. True) (readPage (wb_flash_bus 0) 0 False False)
     2 0x204000 0x20000 (sample_loader m [0]))) = LoadOk"
proof -
  let ?s = "sample_loader m [0]"
  note w = sample_window(1,2) sample_window(3) [of m "[0]"] sample_window(4)
  have fl: "ld_flash ?s = flash_with (sample_object [0])" by (simp add: sample_loader_def)
  have cap: "object_header_size \<le> 0x20000" by (simp add: object_header_size_def)
  have size: "oh_code_size (sample_header [0]) \<le> sl_linked_code_capacity (slotLayout 2)"
    using slot_layout_unat(7) [OF w(4)] by (simp add: sample_nop word_le_nat_alt)
  have sum: "fnv1a 2166136261 (flash_bytes (ld_flash ?s) (0x204000 + object_header_size)
      (unat (oh_total_size (sample_header [0]) - object_header_size))) =
      oh_object_checksum (sample_header [0])"
  proof -
    have "unat (oh_total_size (sample_header [0]) - object_header_size) = 1"
      unfolding sample_nop(3) by (simp add: object_header_size_def)
    then show ?thesis using sample_nop by (simp only: fl)
  qed
  have code: "[0] = flash_bytes (ld_flash ?s) (0x204000 + object_header_size)
      (unat (oh_code_size (sample_header [0])))"
    using sample_nop(7) by (simp add: fl sample_nop)
  have hd: "sample_header [0] = header_of_bytes (flash_bytes (ld_flash ?s) 0x204000
      (unat object_header_size))"
    by (simp only: fl)
  obtain g where g: "healthy (fl_dev g)"
    "loadObjectFileFromFlash (\<lambda>_. True) (readPage (wb_flash_bus 0) 0 False False)
        2 0x204000 0x20000 ?s =
      (let r = slot_load_result_at 2 (initial_load_result\<lparr>sr_status := LoadOk\<rparr>);
           s3 = ?s\<lparr>ld_flash := g, ld_mem := mem_write (ld_mem ?s)
              (sl_linked_code_addr (slotLayout 2)) [0]\<rparr>
       in if \<not> validateSupportedBytecode (Some [0]) then (r\<lparr>sr_status := LoadUnsupportedOpcode\<rparr>, s3)
          else load_linked_from_flash (\<lambda>_. True) (readPage (wb_flash_bus 0) 0 False False) 2 0x204000
            (sample_header [0]) r s3)"
    by (rule flash_load_prefix [OF w(3,1,2,4) hd cap sample_nop(1) sum size code])
  have rng: "flash_pages.readable_range False 0x204000 (unat (oh_total_size (sample_header [0])))"
    by (rule window_readable [OF w(1)]) (simp add: sample_nop flash_consts)
  have tot: "object_header_size \<le> oh_total_size (sample_header [0])"
    "oh_total_size (sample_header [0]) \<le> slotObjectSnapshotCapacity"
    unfolding sample_nop(3)
    by (simp_all add: object_header_size_def slotObjectSnapshotCapacity_def layout_defs)
  show ?thesis
    unfolding g(2) Let_def
    by (subst if_not_P, simp add: sample_nop(8),
        rule flash_pages.load_linked_no_tables [OF _ rng w(4) _ _ _ _ size tot])
      (use g(1) sample_nop in \<open>simp_all add: sample_loader_def new_PointCatalog_def resetIndex_def\<close>)
qed

lemma flash_load_correct_witness:
  "let (r, s') = loadObjectFileFromFlash (\<lambda>_. True) (readPage (wb_flash_bus 0) 0 False False)
       2 0x204000 0x20000 (sample_loader (\<lambda>_. 0) [0])
   in sr_status r = LoadOk \<and> cb_bytecode_size (read_control (ld_mem s') 2) = 1"
proof -
  let ?s = "sample_loader (\<lambda>_. 0) [0]"
  obtain r s' where l: "loadObjectFileFromFlash (\<lambda>_. True) (readPage (wb_flash_bus 0) 0 False False)
      2 0x204000 0x20000 ?s = (r, s')" by fastforce
  then have ok: "sr_status r = LoadOk" using sample_loads [of "\<lambda>_. 0"] by simp
  have fl: "ld_flash ?s = flash_with (sample_object [0])" by (simp add: sample_loader_def)
  have "read_control (ld_mem s') 2 = loaded_control 2 (slotLayout 2)
      (oh_code_size (sample_header [0])) (oh_entry_offset (sample_header [0]))
      (oh_max_instructions_per_scan (sample_header [0])) (oh_max_scan_time_us (sample_header [0]))"
    using flash_load_correct [OF sample_window(3,1,2) l ok refl] by (simp add: fl)
  then show ?thesis using ok sample_nop(2) by (simp add: l loaded_control_def)
qed

text \<open>
  C36: A load from flash that is rejected for its bytecode has already replaced the program
  of the slot: the code bytes of the rejected object are in the linked-code area, while
  the control block, which still describes the previous program, is as before. The engine
  goes on running the slot with bytes the validator has refused.
\<close>
theorem rejected_code_replaces_program:
  assumes "healthy (fl_dev (ld_flash s))"
    and "kRuntimeDataBase \<le> off" "unat off + unat cap \<le> unat kRuntimeDataEnd"
    and "slot < kPlcSlotCountV1"
    and "h = header_of_bytes (flash_bytes (ld_flash s) off (unat object_header_size))"
    and "object_header_size \<le> cap" "validateObjectFileHeader h cap = LoadOk"
    and "fnv1a 2166136261 (flash_bytes (ld_flash s) (off + object_header_size)
        (unat (oh_total_size h - object_header_size))) = oh_object_checksum h"
    and "oh_code_size h \<le> sl_linked_code_capacity (slotLayout slot)"
    and "code = flash_bytes (ld_flash s) (off + object_header_size) (unat (oh_code_size h))"
    and "\<not> validateSupportedBytecode (Some code)"
  shows "let (r, s') = loadObjectFileFromFlash alloc
               (readPage (wb_flash_bus base) base rr False) slot off cap s
     in sr_status r = LoadUnsupportedOpcode \<and>
        mem_read (ld_mem s') (sl_linked_code_addr (slotLayout slot)) (length code) = code \<and>
        read_control (ld_mem s') slot = read_control (ld_mem s) slot"
proof -
  obtain g where l: "loadObjectFileFromFlash alloc (readPage (wb_flash_bus base) base rr False)
      slot off cap s =
    (let r = slot_load_result_at slot (initial_load_result\<lparr>sr_status := LoadOk\<rparr>);
         s3 = s\<lparr>ld_flash := g, ld_mem := mem_write (ld_mem s)
            (sl_linked_code_addr (slotLayout slot)) code\<rparr>
     in if \<not> validateSupportedBytecode (Some code) then (r\<lparr>sr_status := LoadUnsupportedOpcode\<rparr>, s3)
        else load_linked_from_flash alloc (readPage (wb_flash_bus base) base rr False) slot off h r s3)"
    by (rule flash_load_prefix [OF assms(1-10)])
  have len: "length code = unat (oh_code_size h)" by (simp add: assms(10) flash_bytes_def)
  have fit: "length code \<le> region_size RCode"
    using assms(9) slot_layout_unat(7) [OF assms(4)] by (simp add: len word_le_nat_alt)
  have rd: "mem_read (mem_write (ld_mem s) (sl_linked_code_addr (slotLayout slot)) code)
      (sl_linked_code_addr (slotLayout slot)) (length code) = code"
    using fit by (intro mem_read_write_same) simp
  have "region_read (mem_write (ld_mem s) (region_base RCode slot) code) RControl slot =
      region_read (ld_mem s) RControl slot"
    by (rule region_write_frame) (use assms(4) fit in \<open>simp_all add: other_region_def\<close>)
  then have "read_words (mem_write (ld_mem s) (region_base RCode slot) code)
      (region_base RControl slot) 18 = read_words (ld_mem s) (region_base RControl slot) 18"
    by (rule region_words_cong) simp
  then have "read_control (mem_write (ld_mem s) (sl_linked_code_addr (slotLayout slot)) code) slot =
      read_control (ld_mem s) slot"
    by (simp add: read_control_def)
  then show ?thesis using rd assms(11) by (simp add: l Let_def)
qed

lemma rejected_code_replaces_program_witness:
  "let (r, s') = loadObjectFileFromFlash (\<lambda>_. True) (readPage (wb_flash_bus 0) 0 False False)
       2 0x204000 0x20000 (sample_loader (\<lambda>_. 0) [0xFF])
   in sr_status r = LoadUnsupportedOpcode \<and>
      ld_mem s' (sl_linked_code_addr (slotLayout 2)) = 0xFF \<and>
      read_control (ld_mem s') 2 = read_control (\<lambda>_. 0) 2"
proof -
  let ?s = "sample_loader (\<lambda>_. 0) [0xFF]"
  note w = sample_window(1,2) sample_window(3) [of "\<lambda>_. 0" "[0xFF]"] sample_window(4)
  have fl: "ld_flash ?s = flash_with (sample_object [0xFF])" "ld_mem ?s = (\<lambda>_. 0)"
    by (simp_all add: sample_loader_def)
  have cap: "object_header_size \<le> 0x20000" by (simp add: object_header_size_def)
  have size: "oh_code_size (sample_header [0xFF]) \<le> sl_linked_code_capacity (slotLayout 2)"
    using slot_layout_unat(7) [OF w(4)] by (simp add: sample_bad word_le_nat_alt)
  have sum: "fnv1a 2166136261 (flash_bytes (ld_flash ?s) (0x204000 + object_header_size)
      (unat (oh_total_size (sample_header [0xFF]) - object_header_size))) =
      oh_object_checksum (sample_header [0xFF])"
  proof -
    have "unat (oh_total_size (sample_header [0xFF]) - object_header_size) = 1"
      unfolding sample_bad(3) by (simp add: object_header_size_def)
    then show ?thesis using sample_bad by (simp only: fl)
  qed
  have code: "[0xFF] = flash_bytes (ld_flash ?s) (0x204000 + object_header_size)
      (unat (oh_code_size (sample_header [0xFF])))"
    using sample_bad(5) by (simp add: fl sample_bad)
  have "let (r, s') = loadObjectFileFromFlash (\<lambda>_. True) (readPage (wb_flash_bus 0) 0 False False)
       2 0x204000 0x20000 ?s
     in sr_status r = LoadUnsupportedOpcode \<and>
        mem_read (ld_mem s') (sl_linked_code_addr (slotLayout 2)) (length [0xFF :: u8]) = [0xFF] \<and>
        read_control (ld_mem s') 2 = read_control (ld_mem ?s) 2"
    by (rule rejected_code_replaces_program [OF w(3,1,2,4) _ cap _ _ _ code sample_bad(6)])
      (use sample_bad(1) sum size in \<open>simp_all add: fl\<close>)
  then show ?thesis by (auto simp: fl mem_read_def split: prod.splits)
qed

section \<open>Slot variables\<close>

definition image_symbols :: "object_image \<Rightarrow> mem \<Rightarrow> nat list \<Rightarrow> symbol_record list" where
  "image_symbols img m is =
     map (\<lambda>i. read_symbol m (oi_symbols img + of_nat i * symbol_record_size)) is"

lemma expected_variables_memory_ind:
  "expected_variables (memory_symbols img) slot is ds needs s = (res, s') \<Longrightarrow>
   s' = s \<and> (\<forall>ds' needs'. res = Some (ds', needs') \<longrightarrow>
     ds' = ds @ map (buildExpectedSlotVariableDefinition (ld_catalog s) slot)
      (filter (\<lambda>y. sym_kind y = kPlcSymbolSlotVar) (image_symbols img (ld_mem s) is)))"
proof (induction "is" arbitrary: ds needs)
  case Nil
  then show ?case by (auto simp: image_symbols_def)
next
  case (Cons i "is")
  let ?y = "read_symbol (ld_mem s) (oi_symbols img + of_nat i * symbol_record_size)"
  let ?d = "buildExpectedSlotVariableDefinition (ld_catalog s) slot ?y"
  have rd: "memory_symbols img i s = (Some ?y, s)" by (simp add: memory_symbols_def)
  have sy: "image_symbols img (ld_mem s) (i # is) = ?y # image_symbols img (ld_mem s) is"
    by (simp add: image_symbols_def)
  show ?case
  proof (cases "sym_kind ?y = kPlcSymbolSlotVar")
    case False
    then show ?thesis using Cons.prems Cons.IH [of ds needs] by (simp add: rd sy)
  next
    case True
    show ?thesis
    proof (cases "kMaxPoints \<le> length ds \<or> cstr (point_id (pd_id ?d)) = []")
      case False
      then have "\<exists>n. expected_variables (memory_symbols img) slot is (ds @ [?d]) n s = (res, s')"
        using Cons.prems True by (simp only: expected_variables.simps rd Let_def) auto
      then show ?thesis using Cons.IH True by (fastforce simp: sy)
    next
      case stop: True
      then have "res = None \<and> s' = s"
        using Cons.prems True by (auto simp: rd Let_def split: if_splits)
      then show ?thesis by simp
    qed
  qed
qed

lemma expected_variables_memory:
  assumes "expected_variables (memory_symbols img) slot is ds needs s = (res, s')"
  shows "s' = s"
    and "res = Some (ds', needs') \<Longrightarrow> ds' = ds @ map (buildExpectedSlotVariableDefinition (ld_catalog s) slot)
      (filter (\<lambda>y. sym_kind y = kPlcSymbolSlotVar) (image_symbols img (ld_mem s) is))"
  using expected_variables_memory_ind [OF assms] by simp_all

lemma prepare_cases:
  assumes "prepareSlotVariablePoints alloc slot img s = (ok, s')"
  obtains (same) "ld_catalog s' = ld_catalog s" "\<not> ok"
  | (replaced) ds needs where
      "ds = map (buildExpectedSlotVariableDefinition (ld_catalog s) slot)
         (filter (\<lambda>y. sym_kind y = kPlcSymbolSlotVar)
            (image_symbols img (ld_mem s) [0..<unat (oi_symbol_count img)]))"
      "replaceSlotVariableDefinitions (ld_catalog s) slot (Some ds) = (True, needs, ld_catalog s')"
  | (refused) ds needs where "\<not> ok"
      "replaceSlotVariableDefinitions (ld_catalog s) slot (Some ds) = (False, needs, ld_catalog s')"
proof (cases "slotVariableDefinitionScratch alloc (ld_scratch_capacity s) (unat (oi_symbol_count img))")
  case None
  then show ?thesis
    using assms same by (simp add: prepareSlotVariablePoints_def reconcileSlotVariablePoints_def)
next
  case (Some k)
  obtain res s1 where r: "expected_variables (memory_symbols img) slot
      [0..<unat (oi_symbol_count img)] [] False (s\<lparr>ld_scratch_capacity := k\<rparr>) = (res, s1)"
    by fastforce
  note s1 = expected_variables_memory(1) [OF r]
  show ?thesis
  proof (cases res)
    case None
    then have "\<not> ok" "s' = s\<lparr>ld_scratch_capacity := k\<rparr>"
      using assms Some r s1
      by (auto simp: prepareSlotVariablePoints_def reconcileSlotVariablePoints_def)
    then show ?thesis using same by simp
  next
    case (Some res')
    then obtain ds needs where ds: "res = Some (ds, needs)" by fastforce
    obtain done' changed c' where rep: "replaceSlotVariableDefinitions (ld_catalog s) slot (Some ds) =
        (done', changed, c')" by (metis prod_cases3)
    have "ld_catalog s' = c'" "\<not> done' \<Longrightarrow> \<not> ok"
      using assms \<open>slotVariableDefinitionScratch _ _ _ = _\<close> r ds s1 rep
      by (auto simp: prepareSlotVariablePoints_def reconcileSlotVariablePoints_def Let_def
          split: if_splits prod.splits)
    then show ?thesis
      using rep replaced [of ds changed] refused [of ds changed]
        expected_variables_memory(2) [OF r ds] by (cases done') simp_all
  qed
qed

text \<open>
  C10: Preparing the slot variables of an object image keeps the catalog invariant on every
  outcome, and when it succeeds the variables of the slot are exactly the definitions of
  the slot-variable symbols of the image, in their order: either the catalog had them
  already, or its other rows are kept in their order with the new ones inserted before
  the first row of a later slot.
\<close>
theorem slot_variables_reconciled:
  assumes "catalog_wf (ld_catalog s)"
  shows "let (ok, s') = prepareSlotVariablePoints alloc slot img s;
             c = ld_catalog s; c' = ld_catalog s';
             ds = map (buildExpectedSlotVariableDefinition c slot)
               (filter (\<lambda>y. sym_kind y = kPlcSymbolSlotVar)
                  (image_symbols img (ld_mem s) [0..<unat (oi_symbol_count img)]))
         in catalog_wf c' \<and>
            (ok \<longrightarrow> (rows c' = rows c \<and> same_layout (variable_rows slot (rows c)) ds) \<or>
                  rows c' = insert_rows slot (map fresh_row ds) (kept_rows slot (rows c)))"
proof -
  obtain ok s' where p: "prepareSlotVariablePoints alloc slot img s = (ok, s')" by fastforce
  note wf = replace_wf [OF assms, of slot]
  from p show ?thesis
  proof (cases rule: prepare_cases)
    case same
    then show ?thesis using assms by (simp add: p)
  next
    case (replaced ds needs)
    have "catalog_wf (ld_catalog s')" using wf [of "Some ds"] by (simp add: replaced(2))
    moreover have "(rows (ld_catalog s') = rows (ld_catalog s) \<and>
          same_layout (variable_rows slot (rows (ld_catalog s))) ds) \<or>
        rows (ld_catalog s') = insert_rows slot (map fresh_row ds) (kept_rows slot (rows (ld_catalog s)))"
      using replaced(2)
      by (auto simp: replaceSlotVariableDefinitions_eq split: if_splits)
        (metis rows_commit replace_prepared_rows(1))
    ultimately show ?thesis using replaced(1) by (simp add: p Let_def)
  next
    case (refused ds needs)
    have "catalog_wf (ld_catalog s')" using wf [of "Some ds"] by (simp add: refused(2))
    then show ?thesis using refused(1) by (simp add: p)
  qed
qed

lemma slot_variables_reconciled_witness:
  "let s = (sample_loader (\<lambda>_. 0) [0])\<lparr>ld_catalog := sample_catalog\<rparr>;
       (ok, s') = prepareSlotVariablePoints (\<lambda>_. True) 3
          (empty_image\<lparr>oi_symbols := 0x100, oi_symbol_count := 4\<rparr>) s
   in catalog_wf (ld_catalog s')"
  using slot_variables_reconciled [of "(sample_loader (\<lambda>_. 0) [0])\<lparr>ld_catalog := sample_catalog\<rparr>"
      "\<lambda>_. True" 3 "empty_image\<lparr>oi_symbols := 0x100, oi_symbol_count := 4\<rparr>"] sample_catalog_wf
  by (simp add: Let_def split: prod.splits)

text \<open>
  A slot variable of an unsupported type is not rejected when the slot variables are
  prepared: the early return of \<open>buildExpectedSlotVariableDefinition\<close> leaves the identity
  in a definition with the default fields, so the caller's test for an empty point name
  passes and the catalog receives a readable Bool point with one-second polling.
  \<open>ensureSlotVariablePoint\<close> rejects the same symbol.
\<close>
theorem unsupported_variable_becomes_bool:
  assumes "cat_count c \<noteq> 0" "cstr (sym_name y) \<noteq> []" "\<not> isReservedSlotPointId (sym_name y)"
    and "sym_kind y = kPlcSymbolSlotVar" "\<not> isSupportedSlotVariableType (sym_expected_type y)"
  shows "let d = buildExpectedSlotVariableDefinition c slot y in
     cstr (point_id (pd_id d)) = take 31 (cstr (sym_name y)) \<and> cstr (point_id (pd_id d)) \<noteq> [] \<and>
     value_type d = TyBool \<and> direction d = DirInput \<and> refresh_ms (polling d) = 1000 \<and>
     ensureSlotVariablePoint c slot y = (False, c)"
proof -
  have "length (slot_feature_text slot) < 32"
  proof -
    have "unat slot < 10 ^ 5" using unsigned_less [of slot, where ?'a = nat] by simp
    then have "length (dec_digits (unat slot)) \<le> 5" by (rule length_dec_digits_le) simp
    then show ?thesis by (simp add: slot_feature_text_def lit_def)
  qed
  then obtain dev where "loaderSlotVariableIdentity c slot (sym_name y) empty_identity =
      (cstr (strncpy (zbuf 32) (sym_name y) 31) \<noteq> [],
       empty_identity\<lparr>device_id := dev,
         feature := slot_feature_text slot @ replicate (32 - length (slot_feature_text slot)) 0,
         point_id := strncpy (zbuf 32) (sym_name y) 31\<rparr>)"
    using assms(1-3) by (simp add: loaderSlotVariableIdentity_def Let_def)
  moreover have "cstr (strncpy (zbuf 32) (sym_name y) 31) = take 31 (cstr (sym_name y))"
    by (simp add: cstr_strncpy_zbuf)
  moreover have "take 31 (cstr (sym_name y)) \<noteq> []" using assms(2) by simp
  ultimately show ?thesis
    using assms(4,5)
    by (simp add: buildExpectedSlotVariableDefinition_def ensureSlotVariablePoint_def
        empty_definition_def Let_def)
qed

lemma unsupported_variable_becomes_bool_witness:
  "let y = lit ''temp'' @ replicate 12 0 @ [2, 0] @ replicate 80 0 @ [7, 0, 0, 0];
       d = buildExpectedSlotVariableDefinition sample_catalog 3 y
   in cstr (point_id (pd_id d)) = lit ''temp'' \<and> value_type d = TyBool"
proof -
  let ?y = "lit ''temp'' @ replicate 12 0 @ [2, 0] @ replicate 80 0 @ [7, 0, 0, 0]"
  have c: "cat_count sample_catalog \<noteq> 0" by (simp add: sample_catalog_rows)
  have y: "cstr (sym_name ?y) = lit ''temp''" "cstr (sym_name ?y) \<noteq> []"
    "\<not> isReservedSlotPointId (sym_name ?y)" "sym_kind ?y = kPlcSymbolSlotVar"
    "\<not> isSupportedSlotVariableType (sym_expected_type ?y)" "take 31 (lit ''temp'') = lit ''temp''"
    by code_simp+
  show ?thesis
    using unsupported_variable_becomes_bool [OF c y(2-5), of 3] y(1,6) by (simp add: Let_def)
qed

end
