(* ===== verification/PollPlan.thy ===== *)
theory PollPlan
  imports CatalogOps "HOL-Library.Multiset"
begin

unbundle bit_operations_syntax

text \<open>
  The Modbus poll plan of \<open>PlcCore.cpp\<close>: which points of the catalog are polled, the
  insertion sort that orders them, and the loop that packs neighbours into batches of one
  read request each. The two arrays of the plan are the lists of their used entries. The
  second half shows that the sort sorts and that the batches are consistent.
\<close>

section \<open>Points\<close>

definition kMaxModbusPollBatches :: nat where "kMaxModbusPollBatches = kMaxPoints"
definition kMaxModbusBatchMembers :: nat where "kMaxModbusBatchMembers = kMaxPoints"
definition kMaxModbusBatchRegisters :: u16 where "kMaxModbusBatchRegisters = 125"
definition kMaxModbusBatchBits :: u16 where "kMaxModbusBatchBits = 256"

record poll_member =
  bm_index :: u16
  bm_offset :: u16

record poll_batch =
  bt_valid :: bool
  bt_port :: u8
  bt_slave :: u8
  bt_table :: modbus_table
  bt_start :: u16
  bt_quantity :: u16
  bt_member_start :: u16
  bt_member_count :: u16

record poll_plan =
  pp_batches :: "poll_batch list"
  pp_members :: "poll_member list"

definition empty_batch :: poll_batch where
  "empty_batch =
     \<lparr>bt_valid = False, bt_port = 0, bt_slave = 0, bt_table = TableHoldingRegisters, bt_start = 0,
      bt_quantity = 0, bt_member_start = 0, bt_member_count = 0\<rparr>"

definition modbus_table_is_bitwise :: "modbus_table \<Rightarrow> bool" where
  "modbus_table_is_bitwise t = (t = TableCoils \<or> t = TableDiscreteInputs)"

definition modbus_point_span :: "point_definition \<Rightarrow> u16" where
  "modbus_point_span d =
     (if modbus_table_is_bitwise (ref_table d) then 1
      else if ref_register_count d = 0 then 0 else ucast (ref_register_count d))"

definition modbus_poll_sort_before ::
  "point_definition \<Rightarrow> nat \<Rightarrow> point_definition \<Rightarrow> nat \<Rightarrow> bool" where
  "modbus_poll_sort_before lhs lhs_index rhs rhs_index =
     (if ref_port_index lhs \<noteq> ref_port_index rhs then ref_port_index lhs < ref_port_index rhs
      else if ref_slave_address lhs \<noteq> ref_slave_address rhs
      then ref_slave_address lhs < ref_slave_address rhs
      else if ref_table lhs \<noteq> ref_table rhs
      then modbus_table_raw (ref_table lhs) < modbus_table_raw (ref_table rhs)
      else if ref_address lhs \<noteq> ref_address rhs then ref_address lhs < ref_address rhs
      else lhs_index < rhs_index)"

definition writable_access :: "modbus_access \<Rightarrow> bool" where
  "writable_access a = (a = AccessWrite \<or> a = AccessReadWrite)"

definition polled_point :: "point_definition \<Rightarrow> bool" where
  "polled_point d =
     (backend d = BackendModbus \<and> \<not> (ref_table d = TableCoils \<and> writable_access (ref_access d)))"

section \<open>The sort\<close>

text \<open>The inner loop: \<open>current\<close> moves down from position \<open>insert\<close>.\<close>

fun sort_shift :: "(nat \<Rightarrow> point_definition) \<Rightarrow> nat \<Rightarrow> nat \<Rightarrow> nat list \<Rightarrow> nat list" where
  "sort_shift defs current 0 xs = xs[0 := current]"
| "sort_shift defs current (Suc k) xs =
     (if modbus_poll_sort_before (defs current) current (defs (xs ! k)) (xs ! k)
      then sort_shift defs current k (xs[Suc k := xs ! k])
      else xs[Suc k := current])"

definition sort_polled :: "(nat \<Rightarrow> point_definition) \<Rightarrow> nat list \<Rightarrow> nat list" where
  "sort_polled defs xs =
     fold (\<lambda>i ys. sort_shift defs (ys ! i) i ys) [1..<length xs] xs"

section \<open>The batches\<close>

definition batch_limit :: "modbus_table \<Rightarrow> u16" where
  "batch_limit t = (if modbus_table_is_bitwise t then kMaxModbusBatchBits else kMaxModbusBatchRegisters)"

text \<open>The new quantity of the batch when the point joins it.\<close>

definition merged_quantity :: "u16 \<Rightarrow> poll_batch \<Rightarrow> point_definition \<Rightarrow> u32 option" where
  "merged_quantity max_gap b d =
     (let point_end = ucast (ref_address d) + ucast (modbus_point_span d) - 1 :: u32;
          batch_end = ucast (bt_start b) + ucast (bt_quantity b) - 1;
          merged_end = (if batch_end < point_end then point_end else batch_end);
          merged = merged_end - ucast (bt_start b) + 1;
          max_next = batch_end + 1 + ucast max_gap
      in if bt_valid b \<and> bt_port b = ref_port_index d \<and> bt_slave b = ref_slave_address d \<and>
            bt_table b = ref_table d \<and> ucast (ref_address d) \<le> max_next \<and>
            merged \<le> ucast (batch_limit (ref_table d))
         then Some merged else None)"

definition add_member :: "(nat \<Rightarrow> point_definition) \<Rightarrow> nat \<Rightarrow> poll_plan \<Rightarrow> poll_plan" where
  "add_member defs ci p =
     (let b = last (pp_batches p) in
      \<lparr>pp_batches = butlast (pp_batches p) @ [b\<lparr>bt_member_count := bt_member_count b + 1\<rparr>],
       pp_members = pp_members p @
         [\<lparr>bm_index = of_nat ci, bm_offset = ref_address (defs ci) - bt_start b\<rparr>]\<rparr>)"

text \<open>The body of the loop for one sorted index; \<open>None\<close> is the \<open>break\<close>.\<close>

definition plan_point ::
  "(nat \<Rightarrow> point_definition) \<Rightarrow> u16 \<Rightarrow> nat \<Rightarrow> poll_plan \<Rightarrow> poll_plan option" where
  "plan_point defs max_gap ci p =
     (let d = defs ci; span = modbus_point_span d; bs = pp_batches p in
      if span = 0 then Some p
      else
        (case (if bs = [] then None else merged_quantity max_gap (last bs) d) of
           Some merged \<Rightarrow>
             Some (add_member defs ci
               (p\<lparr>pp_batches := butlast bs @ [(last bs)\<lparr>bt_quantity := ucast merged\<rparr>]\<rparr>))
         | None \<Rightarrow>
             if length bs \<ge> kMaxModbusPollBatches \<or> length (pp_members p) \<ge> kMaxModbusBatchMembers
             then None
             else Some (add_member defs ci
               (p\<lparr>pp_batches := bs @
                  [\<lparr>bt_valid = True, bt_port = ref_port_index d, bt_slave = ref_slave_address d,
                    bt_table = ref_table d, bt_start = ref_address d, bt_quantity = span,
                    bt_member_start = of_nat (length (pp_members p)), bt_member_count = 0\<rparr>]\<rparr>))))"

fun plan_loop ::
  "(nat \<Rightarrow> point_definition) \<Rightarrow> u16 \<Rightarrow> nat list \<Rightarrow> poll_plan \<Rightarrow> poll_plan" where
  "plan_loop defs max_gap [] p = p"
| "plan_loop defs max_gap (ci # cis) p =
     (case plan_point defs max_gap ci p of
        None \<Rightarrow> p | Some p' \<Rightarrow> plan_loop defs max_gap cis p')"

definition poll_plan_of :: "u16 \<Rightarrow> point_catalog \<Rightarrow> poll_plan" where
  "poll_plan_of max_gap c =
     (let polled = filter (\<lambda>i. polled_point (cat_entries c i)) [0..<cat_count c]
      in plan_loop (cat_entries c) max_gap (sort_polled (cat_entries c) polled)
           \<lparr>pp_batches = [], pp_members = []\<rparr>)"

section \<open>The plan hash\<close>

definition plan_hash_bytes :: "point_definition \<Rightarrow> u8 list" where
  "plan_hash_bytes d =
     [ref_port_index d, ref_slave_address d] @ le16 (ref_address d) @
     [ref_register_count d, modbus_table_raw (ref_table d)] @
     le32 (refresh_ms (polling d)) @ [value_type_raw (value_type d)]"

definition computeModbusPlanHash :: "u16 \<Rightarrow> point_catalog \<Rightarrow> u32" where
  "computeModbusPlanHash max_gap c =
     fnv1a
       (fold (\<lambda>i hash. let d = cat_entries c i in
                if backend d \<noteq> BackendModbus then hash else fnv1a hash (plan_hash_bytes d))
          [0..<cat_count c] fnv_offset)
       (le16 max_gap)"

section \<open>The order of the points\<close>

datatype poll_key =
  PollKey (pk_port: u8) (pk_slave: u8) (pk_table: u8) (pk_address: u16) (pk_index: nat)

instantiation poll_key :: linorder
begin

definition less_poll_key :: "poll_key \<Rightarrow> poll_key \<Rightarrow> bool" where
  "less_poll_key a b =
     (if pk_port a \<noteq> pk_port b then pk_port a < pk_port b
      else if pk_slave a \<noteq> pk_slave b then pk_slave a < pk_slave b
      else if pk_table a \<noteq> pk_table b then pk_table a < pk_table b
      else if pk_address a \<noteq> pk_address b then pk_address a < pk_address b
      else pk_index a < pk_index b)"

definition less_eq_poll_key :: "poll_key \<Rightarrow> poll_key \<Rightarrow> bool" where
  "less_eq_poll_key a b = (a < b \<or> a = b)"

instance
  by intro_classes
    (auto simp: less_eq_poll_key_def less_poll_key_def poll_key.expand split: if_splits
      intro: less_trans poll_key.expand)

end

definition poll_key :: "(nat \<Rightarrow> point_definition) \<Rightarrow> nat \<Rightarrow> poll_key" where
  "poll_key defs i =
     PollKey (ref_port_index (defs i)) (ref_slave_address (defs i))
       (modbus_table_raw (ref_table (defs i))) (ref_address (defs i)) i"

lemma ref_table_eq_iff:
  "ref_table d = ref_table d' \<longleftrightarrow> modbus_table_raw (ref_table d) = modbus_table_raw (ref_table d')"
  unfolding ref_table_def by (metis table_enum.to_of)

lemma sort_before_key:
  "modbus_poll_sort_before (defs i) i (defs k) k \<longleftrightarrow> poll_key defs i < poll_key defs k"
  by (simp add: modbus_poll_sort_before_def poll_key_def less_poll_key_def ref_table_eq_iff)

lemma inj_poll_key: "inj_on (poll_key defs) A"
  by (auto simp: inj_on_def poll_key_def)

section \<open>The sort sorts\<close>

lemma insort_key_append_less:
  "f x < f y \<Longrightarrow> insort_key f x (xs @ [y]) = insort_key f x xs @ [y]"
  by (induction xs) auto

lemma insort_key_greater:
  "\<forall>y \<in> set xs. f y < f x \<Longrightarrow> insort_key f x xs = xs @ [x]"
  by (induction xs) (auto simp: not_le [symmetric])

lemma sort_shift_insort:
  assumes "k < length xs" and "sorted (map (poll_key defs) (take k xs))"
    and "current \<notin> set (take k xs)"
  shows "sort_shift defs current k xs =
    insort_key (poll_key defs) current (take k xs) @ drop (Suc k) xs"
  using assms
proof (induction k arbitrary: xs)
  case 0
  then show ?case by (cases xs) simp_all
next
  case (Suc k)
  let ?y = "xs ! k" and ?f = "poll_key defs"
  have t: "take (Suc k) xs = take k xs @ [?y]" using Suc.prems(1) by (simp add: take_Suc_conv_app_nth)
  have s: "sorted (map ?f (take k xs))" and le: "\<And>z. z \<in> set (take k xs) \<Longrightarrow> ?f z \<le> ?f ?y"
    using Suc.prems(2) by (simp_all add: t sorted_append)
  show ?case
  proof (cases "modbus_poll_sort_before (defs current) current (defs ?y) ?y")
    case True
    then have lt: "?f current < ?f ?y" by (simp add: sort_before_key)
    have "sort_shift defs current k (xs[Suc k := ?y]) =
        insort_key ?f current (take k xs) @ drop (Suc k) (xs[Suc k := ?y])"
      using Suc.IH [of "xs[Suc k := ?y]"] Suc.prems(1,3) s by (simp add: t)
    moreover have "drop (Suc k) (xs[Suc k := ?y]) = ?y # drop (Suc (Suc k)) xs"
      using Suc.prems(1) by (simp add: list_eq_iff_nth_eq nth_Cons split: nat.split)
    ultimately show ?thesis using True lt by (simp add: t insort_key_append_less)
  next
    case False
    then have le2: "?f ?y \<le> ?f current" by (simp add: sort_before_key)
    have "?f z < ?f current" if "z \<in> set (take (Suc k) xs)" for z
    proof -
      have "?f z \<le> ?f current" using that le le2 by (auto simp: t intro: order_trans)
      moreover have "?f z \<noteq> ?f current"
        using that Suc.prems(3) by (auto simp: poll_key_def)
      ultimately show ?thesis by simp
    qed
    then have "insort_key ?f current (take (Suc k) xs) = take (Suc k) xs @ [current]"
      by (intro insort_key_greater) blast
    moreover have "xs[Suc k := current] = take (Suc k) xs @ current # drop (Suc (Suc k)) xs"
      using Suc.prems(1) by (rule upd_conv_take_nth_drop)
    ultimately show ?thesis using False by simp
  qed
qed

lemma sort_polled_upto:
  assumes "distinct xs" and "n \<le> length xs" "0 < n"
  shows "let ys = fold (\<lambda>i ys. sort_shift defs (ys ! i) i ys) [1..<n] xs in
    sorted (map (poll_key defs) (take n ys)) \<and> mset (take n ys) = mset (take n xs) \<and>
    drop n ys = drop n xs \<and> length ys = length xs"
  using assms(3,2)
proof (induction n rule: nat_induct_non_zero)
  case 1
  then show ?case by (cases xs) simp_all
next
  case (Suc n)
  define ys where "ys = fold (\<lambda>i ys. sort_shift defs (ys ! i) i ys) [1..<n] xs"
  let ?f = "poll_key defs" and ?zs = "sort_shift defs (xs ! n) n ys"
  have ih: "sorted (map ?f (take n ys))" "mset (take n ys) = mset (take n xs)"
    "drop n ys = drop n xs" "length ys = length xs"
    using Suc by (simp_all add: ys_def Let_def)
  have n: "n < length xs" using Suc.prems by simp
  have yn: "ys ! n = xs ! n" using ih(3,4) n by (metis hd_drop_conv_nth)
  have "xs ! n \<notin> set (take n xs)"
    using assms(1) n by (simp add: distinct_conv_nth in_set_conv_nth)
  then have fresh: "ys ! n \<notin> set (take n ys)" using ih(2) yn by (metis set_mset_mset)
  have "sort_shift defs (ys ! n) n ys = insort_key ?f (ys ! n) (take n ys) @ drop (Suc n) ys"
    using n ih fresh by (intro sort_shift_insort) simp_all
  then have z: "sort_shift defs (xs ! n) n ys = insort_key ?f (xs ! n) (take n ys) @ drop (Suc n) ys"
    by (simp only: yn)
  have len: "length (insort_key ?f (xs ! n) (take n ys)) = Suc n" using n ih(4) by simp
  have "sorted (map ?f (take (Suc n) ?zs))"
    using ih(1) len by (simp add: yn z sorted_insort_key)
  moreover have "mset (take (Suc n) ?zs) = mset (take (Suc n) xs)"
    using len ih(2) n yn by (simp add: yn z take_Suc_conv_app_nth)
  moreover have "drop (Suc n) ?zs = drop (Suc n) xs"
    using len ih(3) by (simp add: yn z) (metis drop_drop add.commute plus_1_eq_Suc)
  moreover have "length ?zs = length xs" using len ih(4) n by (simp add: yn z)
  moreover have "fold (\<lambda>i ys. sort_shift defs (ys ! i) i ys) [1..<Suc n] xs = ?zs"
    using Suc.hyps yn by (simp add: ys_def [symmetric] del: One_nat_def)
  ultimately show ?case by (simp add: Let_def del: One_nat_def upt_Suc)
qed

lemma sort_polled_sort_key:
  assumes "distinct xs"
  shows "sort_polled defs xs = sort_key (poll_key defs) xs"
proof (cases "xs = []")
  case False
  then have "0 < length xs" by simp
  from sort_polled_upto [OF assms order_refl this, of defs, unfolded Let_def, folded sort_polled_def]
  have stop: "sorted (map (poll_key defs) (take (length xs) (sort_polled defs xs)))"
    "mset (take (length xs) (sort_polled defs xs)) = mset xs"
    "length (sort_polled defs xs) = length xs"
    by (simp_all only:) simp
  then have "take (length xs) (sort_polled defs xs) = sort_polled defs xs" by simp
  with stop(1,2) show ?thesis
    using sort_key_inj_key_eq [OF _ inj_poll_key, of xs "sort_polled defs xs" defs] by simp
qed (simp add: sort_polled_def)

section \<open>Consistent plans\<close>

definition batch_members :: "poll_plan \<Rightarrow> poll_batch \<Rightarrow> poll_member list" where
  "batch_members p b = take (unat (bt_member_count b)) (drop (unat (bt_member_start b)) (pp_members p))"

text \<open>The member ranges of the batches lie one after the other, none empty.\<close>

fun ranges_ok :: "nat \<Rightarrow> poll_batch list \<Rightarrow> nat \<Rightarrow> bool" where
  "ranges_ok from [] stop = (from = stop)"
| "ranges_ok from (b # bs) stop =
     (unat (bt_member_start b) = from \<and> 0 < unat (bt_member_count b) \<and>
      ranges_ok (from + unat (bt_member_count b)) bs stop)"

text \<open>
  A member belongs to the device and the table of its batch, and its values lie in the
  response from its offset on.
\<close>

definition member_ok :: "(nat \<Rightarrow> point_definition) \<Rightarrow> poll_batch \<Rightarrow> poll_member \<Rightarrow> bool" where
  "member_ok defs b m =
     (let d = defs (unat (bm_index m)) in
      ref_port_index d = bt_port b \<and> ref_slave_address d = bt_slave b \<and> ref_table d = bt_table b \<and>
      unat (ref_address d) = unat (bt_start b) + unat (bm_offset m) \<and>
      unat (bm_offset m) + unat (modbus_point_span d) \<le> unat (bt_quantity b))"

text \<open>
  Only a batch of a single point may exceed the size of a request: one whose own register
  count does.
\<close>

definition batch_ok :: "(nat \<Rightarrow> point_definition) \<Rightarrow> poll_plan \<Rightarrow> poll_batch \<Rightarrow> bool" where
  "batch_ok defs p b =
     (bt_valid b \<and> bm_offset (hd (batch_members p b)) = 0 \<and>
      (\<forall>m \<in> set (batch_members p b). member_ok defs b m) \<and>
      0 < unat (bt_quantity b) \<and> unat (bt_quantity b) \<le> 256 \<and>
      (bt_quantity b \<le> batch_limit (bt_table b) \<or>
       length (batch_members p b) = 1 \<and>
       bt_quantity b = modbus_point_span (defs (unat (bm_index (hd (batch_members p b)))))))"

definition plan_ok :: "(nat \<Rightarrow> point_definition) \<Rightarrow> nat list \<Rightarrow> poll_plan \<Rightarrow> bool" where
  "plan_ok defs planned p =
     (map (\<lambda>m. unat (bm_index m)) (pp_members p) = planned \<and>
      ranges_ok 0 (pp_batches p) (length (pp_members p)) \<and>
      (\<forall>b \<in> set (pp_batches p). batch_ok defs p b))"

lemma ranges_ok_snoc:
  "ranges_ok from (bs @ [b]) stop \<longleftrightarrow>
     ranges_ok from bs (unat (bt_member_start b)) \<and> 0 < unat (bt_member_count b) \<and>
     unat (bt_member_start b) + unat (bt_member_count b) = stop"
  by (induction bs arbitrary: "from") auto

lemma ranges_ok_bounds:
  "ranges_ok from bs stop \<Longrightarrow> from + length bs \<le> stop \<and>
     (\<forall>b \<in> set bs. unat (bt_member_start b) + unat (bt_member_count b) \<le> stop \<and>
        0 < unat (bt_member_count b))"
  by (induction bs arbitrary: "from") force+

lemma span_bounds: "unat (modbus_point_span d) < 256"
  by (simp add: modbus_point_span_def unat_u8_lt)

lemma unat_last_address:
  fixes a n :: u16
  assumes "0 < unat n"
  shows "unat (ucast a + ucast n - 1 :: u32) = unat a + unat n - 1"
proof -
  have s: "unat (ucast a + ucast n :: u32) = unat a + unat n"
    using unat_u16_lt [of a] unat_u16_lt [of n] by (subst unat_add_no_wrap) simp_all
  then have "(1 :: u32) \<le> ucast a + ucast n" using assms by (simp add: word_le_nat_alt)
  then show ?thesis using s by (simp add: unat_sub)
qed

lemma merged_quantity_Some:
  assumes "merged_quantity max_gap b d = Some q"
    and "0 < unat (bt_quantity b)" "unat (bt_quantity b) \<le> 256" "0 < unat (modbus_point_span d)"
    and "unat (bt_start b) \<le> unat (ref_address d)"
  shows "unat (ucast q :: u16) =
      max (unat (ref_address d) + unat (modbus_point_span d)) (unat (bt_start b) + unat (bt_quantity b))
        - unat (bt_start b)"
    and "(ucast q :: u16) \<le> batch_limit (ref_table d)"
    and "bt_port b = ref_port_index d" "bt_slave b = ref_slave_address d" "bt_table b = ref_table d"
proof -
  let ?A = "unat (ref_address d)" and ?S = "unat (modbus_point_span d)"
  let ?B = "unat (bt_start b)" and ?Q = "unat (bt_quantity b)"
  let ?pe = "ucast (ref_address d) + ucast (modbus_point_span d) - 1 :: u32"
  let ?be = "ucast (bt_start b) + ucast (bt_quantity b) - 1 :: u32"
  let ?me = "if ?be < ?pe then ?pe else ?be"
  have q: "q = ?me - ucast (bt_start b) + 1" "q \<le> ucast (batch_limit (ref_table d))"
    and same: "bt_port b = ref_port_index d" "bt_slave b = ref_slave_address d" "bt_table b = ref_table d"
    using assms(1) by (auto simp: merged_quantity_def Let_def split: if_splits)
  have "unat ?me = max (?A + ?S - 1) (?B + ?Q - 1)"
    using unat_last_address [OF assms(4), of "ref_address d"] unat_last_address [OF assms(2), of "bt_start b"]
    by (simp add: word_less_nat_alt)
  then have me: "unat ?me = max (?A + ?S) (?B + ?Q) - 1" using assms(2,4) by linarith
  then have le: "ucast (bt_start b) \<le> ?me" using assms(2) by (simp add: word_le_nat_alt)
  have d: "unat (?me - ucast (bt_start b)) = max (?A + ?S) (?B + ?Q) - 1 - ?B"
    using unat_sub_ge [OF le] me by simp
  have "max (?A + ?S) (?B + ?Q) < 4294967296"
    using unat_u16_lt [of "ref_address d"] unat_u16_lt [of "bt_start b"] span_bounds [of d] assms(3) by simp
  then have u: "unat q = max (?A + ?S) (?B + ?Q) - ?B"
    unfolding q(1) using d assms(2) by (subst unat_add_no_wrap) auto
  have "unat (batch_limit (ref_table d)) \<le> 256"
    by (simp add: batch_limit_def kMaxModbusBatchBits_def kMaxModbusBatchRegisters_def)
  moreover have ql: "unat q \<le> unat (batch_limit (ref_table d))" using q(2) by (simp add: word_le_nat_alt)
  ultimately have uc: "unat (ucast q :: u16) = unat q"
    by (simp add: unsigned_ucast_eq take_bit_nat_eq_self_iff)
  show "unat (ucast q :: u16) = max (?A + ?S) (?B + ?Q) - ?B" by (simp add: uc u)
  show "(ucast q :: u16) \<le> batch_limit (ref_table d)" using ql uc by (simp add: word_le_nat_alt)
  show "bt_port b = ref_port_index d" "bt_slave b = ref_slave_address d" "bt_table b = ref_table d"
    by fact+
qed

text \<open>Members added behind a batch's range do not touch it.\<close>

lemma batch_members_append:
  assumes "pp_members p' = pp_members p @ xs"
    and "unat (bt_member_start b) + unat (bt_member_count b) \<le> length (pp_members p)"
  shows "batch_members p' b = batch_members p b"
  using assms by (simp add: batch_members_def)

lemma batch_ok_cong:
  "batch_members p' b = batch_members p b \<Longrightarrow> batch_ok defs p' b = batch_ok defs p b"
  by (simp add: batch_ok_def)

lemma plan_ok_snoc:
  assumes old: "plan_ok defs planned p" "pp_batches p = bs @ rest"
    and "pp_members p' = pp_members p @ [m]" "unat (bm_index m) = ci"
    and "pp_batches p' = bs @ [b]"
    and "ranges_ok 0 (bs @ [b]) (Suc (length (pp_members p)))"
    and "batch_ok defs p' b"
  shows "plan_ok defs (planned @ [ci]) p'"
proof -
  have "batch_ok defs p' b0" if "b0 \<in> set bs" for b0
  proof -
    have "unat (bt_member_start b0) + unat (bt_member_count b0) \<le> length (pp_members p)"
      using old that ranges_ok_bounds by (fastforce simp: plan_ok_def)
    then have "batch_members p' b0 = batch_members p b0" by (rule batch_members_append [OF assms(3)])
    then show ?thesis
      using old that batch_ok_cong [of p' b0 p defs] by (auto simp: plan_ok_def)
  qed
  then show ?thesis using assms by (simp add: plan_ok_def)
qed

lemma unat_u16_suc: "unat (w :: u16) < 65535 \<Longrightarrow> unat (w + 1) = Suc (unat w)"
  by (simp add: unat_word_ariths)

lemma plan_point_ok:
  assumes p: "plan_ok defs planned p" and n: "length planned < kMaxPoints" "ci < kMaxPoints"
    and later: "\<forall>i \<in> set planned. poll_key defs i < poll_key defs ci"
    and span: "modbus_point_span (defs ci) \<noteq> 0"
  shows "\<exists>p'. plan_point defs max_gap ci p = Some p' \<and> plan_ok defs (planned @ [ci]) p'"
proof -
  let ?d = "defs ci" and ?ms = "pp_members p"
  have len: "length ?ms = length planned" using p by (auto simp: plan_ok_def)
  have lim: "length ?ms < 65535" using n(1) len by (simp add: kMaxPoints_def)
  have ci: "unat (of_nat ci :: u16) = ci" using n(2) by (simp add: kMaxPoints_def unat_of_nat)
  have S: "0 < unat (modbus_point_span ?d)" "unat (modbus_point_span ?d) < 256"
    using span span_bounds by (auto simp: unat_gt_0)
  define m where "m b = \<lparr>bm_index = of_nat ci, bm_offset = ref_address ?d - bt_start b\<rparr>" for b :: poll_batch
  have m: "unat (bm_index (m b)) = ci" "bm_offset (m b) = ref_address ?d - bt_start b" for b
    by (simp_all add: m_def ci)
  show ?thesis
  proof (cases "if pp_batches p = [] then None else merged_quantity max_gap (last (pp_batches p)) ?d")
    case (Some q)
    define bs where "bs = butlast (pp_batches p)"
    define b where "b = last (pp_batches p)"
    have bs: "pp_batches p = bs @ [b]" and mq: "merged_quantity max_gap b ?d = Some q"
      using Some by (auto simp: bs_def b_def split: if_splits)
    have b: "batch_ok defs p b" and r: "ranges_ok 0 bs (unat (bt_member_start b))"
      "0 < unat (bt_member_count b)" "unat (bt_member_start b) + unat (bt_member_count b) = length ?ms"
      using p by (auto simp: plan_ok_def bs ranges_ok_snoc)
    let ?bm = "batch_members p b"
    have ne: "?bm \<noteq> []" and bm: "set ?bm \<subseteq> set ?ms"
      using r by (auto simp: batch_members_def dest: in_set_takeD in_set_dropD)
    have h: "member_ok defs b (hd ?bm)" "unat (bm_offset (hd ?bm)) = 0"
      using b ne by (auto simp: batch_ok_def)
    let ?i0 = "unat (bm_index (hd ?bm))"
    have "hd ?bm \<in> set ?ms" using bm ne hd_in_set by blast
    then have "?i0 \<in> set planned" using p by (auto simp: plan_ok_def)
    then have k: "poll_key defs ?i0 < poll_key defs ci" using later by blast
    have Q: "0 < unat (bt_quantity b)" "unat (bt_quantity b) \<le> 256" using b by (simp_all add: batch_ok_def)
    have same: "bt_port b = ref_port_index ?d" "bt_slave b = ref_slave_address ?d" "bt_table b = ref_table ?d"
      using mq by (auto simp: merged_quantity_def Let_def split: if_splits)
    have ge: "unat (bt_start b) \<le> unat (ref_address ?d)"
      using k h same by (auto simp: poll_key_def less_poll_key_def member_ok_def Let_def word_less_nat_alt
          split: if_splits)
    note merged = merged_quantity_Some [OF mq Q S(1) ge]
    let ?b' = "b\<lparr>bt_quantity := ucast q, bt_member_count := bt_member_count b + 1\<rparr>"
    let ?p' = "add_member defs ci (p\<lparr>pp_batches := bs @ [b\<lparr>bt_quantity := ucast q\<rparr>]\<rparr>)"
    have p': "pp_batches ?p' = bs @ [?b']" "pp_members ?p' = ?ms @ [m b]"
      by (simp_all add: add_member_def m_def Let_def)
    have cnt: "unat (bt_member_count b + 1) = Suc (unat (bt_member_count b))"
      using r(3) lim by (intro unat_u16_suc) simp
    have bm': "batch_members ?p' ?b' = ?bm @ [m b]"
      using r(3) by (simp add: batch_members_def p' cnt)
    have off: "unat (ref_address ?d - bt_start b) = unat (ref_address ?d) - unat (bt_start b)"
      using ge by (simp add: unat_sub word_le_nat_alt)
    have mok: "member_ok defs ?b' (m b)"
    proof -
      have "unat (ref_address ?d) - unat (bt_start b) + unat (modbus_point_span ?d) \<le> unat (ucast q :: u16)"
        unfolding merged(1) using ge by linarith
      then show ?thesis using ge by (simp add: member_ok_def m same off Let_def)
    qed
    have old: "member_ok defs ?b' x" if "x \<in> set ?bm" for x
    proof -
      have "member_ok defs b x" using b that by (auto simp: batch_ok_def)
      moreover have "unat (bt_quantity b) \<le> unat (ucast q :: u16)" using merged(1) by simp
      ultimately show ?thesis by (auto simp: member_ok_def Let_def)
    qed
    have "unat (batch_limit (ref_table ?d)) \<le> 256"
      by (simp add: batch_limit_def kMaxModbusBatchBits_def kMaxModbusBatchRegisters_def)
    then have "unat (ucast q :: u16) \<le> 256" using merged(2) by (simp add: word_le_nat_alt)
    then have "batch_ok defs ?p' ?b'"
      using mok old b merged Q ne
      unfolding batch_ok_def bm' by (auto simp: same hd_append)
    moreover have "ranges_ok 0 (bs @ [?b']) (Suc (length ?ms))"
      using r by (simp add: ranges_ok_snoc cnt)
    ultimately have "plan_ok defs (planned @ [ci]) ?p'"
      using plan_ok_snoc [OF p bs p'(2) m(1) p'(1)] by blast
    moreover have "plan_point defs max_gap ci p = Some ?p'"
      using Some span by (simp add: plan_point_def Let_def bs_def b_def)
    ultimately show ?thesis by blast
  next
    case None
    let ?nb = "\<lparr>bt_valid = True, bt_port = ref_port_index ?d, bt_slave = ref_slave_address ?d,
        bt_table = ref_table ?d, bt_start = ref_address ?d, bt_quantity = modbus_point_span ?d,
        bt_member_start = of_nat (length ?ms), bt_member_count = 0\<rparr>"
    let ?b' = "?nb\<lparr>bt_member_count := 1\<rparr>"
    let ?p' = "add_member defs ci (p\<lparr>pp_batches := pp_batches p @ [?nb]\<rparr>)"
    have p': "pp_batches ?p' = pp_batches p @ [?b']" "pp_members ?p' = ?ms @ [m ?b']"
      by (simp_all add: add_member_def m_def Let_def)
    have st: "unat (of_nat (length ?ms) :: u16) = length ?ms" using lim by (simp add: unat_of_nat)
    have bm': "batch_members ?p' ?b' = [m ?b']" by (simp add: batch_members_def p' st)
    have mok: "member_ok defs ?b' (m ?b')" by (simp add: member_ok_def m)
    have "batch_ok defs ?p' ?b'"
      using mok S unfolding batch_ok_def bm' by (simp add: m)
    moreover have "ranges_ok 0 (pp_batches p @ [?b']) (Suc (length ?ms))"
      using p by (simp add: ranges_ok_snoc st plan_ok_def)
    ultimately have "plan_ok defs (planned @ [ci]) ?p'"
      using plan_ok_snoc [OF p _ p'(2) m(1) p'(1), of "[]"] by simp
    moreover have "length (pp_batches p) \<le> length ?ms"
      using p ranges_ok_bounds [of 0 "pp_batches p"] by (auto simp: plan_ok_def)
    then have "plan_point defs max_gap ci p = Some ?p'"
      using None span n(1) len
      by (simp add: plan_point_def Let_def kMaxModbusPollBatches_def kMaxModbusBatchMembers_def)
    ultimately show ?thesis by blast
  qed
qed

lemma plan_loop_ok:
  assumes "plan_ok defs planned p" and "length planned + length cis \<le> kMaxPoints"
    and "\<forall>ci \<in> set cis. ci < kMaxPoints"
    and "sorted_wrt (\<lambda>i k. poll_key defs i < poll_key defs k) (planned @ cis)"
  shows "plan_ok defs (planned @ filter (\<lambda>i. modbus_point_span (defs i) \<noteq> 0) cis)
    (plan_loop defs max_gap cis p)"
  using assms
proof (induction cis arbitrary: planned p)
  case (Cons ci cis)
  show ?case
  proof (cases "modbus_point_span (defs ci) = 0")
    case True
    have "sorted_wrt (\<lambda>i k. poll_key defs i < poll_key defs k) (planned @ cis)"
      using Cons.prems(4) by (auto simp: sorted_wrt_append)
    then show ?thesis
      using Cons.IH [of planned p] Cons.prems(1-3) True by (simp add: plan_point_def Let_def)
  next
    case False
    have "\<forall>i \<in> set planned. poll_key defs i < poll_key defs ci"
      using Cons.prems(4) by (simp add: sorted_wrt_append)
    then obtain p' where p': "plan_point defs max_gap ci p = Some p'" "plan_ok defs (planned @ [ci]) p'"
      using plan_point_ok [OF Cons.prems(1) _ _ _ False, where max_gap = max_gap] Cons.prems(2,3)
      by auto
    then show ?thesis
      using Cons.IH [of "planned @ [ci]" p'] Cons.prems(2-4) False by simp
  qed
qed simp

lemma sorted_keys_strict:
  assumes "distinct xs"
  shows "sorted_wrt (\<lambda>i k. poll_key defs i < poll_key defs k) (sort_key (poll_key defs) xs)"
proof -
  let ?ys = "sort_key (poll_key defs) xs"
  have "sorted (map (poll_key defs) ?ys)" by simp
  moreover have "distinct (map (poll_key defs) ?ys)"
    using assms by (simp add: distinct_map inj_poll_key)
  ultimately have "sorted_wrt (<) (map (poll_key defs) ?ys)"
    by (simp add: strict_sorted_iff)
  then show ?thesis by (simp add: sorted_wrt_map)
qed

text \<open>The points the plan covers, in its order.\<close>

definition planned_points :: "point_catalog \<Rightarrow> nat list" where
  "planned_points c =
     sort_key (poll_key (cat_entries c))
       (filter (\<lambda>i. polled_point (cat_entries c i) \<and> modbus_point_span (cat_entries c i) \<noteq> 0)
          [0..<cat_count c])"

lemma poll_plan_ok:
  assumes "cat_count c \<le> kMaxPoints"
  shows "plan_ok (cat_entries c) (planned_points c) (poll_plan_of max_gap c)"
proof -
  let ?defs = "cat_entries c" and ?p0 = "\<lparr>pp_batches = [], pp_members = []\<rparr>"
  let ?polled = "filter (\<lambda>i. polled_point (?defs i)) [0..<cat_count c]"
  have d: "distinct ?polled" by simp
  have "length ?polled \<le> cat_count c" using length_filter_le [of _ "[0..<cat_count c]"] by simp
  then have "plan_ok ?defs ([] @ filter (\<lambda>i. modbus_point_span (?defs i) \<noteq> 0) (sort_key (poll_key ?defs) ?polled))
      (plan_loop ?defs max_gap (sort_key (poll_key ?defs) ?polled) ?p0)"
    using assms sorted_keys_strict [OF d, of ?defs]
    by (intro plan_loop_ok) (auto simp: plan_ok_def)
  then show ?thesis
    by (simp add: poll_plan_of_def planned_points_def Let_def sort_polled_sort_key [OF d]
        filter_sort conj_commute)
qed

section \<open>What the hash sees\<close>

definition modbus_rows :: "row list \<Rightarrow> point_definition list" where
  "modbus_rows rs = filter (\<lambda>d. backend d = BackendModbus) (map fst rs)"

lemma plan_hash_rows:
  "computeModbusPlanHash max_gap c =
     fnv1a (fold (\<lambda>d hash. fnv1a hash (plan_hash_bytes d)) (modbus_rows (rows c)) fnv_offset)
       (le16 max_gap)"
proof -
  have "fold (\<lambda>i hash. let d = cat_entries c i in
          if backend d \<noteq> BackendModbus then hash else fnv1a hash (plan_hash_bytes d)) js h =
      fold (\<lambda>d hash. fnv1a hash (plan_hash_bytes d)) (modbus_rows (map (row_at c) js)) h" for js h
    by (induction js arbitrary: h) (simp_all add: modbus_rows_def row_at_def Let_def)
  then show ?thesis by (simp add: computeModbusPlanHash_def rows_def)
qed

end
