(* ===== verification/ModbusMaster.thy ===== *)
theory ModbusMaster
  imports PlcTypes Mmio
begin

unbundle bit_operations_syntax

text \<open>
  The Modbus RTU master driver (\<open>ModbusMaster.h\<close>, \<open>ModbusMaster.cpp\<close>): register set-up,
  blocking transactions, the asynchronous reads the PLC core polls with, and the encoding
  of requests and responses. The controller and the timer are behind a bus. Waiting for
  the controller may never end when the timer stands still, so the wait, and what uses
  it, returns an option whose \<open>None\<close> is non-termination.
\<close>

section \<open>State\<close>

datatype modbus_error =
  ErrNone | ErrBusy | ErrInvalidArg | ErrHwTimeout | ErrHwCrc | ErrHwFrame | ErrHwException
| ErrHwOverflow | ErrHwUartFrame | ErrHwUnknown | ErrResponseMismatch | ErrResponseLength
| ErrResponseFormat | ErrDriverTimeout

datatype transaction_status = TxIdle | TxBusy | TxSuccess | TxError | TxWatchdogTimeout

datatype async_read_kind = ReadNone | ReadBits | ReadRegisters

definition REG_CONTROL :: u32 where "REG_CONTROL = 0x00"
definition REG_STATUS :: u32 where "REG_STATUS = 0x04"
definition REG_UART_DIV :: u32 where "REG_UART_DIV = 0x08"
definition REG_SLAVE_FUNC :: u32 where "REG_SLAVE_FUNC = 0x0C"
definition REG_TIMEOUT :: u32 where "REG_TIMEOUT = 0x10"
definition REG_INTERFRAME :: u32 where "REG_INTERFRAME = 0x14"
definition REG_RETRY :: u32 where "REG_RETRY = 0x18"
definition REG_TX_LEN :: u32 where "REG_TX_LEN = 0x1C"
definition REG_TX_DATA :: u32 where "REG_TX_DATA = 0x20"
definition REG_RX_LEN :: u32 where "REG_RX_LEN = 0x24"
definition REG_RX_DATA :: u32 where "REG_RX_DATA = 0x28"

definition CTRL_START :: u32 where "CTRL_START = 1"
definition CTRL_CLEAR_STATUS :: u32 where "CTRL_CLEAR_STATUS = 2"
definition CTRL_ABORT :: u32 where "CTRL_ABORT = 4"

definition STATUS_BUSY :: u32 where "STATUS_BUSY = 1"
definition STATUS_DONE :: u32 where "STATUS_DONE = 2"
definition STATUS_SUCCESS :: u32 where "STATUS_SUCCESS = 4"
definition STATUS_TIMEOUT :: u32 where "STATUS_TIMEOUT = 8"
definition STATUS_CRC_ERROR :: u32 where "STATUS_CRC_ERROR = 0x10"
definition STATUS_FRAME_ERROR :: u32 where "STATUS_FRAME_ERROR = 0x20"
definition STATUS_EXCEPTION :: u32 where "STATUS_EXCEPTION = 0x40"
definition STATUS_RX_OVERFLOW :: u32 where "STATUS_RX_OVERFLOW = 0x80"
definition STATUS_UART_FRAME_ERROR :: u32 where "STATUS_UART_FRAME_ERROR = 0x100"

lemmas modbus_regs =
  REG_CONTROL_def REG_STATUS_def REG_UART_DIV_def REG_SLAVE_FUNC_def REG_TIMEOUT_def
  REG_INTERFRAME_def REG_RETRY_def REG_TX_LEN_def REG_TX_DATA_def REG_RX_LEN_def REG_RX_DATA_def

lemmas modbus_bits =
  CTRL_START_def CTRL_CLEAR_STATUS_def CTRL_ABORT_def STATUS_BUSY_def STATUS_DONE_def
  STATUS_SUCCESS_def STATUS_TIMEOUT_def STATUS_CRC_ERROR_def STATUS_FRAME_ERROR_def
  STATUS_EXCEPTION_def STATUS_RX_OVERFLOW_def STATUS_UART_FRAME_ERROR_def

definition kMaxDataBytes :: nat where "kMaxDataBytes = 252"
definition kMaxFrameBytes :: nat where "kMaxFrameBytes = 256"
definition kDefaultBaudrate :: u32 where "kDefaultBaudrate = 9600"
definition kDefaultTimeoutMs :: u32 where "kDefaultTimeoutMs = 200"
definition kDefaultRetries :: u8 where "kDefaultRetries = 1"
definition kDefaultInterframeCharsQ1 :: u8 where "kDefaultInterframeCharsQ1 = 14"

record 'd modbus =
  mb_dev :: 'd
  clock_hz :: u32
  baudrate :: u32
  mb_timeout_ms :: u32
  mb_retries :: u8
  interframe_chars_q1 :: u8
  last_error :: modbus_error
  last_exception_code :: u8
  last_hw_status :: u32
  async_kind :: async_read_kind
  async_slave :: u8
  async_function :: u8
  async_quantity :: u16
  async_deadline_ms :: u32
  async_active :: bool
  async_result_ready :: bool
  async_started_ms :: u32
  async_first_rx_ms :: u32
  async_last_rx_ms :: u32
  async_observed_rx_len :: u16
  async_response :: "u8 list"
  async_response_len :: u16

definition new_ModbusMaster :: "'d \<Rightarrow> u32 \<Rightarrow> 'd modbus" where
  "new_ModbusMaster d hz =
     \<lparr>mb_dev = d, clock_hz = hz, baudrate = kDefaultBaudrate, mb_timeout_ms = kDefaultTimeoutMs,
      mb_retries = kDefaultRetries, interframe_chars_q1 = kDefaultInterframeCharsQ1,
      last_error = ErrNone, last_exception_code = 0, last_hw_status = 0,
      async_kind = ReadNone, async_slave = 0, async_function = 0, async_quantity = 0,
      async_deadline_ms = 0, async_active = False, async_result_ready = False,
      async_started_ms = 0, async_first_rx_ms = 0, async_last_rx_ms = 0,
      async_observed_rx_len = 0, async_response = zbuf kMaxFrameBytes,
      async_response_len = 0\<rparr>"

section \<open>Registers\<close>

definition readReg :: "'d bus \<Rightarrow> u32 \<Rightarrow> u32 \<Rightarrow> 'd modbus \<Rightarrow> u32 \<times> 'd modbus" where
  "readReg b base off m =
     (let (v, d) = bus_rd b (base + off) (mb_dev m) in (v, m\<lparr>mb_dev := d\<rparr>))"

definition writeReg :: "'d bus \<Rightarrow> u32 \<Rightarrow> u32 \<Rightarrow> u32 \<Rightarrow> 'd modbus \<Rightarrow> 'd modbus" where
  "writeReg b base off v m = m\<lparr>mb_dev := bus_wr b (base + off) v (mb_dev m)\<rparr>"

definition mb_millis :: "'d bus \<Rightarrow> 'd modbus \<Rightarrow> u32 \<times> 'd modbus" where
  "mb_millis b m = (let (t, d) = millis b (mb_dev m) in (t, m\<lparr>mb_dev := d\<rparr>))"

text \<open>The loops over the data registers.\<close>

fun write_tx :: "'d bus \<Rightarrow> u32 \<Rightarrow> u8 list \<Rightarrow> 'd modbus \<Rightarrow> 'd modbus" where
  "write_tx b base [] m = m"
| "write_tx b base (x # xs) m = write_tx b base xs (writeReg b base REG_TX_DATA (ucast x) m)"

fun read_rx :: "'d bus \<Rightarrow> u32 \<Rightarrow> nat \<Rightarrow> 'd modbus \<Rightarrow> u8 list \<times> 'd modbus" where
  "read_rx b base 0 m = ([], m)"
| "read_rx b base (Suc n) m =
     (let (v, m1) = readReg b base REG_RX_DATA m;
          (bs, m2) = read_rx b base n m1
      in (ucast (v AND 0xFF) # bs, m2))"

section \<open>Timing set-up\<close>

definition computeDivisor :: "u32 \<Rightarrow> u32 \<Rightarrow> u32" where
  "computeDivisor hz baud =
     (if baud = 0 then 1
      else let divisor = (hz + baud div 2) div baud;
               divisor = (if divisor = 0 then 1 else divisor)
           in if 0xFFFFF < divisor then 0xFFFFF else divisor)"

definition clamp_cycles :: "u64 \<Rightarrow> u32" where
  "clamp_cycles cycles =
     (let cycles = (if cycles = 0 then 1 else cycles);
          cycles = (if 0xFFFFFFFF < cycles then 0xFFFFFFFF else cycles)
      in ucast cycles)"

definition computeTimeoutCycles :: "u32 \<Rightarrow> u32 \<Rightarrow> u32" where
  "computeTimeoutCycles hz timeout =
     (if timeout = 0 then 1 else clamp_cycles ((ucast hz * ucast timeout) div 1000))"

definition computeInterframeCyclesCharsQ1 :: "u32 \<Rightarrow> u32 \<Rightarrow> u8 \<Rightarrow> u32" where
  "computeInterframeCyclesCharsQ1 hz baud chars =
     (if baud = 0 then 1
      else let chars = (if chars = 0 then 1 else chars);
               numerator = ucast hz * ucast chars * 11 :: u64;
               denom = ucast baud * 4
           in clamp_cycles ((numerator + denom - 1) div denom))"

definition computeInterframeCycles :: "u32 \<Rightarrow> u32 \<Rightarrow> u32" where
  "computeInterframeCycles hz baud = computeInterframeCyclesCharsQ1 hz baud 14"

section \<open>Configuration\<close>

definition clearAsyncTransaction :: "'d modbus \<Rightarrow> 'd modbus" where
  "clearAsyncTransaction m =
     m\<lparr>async_kind := ReadNone, async_slave := 0, async_function := 0, async_quantity := 0,
       async_deadline_ms := 0, async_active := False, async_result_ready := False,
       async_response_len := 0, async_started_ms := 0, async_first_rx_ms := 0,
       async_last_rx_ms := 0, async_observed_rx_len := 0\<rparr>"

definition setBaudrate :: "'d bus \<Rightarrow> u32 \<Rightarrow> u32 \<Rightarrow> 'd modbus \<Rightarrow> 'd modbus" where
  "setBaudrate b base baud m =
     (let m = m\<lparr>baudrate := (if baud = 0 then 1 else baud)\<rparr>;
          m = writeReg b base REG_UART_DIV (computeDivisor (clock_hz m) (baudrate m)) m
      in writeReg b base REG_INTERFRAME
           (computeInterframeCyclesCharsQ1 (clock_hz m) (baudrate m) (interframe_chars_q1 m)) m)"

definition setTimeoutMs :: "'d bus \<Rightarrow> u32 \<Rightarrow> u32 \<Rightarrow> 'd modbus \<Rightarrow> 'd modbus" where
  "setTimeoutMs b base timeout m =
     (let m = m\<lparr>mb_timeout_ms := timeout\<rparr>
      in writeReg b base REG_TIMEOUT (computeTimeoutCycles (clock_hz m) timeout) m)"

definition setRetries :: "'d bus \<Rightarrow> u32 \<Rightarrow> u8 \<Rightarrow> 'd modbus \<Rightarrow> 'd modbus" where
  "setRetries b base retries m =
     writeReg b base REG_RETRY (ucast retries) (m\<lparr>mb_retries := retries\<rparr>)"

definition setInterframeCharsQ1 :: "'d bus \<Rightarrow> u32 \<Rightarrow> u8 \<Rightarrow> 'd modbus \<Rightarrow> 'd modbus" where
  "setInterframeCharsQ1 b base chars m =
     (let m = m\<lparr>interframe_chars_q1 := (if chars = 0 then 1 else chars)\<rparr>
      in writeReg b base REG_INTERFRAME
           (computeInterframeCyclesCharsQ1 (clock_hz m) (baudrate m) (interframe_chars_q1 m)) m)"

definition modbus_begin ::
  "'d bus \<Rightarrow> u32 \<Rightarrow> u32 \<Rightarrow> u32 \<Rightarrow> u8 \<Rightarrow> u8 \<Rightarrow> 'd modbus \<Rightarrow> 'd modbus" where
  "modbus_begin b base baud timeout retries chars m =
     (let m = m\<lparr>baudrate := (if baud = 0 then 1 else baud), mb_timeout_ms := timeout,
                mb_retries := retries, interframe_chars_q1 := (if chars = 0 then 1 else chars)\<rparr>;
          m = writeReg b base REG_UART_DIV (computeDivisor (clock_hz m) (baudrate m)) m;
          m = writeReg b base REG_TIMEOUT (computeTimeoutCycles (clock_hz m) (mb_timeout_ms m)) m;
          m = writeReg b base REG_INTERFRAME (computeInterframeCycles (clock_hz m) (baudrate m)) m;
          m = writeReg b base REG_RETRY (ucast (mb_retries m)) m;
          m = writeReg b base REG_CONTROL CTRL_CLEAR_STATUS m;
          m = setInterframeCharsQ1 b base (interframe_chars_q1 m) m
      in clearAsyncTransaction
           (m\<lparr>last_error := ErrNone, last_exception_code := 0, last_hw_status := 0\<rparr>))"

section \<open>Transactions\<close>

definition error_of_status :: "u32 \<Rightarrow> modbus_error" where
  "error_of_status status =
     (if status AND STATUS_TIMEOUT \<noteq> 0 then ErrHwTimeout
      else if status AND STATUS_CRC_ERROR \<noteq> 0 then ErrHwCrc
      else if status AND STATUS_FRAME_ERROR \<noteq> 0 then ErrHwFrame
      else if status AND STATUS_EXCEPTION \<noteq> 0 then ErrHwException
      else if status AND STATUS_RX_OVERFLOW \<noteq> 0 then ErrHwOverflow
      else if status AND STATUS_UART_FRAME_ERROR \<noteq> 0 then ErrHwUartFrame
      else ErrHwUnknown)"

definition setLastErrorFromStatus :: "u32 \<Rightarrow> 'd modbus \<Rightarrow> 'd modbus" where
  "setLastErrorFromStatus status m = m\<lparr>last_error := error_of_status status\<rparr>"

text \<open>The loop of \<open>waitDone\<close>, from the reading of the timer it starts with.\<close>

partial_function (option) wait_loop ::
  "'d bus \<Rightarrow> u32 \<Rightarrow> u32 \<Rightarrow> u32 \<Rightarrow> 'd modbus \<Rightarrow> (bool \<times> 'd modbus) option" where
  "wait_loop b base start guard m =
     (let (st, m1) = readReg b base REG_STATUS m in
      if st AND STATUS_DONE \<noteq> 0 then Some (True, m1)
      else
        (let (now, m2) = mb_millis b m1 in
         if time_reached now (start + guard) then Some (False, m2)
         else wait_loop b base start guard m2))"

definition waitDone ::
  "'d bus \<Rightarrow> u32 \<Rightarrow> u32 \<Rightarrow> 'd modbus \<Rightarrow> (bool \<times> 'd modbus) option" where
  "waitDone b base guard m =
     (let (start, m1) = mb_millis b m in wait_loop b base start guard m1)"

text \<open>
  The part \<open>runTransaction\<close> and \<open>startTransactionAsync\<close> share: the request is handed to
  the controller, which is then started.
\<close>

definition submit_request ::
  "'d bus \<Rightarrow> u32 \<Rightarrow> u8 \<Rightarrow> u8 \<Rightarrow> u8 list \<Rightarrow> 'd modbus \<Rightarrow> 'd modbus" where
  "submit_request b base slave func req m =
     (let m = writeReg b base REG_CONTROL CTRL_CLEAR_STATUS m;
          m = writeReg b base REG_RETRY (ucast (mb_retries m)) m;
          m = writeReg b base REG_SLAVE_FUNC (push_bit 8 (ucast slave) OR ucast func) m;
          m = writeReg b base REG_TX_LEN (of_nat (length req)) m;
          m = write_tx b base req m
      in writeReg b base REG_CONTROL CTRL_START m)"

definition frame_mismatch :: "u8 \<Rightarrow> u8 \<Rightarrow> u8 list \<Rightarrow> bool" where
  "frame_mismatch slave func frame =
     (2 \<le> length frame \<and>
      (slave \<noteq> 0 \<and> frame ! 0 \<noteq> slave \<or> frame ! 1 AND 0x7F \<noteq> func))"

definition collect_response ::
  "'d bus \<Rightarrow> u32 \<Rightarrow> u8 \<Rightarrow> u8 \<Rightarrow> 'd modbus \<Rightarrow> bool \<times> u8 list \<times> 'd modbus" where
  "collect_response b base slave func m =
     (let (status, m) = readReg b base REG_STATUS m;
          m = m\<lparr>last_hw_status := status\<rparr>;
          m = (if status AND STATUS_SUCCESS = 0 then setLastErrorFromStatus status m
               else m\<lparr>last_error := ErrNone\<rparr>);
          (len, m) = readReg b base REG_RX_LEN m;
          count = min (unat (len AND 0x1FF)) kMaxFrameBytes;
          (frame, m) = read_rx b base count m;
          m = (if last_error m = ErrHwException \<and> 5 \<le> count
               then m\<lparr>last_exception_code := frame ! 2\<rparr> else m);
          m = (if frame_mismatch slave func frame then m\<lparr>last_error := ErrResponseMismatch\<rparr>
               else m)
      in (last_error m = ErrNone, frame, m))"

text \<open>
  The caller's request is a byte list of at most 255 bytes, its response buffer starts as
  zeros: the frame read is the prefix of the buffer, and the list returned here.
\<close>

definition runTransaction ::
  "'d bus \<Rightarrow> u32 \<Rightarrow> u8 \<Rightarrow> u8 \<Rightarrow> u8 list \<Rightarrow> 'd modbus \<Rightarrow> (bool \<times> u8 list \<times> 'd modbus) option" where
  "runTransaction b base slave func req m =
     (if kMaxDataBytes < length req
      then Some (False, [], m\<lparr>last_error := ErrInvalidArg\<rparr>)
      else
        (let (st, m) = readReg b base REG_STATUS m in
         if st AND STATUS_BUSY \<noteq> 0
         then Some (False, [], m\<lparr>last_hw_status := st, last_error := ErrBusy\<rparr>)
         else
           (let m = submit_request b base slave func req (m\<lparr>last_exception_code := 0\<rparr>);
                guard = mb_timeout_ms m * (ucast (mb_retries m) + 1) + 50
            in case waitDone b base guard m of
                 None \<Rightarrow> None
               | Some (False, m) \<Rightarrow> Some (False, [], m\<lparr>last_error := ErrDriverTimeout\<rparr>)
               | Some (True, m) \<Rightarrow> Some (collect_response b base slave func m))))"

section \<open>Encodings\<close>

definition be16 :: "u16 \<Rightarrow> u8 list" where
  "be16 w = [ucast (drop_bit 8 w), ucast w]"

definition read_request :: "u16 \<Rightarrow> u16 \<Rightarrow> u8 list" where
  "read_request start_addr quantity = be16 start_addr @ be16 quantity"

text \<open>
  The decoders return the values they store through the caller's pointer, or \<open>None\<close> when
  they fail and store nothing.
\<close>

definition decodeBitResponse ::
  "u8 \<Rightarrow> u16 \<Rightarrow> u8 list \<Rightarrow> u16 \<Rightarrow> bool \<Rightarrow> 'd modbus \<Rightarrow> bool list option \<times> 'd modbus" where
  "decodeBitResponse func quantity resp resp_len out_null m =
     (if quantity = 0 \<or> 2000 < quantity \<or> out_null
      then (None, m\<lparr>last_error := ErrInvalidArg\<rparr>)
      else
        (let byte_count = (unat quantity + 7) div 8 in
         if unat resp_len \<noteq> 5 + byte_count then (None, m\<lparr>last_error := ErrResponseLength\<rparr>)
         else if resp ! 1 AND 0x7F \<noteq> func \<or> resp ! 2 \<noteq> of_nat byte_count
         then (None, m\<lparr>last_error := ErrResponseFormat\<rparr>)
         else
           (Some (map (\<lambda>i. resp ! (3 + i div 8) AND push_bit (i mod 8) 1 \<noteq> 0)
                   [0..<unat quantity]),
            m\<lparr>last_error := ErrNone\<rparr>)))"

definition decodeRegisterResponse ::
  "u8 \<Rightarrow> u16 \<Rightarrow> u8 list \<Rightarrow> u16 \<Rightarrow> bool \<Rightarrow> 'd modbus \<Rightarrow> u16 list option \<times> 'd modbus" where
  "decodeRegisterResponse func quantity resp resp_len out_null m =
     (if quantity = 0 \<or> 125 < quantity \<or> out_null
      then (None, m\<lparr>last_error := ErrInvalidArg\<rparr>)
      else
        (let byte_count = unat quantity * 2 in
         if unat resp_len \<noteq> 5 + byte_count then (None, m\<lparr>last_error := ErrResponseLength\<rparr>)
         else if resp ! 1 AND 0x7F \<noteq> func \<or> resp ! 2 \<noteq> of_nat byte_count
         then (None, m\<lparr>last_error := ErrResponseFormat\<rparr>)
         else
           (Some (map (\<lambda>i. push_bit 8 (ucast (resp ! (3 + i * 2))) OR ucast (resp ! (3 + i * 2 + 1)))
                   [0..<unat quantity]),
            m\<lparr>last_error := ErrNone\<rparr>)))"

section \<open>Blocking operations\<close>

definition readBitFunction ::
  "'d bus \<Rightarrow> u32 \<Rightarrow> u8 \<Rightarrow> u8 \<Rightarrow> u16 \<Rightarrow> u16 \<Rightarrow> bool \<Rightarrow> 'd modbus \<Rightarrow>
   (bool list option \<times> 'd modbus) option" where
  "readBitFunction b base slave func start_addr quantity out_null m =
     (if quantity = 0 \<or> 2000 < quantity \<or> out_null
      then Some (None, m\<lparr>last_error := ErrInvalidArg\<rparr>)
      else (case runTransaction b base slave func (read_request start_addr quantity) m of
              None \<Rightarrow> None
            | Some (ok, resp, m) \<Rightarrow>
                if \<not> ok then Some (None, m)
                else Some (decodeBitResponse func quantity resp (of_nat (length resp)) out_null m)))"

definition readRegsFunction ::
  "'d bus \<Rightarrow> u32 \<Rightarrow> u8 \<Rightarrow> u8 \<Rightarrow> u16 \<Rightarrow> u16 \<Rightarrow> bool \<Rightarrow> 'd modbus \<Rightarrow>
   (u16 list option \<times> 'd modbus) option" where
  "readRegsFunction b base slave func start_addr quantity out_null m =
     (if quantity = 0 \<or> 125 < quantity \<or> out_null
      then Some (None, m\<lparr>last_error := ErrInvalidArg\<rparr>)
      else (case runTransaction b base slave func (read_request start_addr quantity) m of
              None \<Rightarrow> None
            | Some (ok, resp, m) \<Rightarrow>
                if \<not> ok then Some (None, m)
                else Some (decodeRegisterResponse func quantity resp (of_nat (length resp))
                             out_null m)))"

definition readCoils where
  "readCoils b base slave start_addr quantity out_null m =
     readBitFunction b base slave 0x01 start_addr quantity out_null m"

definition readDiscreteInputs where
  "readDiscreteInputs b base slave start_addr quantity out_null m =
     readBitFunction b base slave 0x02 start_addr quantity out_null m"

definition readHoldingRegisters where
  "readHoldingRegisters b base slave start_addr quantity out_null m =
     readRegsFunction b base slave 0x03 start_addr quantity out_null m"

definition readInputRegisters where
  "readInputRegisters b base slave start_addr quantity out_null m =
     readRegsFunction b base slave 0x04 start_addr quantity out_null m"

text \<open>
  Every write ends the same way: the transaction, then the echo of the first four bytes of
  the request in an eight-byte response.
\<close>

definition write_transaction ::
  "'d bus \<Rightarrow> u32 \<Rightarrow> u8 \<Rightarrow> u8 \<Rightarrow> u8 list \<Rightarrow> 'd modbus \<Rightarrow> (bool \<times> 'd modbus) option" where
  "write_transaction b base slave func req m =
     (case runTransaction b base slave func req m of
        None \<Rightarrow> None
      | Some (ok, resp, m) \<Rightarrow>
          if \<not> ok then Some (False, m)
          else if length resp \<noteq> 8 then Some (False, m\<lparr>last_error := ErrResponseLength\<rparr>)
          else if resp ! 2 \<noteq> req ! 0 \<or> resp ! 3 \<noteq> req ! 1 \<or> resp ! 4 \<noteq> req ! 2 \<or> resp ! 5 \<noteq> req ! 3
          then Some (False, m\<lparr>last_error := ErrResponseMismatch\<rparr>)
          else Some (True, m\<lparr>last_error := ErrNone\<rparr>))"

definition writeSingleCoilRaw ::
  "'d bus \<Rightarrow> u32 \<Rightarrow> u8 \<Rightarrow> u16 \<Rightarrow> u16 \<Rightarrow> 'd modbus \<Rightarrow> (bool \<times> 'd modbus) option" where
  "writeSingleCoilRaw b base slave coil_addr raw m =
     write_transaction b base slave 0x05 (be16 coil_addr @ be16 raw) m"

definition writeSingleCoil ::
  "'d bus \<Rightarrow> u32 \<Rightarrow> u8 \<Rightarrow> u16 \<Rightarrow> bool \<Rightarrow> 'd modbus \<Rightarrow> (bool \<times> 'd modbus) option" where
  "writeSingleCoil b base slave coil_addr v m =
     writeSingleCoilRaw b base slave coil_addr (if v then 0xFF00 else 0x0000) m"

definition writeSingleRegister ::
  "'d bus \<Rightarrow> u32 \<Rightarrow> u8 \<Rightarrow> u16 \<Rightarrow> u16 \<Rightarrow> 'd modbus \<Rightarrow> (bool \<times> 'd modbus) option" where
  "writeSingleRegister b base slave reg_addr v m =
     write_transaction b base slave 0x06 (be16 reg_addr @ be16 v) m"

text \<open>
  The loops of the multiple writes; \<open>values\<close> is \<open>None\<close> for a null pointer, and as long as
  the quantity otherwise.
\<close>

definition coil_request_step :: "bool list \<Rightarrow> nat \<Rightarrow> u8 list \<Rightarrow> u8 list" where
  "coil_request_step vs i req =
     (if vs ! i then req[5 + i div 8 := req ! (5 + i div 8) OR push_bit (i mod 8) 1] else req)"

definition writeMultipleCoils ::
  "'d bus \<Rightarrow> u32 \<Rightarrow> u8 \<Rightarrow> u16 \<Rightarrow> u16 \<Rightarrow> bool list option \<Rightarrow> 'd modbus \<Rightarrow>
   (bool \<times> 'd modbus) option" where
  "writeMultipleCoils b base slave start_addr quantity vals m =
     (case vals of
        None \<Rightarrow> Some (False, m\<lparr>last_error := ErrInvalidArg\<rparr>)
      | Some vs \<Rightarrow>
          if quantity = 0 \<or> 1968 < quantity then Some (False, m\<lparr>last_error := ErrInvalidArg\<rparr>)
          else
            (let byte_count = (unat quantity + 7) div 8; req_len = 5 + byte_count in
             if kMaxDataBytes < req_len then Some (False, m\<lparr>last_error := ErrInvalidArg\<rparr>)
             else
               (let req = be16 start_addr @ be16 quantity @ [of_nat byte_count] @
                          replicate (kMaxDataBytes - 5) 0;
                    req = fold (coil_request_step vs) [0..<unat quantity] req
                in write_transaction b base slave 0x0F (take req_len req) m)))"

definition writeMultipleRegisters ::
  "'d bus \<Rightarrow> u32 \<Rightarrow> u8 \<Rightarrow> u16 \<Rightarrow> u16 \<Rightarrow> u16 list option \<Rightarrow> 'd modbus \<Rightarrow>
   (bool \<times> 'd modbus) option" where
  "writeMultipleRegisters b base slave start_addr quantity vals m =
     (case vals of
        None \<Rightarrow> Some (False, m\<lparr>last_error := ErrInvalidArg\<rparr>)
      | Some vs \<Rightarrow>
          if quantity = 0 \<or> 123 < quantity then Some (False, m\<lparr>last_error := ErrInvalidArg\<rparr>)
          else
            (let byte_count = unat quantity * 2; req_len = 5 + byte_count in
             if kMaxDataBytes < req_len then Some (False, m\<lparr>last_error := ErrInvalidArg\<rparr>)
             else write_transaction b base slave 0x10
                    (be16 start_addr @ be16 quantity @ [of_nat byte_count] @
                     concat (map (\<lambda>i. be16 (vs ! i)) [0..<unat quantity])) m))"

section \<open>Asynchronous reads\<close>

definition transactionActive :: "'d modbus \<Rightarrow> bool" where
  "transactionActive m = (async_active m \<or> async_result_ready m)"

definition abortTransaction :: "'d bus \<Rightarrow> u32 \<Rightarrow> 'd modbus \<Rightarrow> 'd modbus" where
  "abortTransaction b base m =
     clearAsyncTransaction (writeReg b base REG_CONTROL (CTRL_CLEAR_STATUS OR CTRL_ABORT) m)"

definition startTransactionAsync ::
  "'d bus \<Rightarrow> u32 \<Rightarrow> u8 \<Rightarrow> u8 \<Rightarrow> u8 list \<Rightarrow> async_read_kind \<Rightarrow> u16 \<Rightarrow> 'd modbus \<Rightarrow>
   bool \<times> 'd modbus" where
  "startTransactionAsync b base slave func req kind quantity m =
     (if kMaxDataBytes < length req then (False, m\<lparr>last_error := ErrInvalidArg\<rparr>)
      else if transactionActive m then (False, m\<lparr>last_error := ErrBusy\<rparr>)
      else
        (let (status, m) = readReg b base REG_STATUS m in
         if status AND STATUS_BUSY \<noteq> 0
         then (False, m\<lparr>last_hw_status := status, last_error := ErrBusy\<rparr>)
         else
           (let m = clearAsyncTransaction (m\<lparr>last_exception_code := 0, last_hw_status := status\<rparr>);
                m = submit_request b base slave func req m;
                m = m\<lparr>async_kind := kind, async_slave := slave, async_function := func,
                      async_quantity := quantity, async_active := True,
                      async_result_ready := False, async_response_len := 0\<rparr>;
                (t1, m) = mb_millis b m;
                m = m\<lparr>async_deadline_ms :=
                        t1 + (mb_timeout_ms m * (ucast (mb_retries m) + 1) + 100)\<rparr>;
                (t2, m) = mb_millis b m
            in (True, m\<lparr>async_started_ms := t2, async_first_rx_ms := 0, async_last_rx_ms := 0,
                        async_observed_rx_len := 0, last_error := ErrNone\<rparr>))))"

definition start_read ::
  "'d bus \<Rightarrow> u32 \<Rightarrow> u16 \<Rightarrow> async_read_kind \<Rightarrow> u8 \<Rightarrow> u8 \<Rightarrow> u16 \<Rightarrow> u16 \<Rightarrow> 'd modbus \<Rightarrow>
   bool \<times> 'd modbus" where
  "start_read b base limit kind func slave start_addr quantity m =
     (if quantity = 0 \<or> limit < quantity then (False, m\<lparr>last_error := ErrInvalidArg\<rparr>)
      else startTransactionAsync b base slave func (read_request start_addr quantity) kind
             quantity m)"

definition startReadCoils ::
  "'d bus \<Rightarrow> u32 \<Rightarrow> u8 \<Rightarrow> u16 \<Rightarrow> u16 \<Rightarrow> 'd modbus \<Rightarrow> bool \<times> 'd modbus" where
  "startReadCoils b base = start_read b base 2000 ReadBits 0x01"

definition startReadDiscreteInputs ::
  "'d bus \<Rightarrow> u32 \<Rightarrow> u8 \<Rightarrow> u16 \<Rightarrow> u16 \<Rightarrow> 'd modbus \<Rightarrow> bool \<times> 'd modbus" where
  "startReadDiscreteInputs b base = start_read b base 2000 ReadBits 0x02"

definition startReadHoldingRegisters ::
  "'d bus \<Rightarrow> u32 \<Rightarrow> u8 \<Rightarrow> u16 \<Rightarrow> u16 \<Rightarrow> 'd modbus \<Rightarrow> bool \<times> 'd modbus" where
  "startReadHoldingRegisters b base = start_read b base 125 ReadRegisters 0x03"

definition startReadInputRegisters ::
  "'d bus \<Rightarrow> u32 \<Rightarrow> u8 \<Rightarrow> u16 \<Rightarrow> u16 \<Rightarrow> 'd modbus \<Rightarrow> bool \<times> 'd modbus" where
  "startReadInputRegisters b base = start_read b base 125 ReadRegisters 0x04"

definition captureResponseFrame :: "'d bus \<Rightarrow> u32 \<Rightarrow> 'd modbus \<Rightarrow> 'd modbus" where
  "captureResponseFrame b base m =
     (let (len, m) = readReg b base REG_RX_LEN m;
          count = min (unat (len AND 0x1FF)) kMaxFrameBytes;
          m = writeReg b base REG_RX_LEN 0 (m\<lparr>async_response_len := of_nat count\<rparr>);
          (frame, m) = read_rx b base count m;
          m = m\<lparr>async_response := frame @ drop count (async_response m)\<rparr>
      in if frame_mismatch (async_slave m) (async_function m) frame
         then m\<lparr>last_error := ErrResponseMismatch\<rparr> else m)"

definition pollTransaction ::
  "'d bus \<Rightarrow> u32 \<Rightarrow> 'd modbus \<Rightarrow> transaction_status \<times> 'd modbus" where
  "pollTransaction b base m =
     (if async_result_ready m then (TxSuccess, m)
      else if \<not> async_active m then (TxIdle, m)
      else
        (let (status, m) = readReg b base REG_STATUS m in
         if status AND STATUS_DONE = 0 then
           (let (now, m) = mb_millis b m;
                (len, m) = readReg b base REG_RX_LEN m;
                observed = ucast (len AND 0x1FF);
                m = (if async_observed_rx_len m < observed
                     then m\<lparr>async_observed_rx_len := observed, async_last_rx_ms := now,
                            async_first_rx_ms :=
                              (if async_first_rx_ms m = 0 then now else async_first_rx_ms m)\<rparr>
                     else m)
            in if time_reached now (async_deadline_ms m)
               then (TxWatchdogTimeout,
                     (abortTransaction b base m)\<lparr>last_error := ErrDriverTimeout,
                        last_hw_status := status\<rparr>)
               else (TxBusy, m))
         else
           (let m = captureResponseFrame b base (m\<lparr>last_hw_status := status\<rparr>);
                m = m\<lparr>async_active := False\<rparr>
            in if status AND STATUS_SUCCESS = 0 then
                 (let m = setLastErrorFromStatus status m;
                      m = (if last_error m = ErrHwException \<and> 5 \<le> async_response_len m
                           then m\<lparr>last_exception_code := async_response m ! 2\<rparr> else m)
                  in (TxError, clearAsyncTransaction m))
               else (TxSuccess, m\<lparr>last_error := ErrNone, async_result_ready := True\<rparr>))))"

definition finishReadBits :: "bool \<Rightarrow> u16 \<Rightarrow> 'd modbus \<Rightarrow> bool list option \<times> 'd modbus" where
  "finishReadBits out_null quantity m =
     (if \<not> async_result_ready m \<or> async_kind m \<noteq> ReadBits \<or> out_null
      then (None, m\<lparr>last_error := ErrInvalidArg\<rparr>)
      else (let (r, m) = decodeBitResponse (async_function m) quantity (async_response m)
                           (async_response_len m) out_null m
            in (r, clearAsyncTransaction m)))"

definition finishReadRegisters :: "bool \<Rightarrow> u16 \<Rightarrow> 'd modbus \<Rightarrow> u16 list option \<times> 'd modbus" where
  "finishReadRegisters out_null quantity m =
     (if \<not> async_result_ready m \<or> async_kind m \<noteq> ReadRegisters \<or> out_null
      then (None, m\<lparr>last_error := ErrInvalidArg\<rparr>)
      else (let (r, m) = decodeRegisterResponse (async_function m) quantity (async_response m)
                           (async_response_len m) out_null m
            in (r, clearAsyncTransaction m)))"

section \<open>Register values\<close>

definition regsToU16 :: "u16 \<Rightarrow> u16" where
  "regsToU16 r = r"

text \<open>Signed values keep their bit pattern; \<open>sint\<close> reads them.\<close>

definition regsToI16 :: "u16 \<Rightarrow> u16" where
  "regsToI16 r = r"

definition regsToU32 :: "u16 \<Rightarrow> u16 \<Rightarrow> u32" where
  "regsToU32 high low = push_bit 16 (ucast high) OR ucast low"

definition swap_bytes :: "u16 \<Rightarrow> u16" where
  "swap_bytes r = drop_bit 8 r OR push_bit 8 r"

definition regsToU32ABCD :: "u16 \<Rightarrow> u16 \<Rightarrow> u32" where
  "regsToU32ABCD high low = regsToU32 high low"

definition regsToU32BADC :: "u16 \<Rightarrow> u16 \<Rightarrow> u32" where
  "regsToU32BADC high low = regsToU32 (swap_bytes high) (swap_bytes low)"

definition regsToU32CDAB :: "u16 \<Rightarrow> u16 \<Rightarrow> u32" where
  "regsToU32CDAB high low = regsToU32 low high"

definition regsToU32DCBA :: "u16 \<Rightarrow> u16 \<Rightarrow> u32" where
  "regsToU32DCBA high low = regsToU32 (swap_bytes low) (swap_bytes high)"

definition regsToI32 :: "u16 \<Rightarrow> u16 \<Rightarrow> u32" where
  "regsToI32 high low = regsToU32 high low"

definition regsToFloatABCD :: "u16 \<Rightarrow> u16 \<Rightarrow> u32" where
  "regsToFloatABCD high low = regsToU32ABCD high low"

definition regsToFloatBADC :: "u16 \<Rightarrow> u16 \<Rightarrow> u32" where
  "regsToFloatBADC high low = regsToU32BADC high low"

definition regsToFloatCDAB :: "u16 \<Rightarrow> u16 \<Rightarrow> u32" where
  "regsToFloatCDAB high low = regsToU32CDAB high low"

definition regsToFloatDCBA :: "u16 \<Rightarrow> u16 \<Rightarrow> u32" where
  "regsToFloatDCBA high low = regsToU32DCBA high low"

end
