(* ===== verification/Float32.thy ===== *)
theory Float32
  imports PlcTypes
begin

unbundle bit_operations_syntax

text \<open>
  The \<open>float\<close> arithmetic the firmware uses, on IEEE-754 binary32 bit patterns: conversion
  from integers and multiplication, both rounded to nearest even, and the truncating cast
  to an integer. A finite value is its sign, an integer significand and an exponent of two.
\<close>

datatype f32 = F32NaN | F32Inf bool | F32Fin bool nat int

definition f32_unpack :: "u32 \<Rightarrow> f32" where
  "f32_unpack w =
     (let s = bit w 31; ef = unat w div 2 ^ 23 mod 256; frac = unat w mod 2 ^ 23 in
      if ef = 255 then (if frac = 0 then F32Inf s else F32NaN)
      else if ef = 0 then F32Fin s frac (- 149)
      else F32Fin s (2 ^ 23 + frac) (int ef - 150))"

definition f32_nan :: u32 where "f32_nan = 0x7FC00000"

definition f32_signed :: "bool \<Rightarrow> nat \<Rightarrow> u32" where
  "f32_signed s n = of_nat ((if s then 2 ^ 31 else 0) + n)"

fun bit_length :: "nat \<Rightarrow> nat" where
  "bit_length n = (if n = 0 then 0 else Suc (bit_length (n div 2)))"

declare bit_length.simps [simp del]

text \<open>
  \<open>m * 2 ^ e\<close> rounded to a multiple of the unit in the last place: the units of 24-bit
  significands, not below the smallest subnormal. A significand of \<open>2 ^ 24\<close> carries into
  the exponent field by itself.
\<close>

definition round_shift :: "nat \<Rightarrow> nat \<Rightarrow> nat" where
  "round_shift m k =
     (let q = m div 2 ^ k; r = m mod 2 ^ k in
      if 2 ^ k < 2 * r \<or> (2 * r = 2 ^ k \<and> odd q) then q + 1 else q)"

definition f32_round :: "bool \<Rightarrow> nat \<Rightarrow> int \<Rightarrow> u32" where
  "f32_round s m e =
     (if m = 0 then f32_signed s 0
      else
        (let ulp = max (e + int (bit_length m) - 24) (- 149);
             q = (if ulp \<le> e then m * 2 ^ nat (e - ulp) else round_shift m (nat (ulp - e)));
             bits = nat (ulp + 149) * 2 ^ 23 + q
         in f32_signed s (min bits (255 * 2 ^ 23))))"

definition f32_of_int :: "int \<Rightarrow> u32" where
  "f32_of_int i = f32_round (i < 0) (nat \<bar>i\<bar>) 0"

definition f32_mul :: "u32 \<Rightarrow> u32 \<Rightarrow> u32" where
  "f32_mul a b =
     (case (f32_unpack a, f32_unpack b) of
        (F32Fin s m e, F32Fin s' m' e') \<Rightarrow> f32_round (s \<noteq> s') (m * m') (e + e')
      | (F32Inf s, F32Inf s') \<Rightarrow> f32_signed (s \<noteq> s') (255 * 2 ^ 23)
      | (F32Inf s, F32Fin s' m' e') \<Rightarrow>
          if m' = 0 then f32_nan else f32_signed (s \<noteq> s') (255 * 2 ^ 23)
      | (F32Fin s m e, F32Inf s') \<Rightarrow>
          if m = 0 then f32_nan else f32_signed (s \<noteq> s') (255 * 2 ^ 23)
      | _ \<Rightarrow> f32_nan)"

text \<open>
  The cast to an integer type drops the fraction. C++ leaves it undefined when the result
  does not fit the type; the callers below reduce it to the type's width.
\<close>

definition f32_to_int :: "u32 \<Rightarrow> int" where
  "f32_to_int w =
     (case f32_unpack w of
        F32Fin s m e \<Rightarrow>
          (let n = (if 0 \<le> e then m * 2 ^ nat e else m div 2 ^ nat (- e))
           in if s then - int n else int n)
      | _ \<Rightarrow> 0)"

section \<open>Small integers are exact\<close>

lemma bit_length_simps [simp]: "bit_length 0 = 0" "bit_length (Suc 0) = 1"
  by (simp_all add: bit_length.simps)

lemma bit_length_bounds:
  assumes "0 < n"
  shows "2 ^ (bit_length n - 1) \<le> n" "n < 2 ^ bit_length n" "0 < bit_length n"
  using assms
proof (induction n rule: bit_length.induct)
  case (1 n)
  { case 1
    show ?case
    proof (cases "n = 1")
      case False
      with 1 have "2 ^ (bit_length (n div 2) - 1) \<le> n div 2" "0 < bit_length (n div 2)"
        using "1.IH"(1,3) by simp_all
      then show ?thesis using 1 by (cases "bit_length (n div 2)") (auto simp: bit_length.simps [of n])
    qed simp }
  { case 2
    show ?case
    proof (cases "n = 1")
      case False
      with 2 have "n div 2 < 2 ^ bit_length (n div 2)" using "1.IH"(2) by simp
      then show ?thesis using 2 by (simp add: bit_length.simps [of n])
    qed simp }
  { case 3 then show ?case by (simp add: bit_length.simps [of n]) }
qed

lemma bit_length_unique:
  assumes "2 ^ k \<le> n" "n < 2 ^ Suc k"
  shows "bit_length n = Suc k"
proof -
  have n: "0 < n" using assms(1) by (metis less_le_trans zero_less_numeral zero_less_power)
  have "k < bit_length n"
    using bit_length_bounds(2) [OF n] assms(1) by (metis le_less_trans power_strict_increasing_iff one_less_numeral_iff semiring_norm(76))
  moreover have "bit_length n - 1 < Suc k"
    using bit_length_bounds(1) [OF n] assms(2) by (metis le_less_trans power_strict_increasing_iff one_less_numeral_iff semiring_norm(76))
  ultimately show ?thesis by simp
qed

text \<open>A significand of exactly 24 bits survives packing.\<close>

lemma unpack_normal:
  assumes "2 ^ 23 \<le> q" "q < 2 ^ 24" and "- 149 \<le> e" "e \<le> 104"
  shows "f32_unpack (f32_signed s (nat (e + 149) * 2 ^ 23 + q)) = F32Fin s q e"
proof -
  define r where "r = q - 2 ^ 23"
  define k where "k = nat (e + 149) + 1"
  have r: "q = 2 ^ 23 + r" "r < 2 ^ 23" using assms(1,2) by (simp_all add: r_def)
  have k: "0 < k" "k < 255" "int k = e + 150" using assms(3,4) by (simp_all add: k_def)
  let ?n = "(if s then 2 ^ 31 else 0) + (k * 2 ^ 23 + r)"
  have n: "f32_signed s (nat (e + 149) * 2 ^ 23 + q) = (of_nat ?n :: u32)"
    by (simp add: f32_signed_def r(1) k_def add.commute)
  have lt: "k * 2 ^ 23 + r < 2 ^ 31" using k(2) r(2) by simp
  have u: "unat (of_nat ?n :: u32) = ?n"
    by (rule unat_u32_of_nat) (use lt in simp)
  have "?n = ((if s then 256 else 0) + k) * 2 ^ 23 + r" by simp
  then have "?n div 2 ^ 23 = (if s then 256 else 0) + k" using r(2) by simp
  then have ef: "?n div 2 ^ 23 mod 256 = k" using k(2) by simp
  have fr: "?n mod 2 ^ 23 = r" using r(2) by (simp add: mod_add_eq [symmetric])
  have "bit (of_nat ?n :: u32) 31 = odd (?n div 2 ^ 31)"
    unfolding sign_bit_unat u ..
  also have "?n div 2 ^ 31 = (if s then 1 else 0)"
    using lt by (intro div_nat_eqI) auto
  also have "odd (if s then 1 else 0 :: nat) = s" by simp
  finally have sg: "bit (of_nat ?n :: u32) 31 = s" .
  show ?thesis
    unfolding n f32_unpack_def Let_def u ef fr sg using k r(1) by simp
qed

text \<open>The unit of a positive integer below \<open>2 ^ 24\<close>, and its significand in that unit.\<close>

lemma round_exact:
  assumes "0 < m" "bit_length m \<le> 24" "- 149 \<le> e + int (bit_length m) - 24"
    "e + int (bit_length m) - 24 \<le> 104"
  shows "f32_unpack (f32_round s m e) =
    F32Fin s (m * 2 ^ (24 - bit_length m)) (e + int (bit_length m) - 24)"
proof -
  let ?b = "bit_length m" let ?ulp = "e + int ?b - 24" let ?q = "m * 2 ^ (24 - ?b)"
  note b = bit_length_bounds [OF assms(1)]
  have pow: "2 ^ 23 = 2 ^ (?b - 1) * (2 :: nat) ^ (24 - ?b)" "2 ^ 24 = 2 ^ ?b * (2 :: nat) ^ (24 - ?b)"
    using b(3) assms(2) by (simp_all flip: power_add)
  have q: "2 ^ 23 \<le> ?q" "?q < 2 ^ 24"
    unfolding pow using b(1,2) by simp_all
  have mx: "max ?ulp (- 149) = ?ulp" using assms(3) by simp
  have n: "nat (e - ?ulp) = 24 - ?b" by simp
  have lt: "nat (?ulp + 149) * 2 ^ 23 + ?q < 255 * 2 ^ 23"
  proof -
    have "nat (?ulp + 149) \<le> 253" using assms(4) by simp
    then have "nat (?ulp + 149) * 2 ^ 23 \<le> 253 * 2 ^ 23" by simp
    then show ?thesis using q(2) by simp
  qed
  have "f32_round s m e = f32_signed s (nat (?ulp + 149) * 2 ^ 23 + ?q)"
    using assms(1,2) lt unfolding f32_round_def Let_def mx n by simp
  then show ?thesis using unpack_normal [OF q assms(3,4)] by simp
qed

lemma unpack_one: "f32_unpack f32_one = F32Fin False (2 ^ 23) (- 23)"
  by (simp add: f32_unpack_def f32_one_def)

text \<open>Scaling by one changes nothing, and casting back gives the integer again.\<close>

lemma scale_one_exact:
  assumes "\<bar>i\<bar> < 2 ^ 24"
  shows "f32_to_int (f32_mul (f32_of_int i) f32_one) = i"
proof (cases "i = 0")
  case True
  have zero: "f32_round s 0 e = f32_signed s 0" for s e by (simp add: f32_round_def)
  have "f32_unpack (f32_signed False 0) = F32Fin False 0 (- 149)"
    by (simp add: f32_unpack_def f32_signed_def)
  with True show ?thesis
    by (simp add: f32_of_int_def f32_mul_def unpack_one zero f32_to_int_def)
next
  case False
  let ?m = "nat \<bar>i\<bar>" let ?b = "bit_length ?m" let ?s = "i < 0"
  let ?q = "?m * 2 ^ (24 - ?b)"
  have m: "0 < ?m" "?m < 2 ^ 24" using False assms by auto
  note b = bit_length_bounds [OF m(1)]
  have "2 ^ (?b - 1) < (2 :: nat) ^ 24" using b(1) m(2) by (rule le_less_trans)
  then have "?b - 1 < 24" by (rule power_less_imp_less_exp [rotated]) simp
  then have b24: "?b \<le> 24" using b(3) by simp
  have u: "f32_unpack (f32_of_int i) = F32Fin ?s ?q (int ?b - 24)"
    using round_exact [OF m(1) b24, of 0 ?s] b(3) b24 by (simp add: f32_of_int_def)
  have pow: "2 ^ 23 = 2 ^ (?b - 1) * (2 :: nat) ^ (24 - ?b)" "2 ^ 24 = 2 ^ ?b * (2 :: nat) ^ (24 - ?b)"
    using b(3) b24 by (simp_all flip: power_add)
  have q: "2 ^ 23 \<le> ?q" "?q < 2 ^ 24"
    unfolding pow using b(1,2) by simp_all
  have b47: "bit_length (?q * 2 ^ 23) = 47"
    using q bit_length_unique [of 46 "?q * 2 ^ 23"] by simp
  let ?bits = "nat (int ?b - 24 + 149) * 2 ^ 23 + ?q"
  have lt: "?bits < 255 * 2 ^ 23"
  proof -
    have "nat (int ?b - 24 + 149) \<le> 149" using b24 by simp
    then have "nat (int ?b - 24 + 149) * 2 ^ 23 \<le> 149 * 2 ^ 23" by simp
    then show ?thesis using q(2) by simp
  qed
  have "f32_mul (f32_of_int i) f32_one = f32_round ?s (?q * 2 ^ 23) (int ?b - 24 - 23)"
    by (simp add: f32_mul_def u unpack_one)
  also have "\<dots> = f32_signed ?s ?bits"
  proof -
    have mx: "max (int ?b - 24 - 23 + int (bit_length (?q * 2 ^ 23)) - 24) (- 149) = int ?b - 24"
      unfolding b47 by simp
    have "round_shift (?q * 2 ^ 23) 23 = ?q" by (simp add: round_shift_def Let_def)
    moreover have "nat (int ?b - 24 - (int ?b - 24 - 23)) = 23" by simp
    ultimately show ?thesis
      using q(1) lt m(1) unfolding f32_round_def Let_def mx by simp
  qed
  finally have p: "f32_unpack (f32_mul (f32_of_int i) f32_one) = F32Fin ?s ?q (int ?b - 24)"
    using unpack_normal [OF q, of "int ?b - 24" ?s] b24 by simp
  have "(if 0 \<le> int ?b - 24 then ?q * 2 ^ nat (int ?b - 24) else ?q div 2 ^ nat (- (int ?b - 24))) = ?m"
    using b24 by (auto simp: nat_diff_distrib)
  then show ?thesis using False by (auto simp: f32_to_int_def p Let_def)
qed

end
