(* ===== verification/PlcCore.thy ===== *)
theory PlcCore
  imports PollPlan ModbusMaster Float32
begin

unbundle bit_operations_syntax

text \<open>
  The PLC service of \<open>PlcCore.cpp\<close>: the outputs written to the field, the scheduling of
  the Modbus poll batches, their asynchronous completion and the decoding of the values.
  The catalog and the Modbus master the class points to are part of its state, the two
  flags tell whether the pointers are set. What uses a blocking write returns an option
  whose \<open>None\<close> is non-termination, as in \<open>ModbusMaster\<close>.
\<close>

section \<open>State\<close>

datatype poll_state = PollIdle | WaitingBatchResult

record 'd plc_core =
  pc_has_catalog :: bool
  pc_catalog :: point_catalog
  pc_has_modbus :: bool
  pc_modbus :: "'d modbus"
  pc_plan :: poll_plan
  pc_next_batch :: nat
  pc_plan_hash :: u32
  pc_max_gap :: u16
  pc_poll_state :: poll_state
  pc_active :: poll_batch
  pc_started_ms :: u32
  pc_last_poll_ms :: u32
  pc_max_poll_gap_ms :: u32
  pc_poll_calls :: u32
  pc_next_output :: nat
  pc_bits :: "nat \<Rightarrow> bool"
  pc_regs :: "nat \<Rightarrow> u16"

definition empty_plan :: poll_plan where
  "empty_plan = \<lparr>pp_batches = [], pp_members = []\<rparr>"

definition core_begin ::
  "point_catalog option \<Rightarrow> 'd modbus option \<Rightarrow> 'd plc_core \<Rightarrow> 'd plc_core" where
  "core_begin catalog modbus core =
     core\<lparr>pc_has_catalog := (catalog \<noteq> None),
       pc_catalog := (case catalog of None \<Rightarrow> pc_catalog core | Some c \<Rightarrow> c),
       pc_has_modbus := (modbus \<noteq> None),
       pc_modbus := (case modbus of None \<Rightarrow> pc_modbus core | Some m \<Rightarrow> m),
       pc_plan := empty_plan, pc_next_batch := 0, pc_plan_hash := 0, pc_poll_state := PollIdle,
       pc_active := empty_batch, pc_started_ms := 0, pc_last_poll_ms := 0,
       pc_max_poll_gap_ms := 0, pc_poll_calls := 0, pc_next_output := 0,
       pc_bits := (\<lambda>_. False), pc_regs := (\<lambda>_. 0)\<rparr>"

definition setModbusBatchMaxGap :: "u16 \<Rightarrow> 'd plc_core \<Rightarrow> 'd plc_core" where
  "setModbusBatchMaxGap gap core = core\<lparr>pc_max_gap := gap, pc_plan_hash := 0\<rparr>"

definition pollTransactionActive :: "'d plc_core \<Rightarrow> bool" where
  "pollTransactionActive core = (pc_poll_state core = WaitingBatchResult)"

definition core_millis :: "'d bus \<Rightarrow> 'd plc_core \<Rightarrow> u32 \<times> 'd plc_core" where
  "core_millis b core = (let (t, m) = mb_millis b (pc_modbus core) in (t, core\<lparr>pc_modbus := m\<rparr>))"

text \<open>The member array, zeroed behind the members in use.\<close>

definition plan_member :: "poll_plan \<Rightarrow> nat \<Rightarrow> poll_member" where
  "plan_member p i =
     (if i < length (pp_members p) then pp_members p ! i else \<lparr>bm_index = 0, bm_offset = 0\<rparr>)"

definition members_of :: "poll_plan \<Rightarrow> poll_batch \<Rightarrow> poll_member list" where
  "members_of p b =
     map (\<lambda>offset. plan_member p (unat (bt_member_start b) + offset)) [0..<unat (bt_member_count b)]"

section \<open>The plan\<close>

definition core_plan_hash :: "'d plc_core \<Rightarrow> u32" where
  "core_plan_hash core =
     (if \<not> pc_has_catalog core then 0 else computeModbusPlanHash (pc_max_gap core) (pc_catalog core))"

definition rebuildPollPlan :: "'d plc_core \<Rightarrow> 'd plc_core" where
  "rebuildPollPlan core =
     core\<lparr>pc_next_batch := 0,
       pc_plan := (if \<not> pc_has_catalog core then empty_plan
                   else poll_plan_of (pc_max_gap core) (pc_catalog core))\<rparr>"

definition rebuildPollPlanIfNeeded :: "'d plc_core \<Rightarrow> 'd plc_core" where
  "rebuildPollPlanIfNeeded core =
     (let next_hash = core_plan_hash core in
      if next_hash = pc_plan_hash core then core
      else (rebuildPollPlan core)\<lparr>pc_plan_hash := next_hash\<rparr>)"

section \<open>Decoding\<close>

definition apply_numeric_scale :: "u32 \<Rightarrow> point_definition \<Rightarrow> u32" where
  "apply_numeric_scale v d = f32_mul v (scale d)"

definition decodeBitState :: "point_definition \<Rightarrow> bool \<Rightarrow> point_state \<Rightarrow> bool \<times> point_state" where
  "decodeBitState d bit_value st =
     (True, st\<lparr>ps_value := pv_set_b bit_value (ps_value st), quality := QGood\<rparr>)"

definition bad_config :: "point_state \<Rightarrow> bool \<times> point_state" where
  "bad_config st = (False, st\<lparr>quality := QBadConfigError\<rparr>)"

definition decodeRegisterState ::
  "point_definition \<Rightarrow> (nat \<Rightarrow> u16) \<Rightarrow> u16 \<Rightarrow> point_state \<Rightarrow> bool \<times> point_state" where
  "decodeRegisterState d regs available st =
     (let good = (\<lambda>v. (True, st\<lparr>ps_value := v, quality := QGood\<rparr>));
          wide = (2 \<le> ref_register_count d \<and> 2 \<le> available) in
      if value_type d = TyString \<or> available = 0 then bad_config st
      else (case value_type d of
          TyBool \<Rightarrow> good (pv_set_b (regsToU16 (regs 0) \<noteq> 0) (ps_value st))
        | TyUint16 \<Rightarrow>
            good (pv_set_u16 (word_of_int (f32_to_int
              (apply_numeric_scale (f32_of_int (uint (regsToU16 (regs 0)))) d))) (ps_value st))
        | TyInt16 \<Rightarrow>
            good (pv_set_u16 (word_of_int (f32_to_int
              (apply_numeric_scale (f32_of_int (sint (regsToI16 (regs 0)))) d))) (ps_value st))
        | TyUint32 \<Rightarrow>
            if \<not> wide then bad_config st
            else good (word_of_int (f32_to_int
              (apply_numeric_scale (f32_of_int (uint (regsToU32 (regs 0) (regs 1)))) d)))
        | TyInt32 \<Rightarrow>
            if \<not> wide then bad_config st
            else good (word_of_int (f32_to_int
              (apply_numeric_scale (f32_of_int (sint (regsToI32 (regs 0) (regs 1)))) d)))
        | TyFloat \<Rightarrow>
            if 2 \<le> ref_register_count d then
              (if available < 2 then bad_config st
               else good (apply_numeric_scale (regsToFloatABCD (regs 0) (regs 1)) d))
            else good (apply_numeric_scale (f32_of_int (sint (regsToI16 (regs 0)))) d)
        | TyEnum \<Rightarrow> good (scast (regsToI16 (regs 0)))
        | _ \<Rightarrow> bad_config st))"

definition qualityFromModbusError :: "modbus_error \<Rightarrow> point_quality" where
  "qualityFromModbusError e =
     (case e of
        ErrNone \<Rightarrow> QGood
      | ErrBusy \<Rightarrow> QUncertainInitialValue
      | ErrInvalidArg \<Rightarrow> QBadConfigError
      | ErrDriverTimeout \<Rightarrow> QBadTimeout
      | ErrHwTimeout \<Rightarrow> QBadTimeout
      | _ \<Rightarrow> QBadProtocolError)"

section \<open>Outputs\<close>

definition is_dynamic_slot_variable_point :: "point_definition \<Rightarrow> bool" where
  "is_dynamic_slot_variable_point d =
     (if \<not> starts_with (feature (pd_id d)) slot_prefix then False
      else (case drop 8 (cstr (feature (pd_id d))) of
              [] \<Rightarrow> False
            | c # cs \<Rightarrow>
                if \<not> is_ascii_digit c then False
                else if dropWhile is_ascii_digit (c # cs) \<noteq> [] then False
                else if list_ex (\<lambda>r. strcmp_eq (point_id (pd_id d)) (lit r)) reserved_point_ids
                then False
                else cstr (point_id (pd_id d)) \<noteq> []))"

definition is_output :: "point_definition \<Rightarrow> bool" where
  "is_output d = (direction d = DirOutput \<or> direction d = DirInOut)"

text \<open>The copy of the union member that belongs to the value type.\<close>

definition pv_copy :: "point_value_type \<Rightarrow> point_value \<Rightarrow> point_value \<Rightarrow> point_value" where
  "pv_copy ty src dst =
     (case ty of
        TyBool \<Rightarrow> pv_set_b (pv_b src) dst
      | TyUint16 \<Rightarrow> pv_set_u16 (pv_u16 src) dst
      | TyInt16 \<Rightarrow> pv_set_u16 (pv_u16 src) dst
      | _ \<Rightarrow> src)"

definition needs_apply :: "point_value_type \<Rightarrow> point_command_state \<Rightarrow> point_state \<Rightarrow> bool" where
  "needs_apply ty cmd st =
     (let stale = (command_quality cmd \<noteq> CmdAcked) in
      case ty of
        TyBool \<Rightarrow> stale \<or> pv_b (last_commanded_value cmd) \<noteq> pv_b (ps_value st)
      | TyUint16 \<Rightarrow> stale \<or> pv_u16 (last_commanded_value cmd) \<noteq> pv_u16 (ps_value st)
      | TyInt16 \<Rightarrow> stale \<or> pv_u16 (last_commanded_value cmd) \<noteq> pv_u16 (ps_value st)
      | TyUint32 \<Rightarrow> stale \<or> last_commanded_value cmd \<noteq> ps_value st
      | TyInt32 \<Rightarrow> stale \<or> last_commanded_value cmd \<noteq> ps_value st
      | TyFloat \<Rightarrow> stale \<or> last_commanded_value cmd \<noteq> ps_value st
      | TyEnum \<Rightarrow> stale \<or> last_commanded_value cmd \<noteq> ps_value st
      | _ \<Rightarrow> False)"

definition modbus_target :: "'d plc_core \<Rightarrow> point_definition \<Rightarrow> modbus_table \<Rightarrow> bool" where
  "modbus_target core d table =
     (backend d = BackendModbus \<and> pc_has_modbus core \<and> ref_port_index d = 0 \<and>
      ref_table d = table \<and> writable_access (ref_access d))"

text \<open>The field write of one output: whether it is supported, and its success.\<close>

definition write_output ::
  "'d bus \<Rightarrow> u32 \<Rightarrow> 'd plc_core \<Rightarrow> point_definition \<Rightarrow> point_command_state \<Rightarrow> point_state \<Rightarrow>
   (bool \<times> bool \<times> 'd modbus) option" where
  "write_output b base core d cmd st =
     (let m = pc_modbus core; v = ps_value st; slave = ref_slave_address d; addr = ref_address d;
          written = (map_option (\<lambda>(ok, m). (True, ok, m)));
          otherwise = Some (backend d = BackendLocal, backend d = BackendLocal, m)
      in if value_type d = TyBool then
           (if modbus_target core d TableCoils then
              (if command_quality cmd = CmdAcked \<and> pv_b (last_commanded_value cmd) = pv_b v \<and>
                  quality st = QGood
               then Some (True, True, m)
               else written (writeSingleCoil b base slave addr (pv_b v) m))
            else otherwise)
         else if value_type d \<in> {TyUint16, TyInt16, TyEnum} then
           (if modbus_target core d TableHoldingRegisters \<and> ref_register_count d = 1
            then written (writeSingleRegister b base slave addr (pv_u16 v) m)
            else otherwise)
         else
           (if modbus_target core d TableHoldingRegisters \<and> ref_register_count d = 2
            then written (writeMultipleRegisters b base slave addr 2
                   (Some [ucast (drop_bit 16 v), ucast v]) m)
            else otherwise))"

definition writable_type :: "point_value_type \<Rightarrow> bool" where
  "writable_type ty = (case ty of TyString \<Rightarrow> False | TyRaw _ \<Rightarrow> False | _ \<Rightarrow> True)"

definition applyWritablePointState ::
  "'d bus \<Rightarrow> u32 \<Rightarrow> nat \<Rightarrow> u32 \<Rightarrow> 'd plc_core \<Rightarrow> (bool \<times> 'd plc_core) option" where
  "applyWritablePointState b base ci now core =
     (let c = pc_catalog core in
      if \<not> pc_has_catalog core \<or> cat_count c \<le> ci then Some (False, core)
      else
        (let d = cat_entries c ci; st = cat_states c ci; cmd = cat_command_states c ci in
         if \<not> is_dynamic_slot_variable_point d \<and> \<not> is_output d then Some (False, core)
         else if \<not> writable_type (value_type d) then Some (False, core)
         else
           (case write_output b base core d cmd st of
              None \<Rightarrow> None
            | Some (supported, ok, m) \<Rightarrow>
                (let core = core\<lparr>pc_modbus := m\<rparr>; ty = value_type d;
                     cmd = cmd\<lparr>last_commanded_value := pv_copy ty (ps_value st) (last_commanded_value cmd)\<rparr>;
                     next = st\<lparr>last_update_ms := now, ps_value := pv_copy ty (ps_value st) (ps_value st)\<rparr>
                 in if \<not> supported then Some (False, core)
                    else
                      (let cmd = cmd\<lparr>last_command_ts_ms := now, pending := False\<rparr>;
                           cmd = (if ok then cmd\<lparr>command_quality := CmdAcked, last_ack_ts_ms := now\<rparr>
                                  else cmd\<lparr>command_quality := CmdProtocolError\<rparr>);
                           next = (if ok then next\<lparr>quality := QGood, last_good_update_ms := now\<rparr>
                                   else next\<lparr>quality := QBadWriteRejected\<rparr>);
                           (state_ok, c) = updateState c (pd_id d) next;
                           (command_ok, c) = updateCommandState c (pd_id d) cmd
                       in Some (ok \<and> state_ok \<and> command_ok, core\<lparr>pc_catalog := c\<rparr>))))))"

text \<open>The loop of \<open>applyNextWritablePointState\<close> with its remaining attempts.\<close>

fun apply_outputs ::
  "'d bus \<Rightarrow> u32 \<Rightarrow> u32 \<Rightarrow> nat \<Rightarrow> 'd plc_core \<Rightarrow> (bool \<times> 'd plc_core) option" where
  "apply_outputs b base now 0 core = Some (False, core)"
| "apply_outputs b base now (Suc attempts) core =
     (let c = pc_catalog core; ci = pc_next_output core;
          d = cat_entries c ci; st = cat_states c ci; cmd = cat_command_states c ci;
          core = core\<lparr>pc_next_output := (ci + 1) mod cat_count c\<rparr>
      in if \<not> is_output d \<or> quality st \<noteq> QGood \<or>
            (last_update_ms st = 0 \<and> last_good_update_ms st = 0) \<or>
            \<not> needs_apply (value_type d) cmd st
         then apply_outputs b base now attempts core
         else applyWritablePointState b base ci now core)"

definition applyNextWritablePointState ::
  "'d bus \<Rightarrow> u32 \<Rightarrow> u32 \<Rightarrow> 'd plc_core \<Rightarrow> (bool \<times> 'd plc_core) option" where
  "applyNextWritablePointState b base now core =
     (if \<not> pc_has_catalog core \<or> pc_poll_state core \<noteq> PollIdle then Some (False, core)
      else apply_outputs b base now (cat_count (pc_catalog core)) core)"

section \<open>Batches\<close>

definition member_matches :: "'d plc_core \<Rightarrow> poll_member \<Rightarrow> bool" where
  "member_matches core m =
     (let d = cat_entries (pc_catalog core) (unat (bm_index m)); b = pc_active core in
      unat (bm_index m) < cat_count (pc_catalog core) \<and>
      backend d = BackendModbus \<and> ref_port_index d = bt_port b \<and>
      ref_slave_address d = bt_slave b \<and> ref_table d = bt_table b \<and>
      bt_start b \<le> ref_address d \<and> ref_address d - bt_start b = bm_offset m)"

definition store_state :: "poll_member \<Rightarrow> point_state \<Rightarrow> 'd plc_core \<Rightarrow> 'd plc_core" where
  "store_state m st core =
     core\<lparr>pc_catalog := snd (updateState (pc_catalog core)
        (pd_id (cat_entries (pc_catalog core) (unat (bm_index m)))) st)\<rparr>"

text \<open>The new state of one member after a read, and the loop over the members.\<close>

definition read_state :: "'d plc_core \<Rightarrow> bool \<Rightarrow> point_quality \<Rightarrow> u32 \<Rightarrow> poll_member \<Rightarrow> point_state" where
  "read_state core transaction_ok batch_error now m =
     (let b = pc_active core; d = cat_entries (pc_catalog core) (unat (bm_index m));
          st = cat_states (pc_catalog core) (unat (bm_index m));
          (point_ok, st) =
            (if \<not> transaction_ok then (False, st\<lparr>quality := batch_error\<rparr>)
             else if modbus_table_is_bitwise (bt_table b) then
               (if bt_quantity b \<le> bm_offset m then (False, st\<lparr>quality := QBadConfigError\<rparr>)
                else decodeBitState d (pc_bits core (unat (bm_offset m))) st)
             else decodeRegisterState d (\<lambda>i. pc_regs core (unat (bm_offset m) + i))
                    (bt_quantity b - bm_offset m) st);
          st = st\<lparr>last_update_ms := now\<rparr>
      in if point_ok then st\<lparr>last_good_update_ms := now\<rparr> else st)"

definition complete_member ::
  "bool \<Rightarrow> point_quality \<Rightarrow> u32 \<Rightarrow> poll_member \<Rightarrow> 'd plc_core \<Rightarrow> 'd plc_core" where
  "complete_member transaction_ok batch_error now m core =
     (if member_matches core m
      then store_state m (read_state core transaction_ok batch_error now m) core else core)"

text \<open>The values stored through an output pointer: the first entries of the array.\<close>

definition overwrite :: "'a list \<Rightarrow> (nat \<Rightarrow> 'a) \<Rightarrow> nat \<Rightarrow> 'a" where
  "overwrite xs f i = (if i < length xs then xs ! i else f i)"

definition finish_read :: "'d plc_core \<Rightarrow> bool \<times> 'd plc_core" where
  "finish_read core =
     (let b = pc_active core in
      if modbus_table_is_bitwise (bt_table b) then
        (case finishReadBits False (bt_quantity b) (pc_modbus core) of
           (Some vs, m) \<Rightarrow> (True, core\<lparr>pc_modbus := m, pc_bits := overwrite vs (pc_bits core)\<rparr>)
         | (None, m) \<Rightarrow> (False, core\<lparr>pc_modbus := m\<rparr>))
      else
        (case finishReadRegisters False (bt_quantity b) (pc_modbus core) of
           (Some vs, m) \<Rightarrow> (True, core\<lparr>pc_modbus := m, pc_regs := overwrite vs (pc_regs core)\<rparr>)
         | (None, m) \<Rightarrow> (False, core\<lparr>pc_modbus := m\<rparr>)))"

definition completeActiveBatch :: "u32 \<Rightarrow> 'd plc_core \<Rightarrow> bool \<times> 'd plc_core" where
  "completeActiveBatch now core =
     (if \<not> pc_has_catalog core \<or> \<not> pc_has_modbus core \<or> \<not> bt_valid (pc_active core)
      then (False, core)
      else
        (let (transaction_ok, core) = finish_read core;
             batch_error = (if transaction_ok then QBadConfigError
                            else qualityFromModbusError (last_error (pc_modbus core)))
         in (transaction_ok,
             fold (complete_member transaction_ok batch_error now)
               (members_of (pc_plan core) (pc_active core)) core)))"

definition fail_member :: "u32 \<Rightarrow> point_quality \<Rightarrow> poll_member \<Rightarrow> 'd plc_core \<Rightarrow> 'd plc_core" where
  "fail_member now batch_error m core =
     (if member_matches core m
      then store_state m ((cat_states (pc_catalog core) (unat (bm_index m)))
             \<lparr>quality := batch_error, last_update_ms := now\<rparr>) core
      else core)"

definition failActiveBatch :: "u32 \<Rightarrow> point_quality \<Rightarrow> 'd plc_core \<Rightarrow> 'd plc_core" where
  "failActiveBatch now batch_error core =
     (if \<not> pc_has_catalog core \<or> \<not> bt_valid (pc_active core) then core
      else fold (fail_member now batch_error) (members_of (pc_plan core) (pc_active core)) core)"

section \<open>Scheduling\<close>

text \<open>
  The loop of \<open>batchPollUrgency\<close>: whether a member is due, and by how much it is overdue.
\<close>

fun urgency_scan :: "point_catalog \<Rightarrow> u32 \<Rightarrow> poll_member list \<Rightarrow> bool \<Rightarrow> u32 \<Rightarrow> bool \<times> u32" where
  "urgency_scan c now [] due urgency = (due, urgency)"
| "urgency_scan c now (m # ms) due urgency =
     (let i = unat (bm_index m); refresh = refresh_ms (polling (cat_entries c i));
          elapsed = now - last_update_ms (cat_states c i); overdue = elapsed - refresh
      in if cat_count c \<le> i then urgency_scan c now ms due urgency
         else if refresh = 0 then (True, 0xFFFFFFFF)
         else if elapsed < refresh then urgency_scan c now ms due urgency
         else urgency_scan c now ms True (if urgency < overdue then overdue else urgency))"

definition batchPollUrgency :: "'d plc_core \<Rightarrow> poll_batch \<Rightarrow> u32 \<Rightarrow> bool \<times> u32" where
  "batchPollUrgency core b now =
     (if \<not> pc_has_catalog core then (False, 0)
      else urgency_scan (pc_catalog core) now (members_of (pc_plan core) b) False 0)"

definition isBatchDue :: "'d plc_core \<Rightarrow> poll_batch \<Rightarrow> u32 \<Rightarrow> bool" where
  "isBatchDue core b now = fst (batchPollUrgency core b now)"

text \<open>
  The selection loop with its remaining attempts: the batch to look at next, and the batch
  selected so far with its urgency. The number of batches stands for no selection.
\<close>

fun select_batch ::
  "'d plc_core \<Rightarrow> u32 \<Rightarrow> nat \<Rightarrow> nat \<Rightarrow> nat \<Rightarrow> u32 \<Rightarrow> nat \<times> nat" where
  "select_batch core now 0 next selected urgency = (next, selected)"
| "select_batch core now (Suc attempts) next selected urgency =
     (let bs = pp_batches (pc_plan core); n = length bs; b = bs ! next;
          (due, u) = batchPollUrgency core b now; next' = (next + 1) mod n
      in if \<not> bt_valid b \<or> \<not> due then select_batch core now attempts next' selected urgency
         else if selected = n \<or> urgency < u then select_batch core now attempts next' next u
         else select_batch core now attempts next' selected urgency)"

definition startBatchPoll :: "'d bus \<Rightarrow> u32 \<Rightarrow> poll_batch \<Rightarrow> 'd plc_core \<Rightarrow> bool \<times> 'd plc_core" where
  "startBatchPoll b base batch core =
     (let m = pc_modbus core; slave = bt_slave batch; start = bt_start batch; q = bt_quantity batch;
          done = (\<lambda>(ok, m). (ok, core\<lparr>pc_modbus := m\<rparr>))
      in if \<not> pc_has_catalog core \<or> \<not> pc_has_modbus core \<or> bt_port batch \<noteq> 0 then (False, core)
         else (case bt_table batch of
             TableCoils \<Rightarrow> done (startReadCoils b base slave start q m)
           | TableDiscreteInputs \<Rightarrow> done (startReadDiscreteInputs b base slave start q m)
           | TableHoldingRegisters \<Rightarrow> done (startReadHoldingRegisters b base slave start q m)
           | TableInputRegisters \<Rightarrow> done (startReadInputRegisters b base slave start q m)
           | TableRaw _ \<Rightarrow> (False, core)))"

definition end_poll :: "'d plc_core \<Rightarrow> 'd plc_core" where
  "end_poll core =
     core\<lparr>pc_poll_state := PollIdle, pc_active := empty_batch, pc_started_ms := 0,
       pc_last_poll_ms := 0, pc_max_poll_gap_ms := 0, pc_poll_calls := 0\<rparr>"

definition poll_waiting :: "'d bus \<Rightarrow> u32 \<Rightarrow> u32 \<Rightarrow> 'd plc_core \<Rightarrow> 'd plc_core" where
  "poll_waiting b base now core =
     (let gap = now - pc_last_poll_ms core;
          core = core\<lparr>pc_poll_calls := pc_poll_calls core + 1,
            pc_max_poll_gap_ms :=
              (if pc_last_poll_ms core \<noteq> 0 \<and> pc_max_poll_gap_ms core < gap then gap
               else pc_max_poll_gap_ms core),
            pc_last_poll_ms := now\<rparr>;
          (status, m) = (if \<not> pc_has_modbus core then (TxError, pc_modbus core)
                         else pollTransaction b base (pc_modbus core));
          core = core\<lparr>pc_modbus := m\<rparr>;
          error = (if \<not> pc_has_modbus core then QBadConfigError
                   else qualityFromModbusError (last_error m))
      in case status of
           TxBusy \<Rightarrow> core
         | TxSuccess \<Rightarrow> end_poll (snd (completeActiveBatch now core))
         | TxWatchdogTimeout \<Rightarrow> end_poll (failActiveBatch now error core)
         | TxError \<Rightarrow> end_poll (failActiveBatch now error core)
         | TxIdle \<Rightarrow> end_poll core)"

definition poll_idle :: "'d bus \<Rightarrow> u32 \<Rightarrow> u32 \<Rightarrow> 'd plc_core \<Rightarrow> 'd plc_core" where
  "poll_idle b base now core =
     (let bs = pp_batches (pc_plan core); n = length bs;
          (next, selected) = select_batch core now n (pc_next_batch core) n 0
      in if n \<le> selected then core\<lparr>pc_next_batch := next\<rparr>
         else
           (let batch = bs ! selected;
                core = core\<lparr>pc_next_batch := (selected + 1) mod n\<rparr>;
                (started, core) = startBatchPoll b base batch core
            in if started then
                 core\<lparr>pc_active := batch, pc_started_ms := now, pc_last_poll_ms := now,
                   pc_max_poll_gap_ms := 0, pc_poll_calls := 0,
                   pc_poll_state := WaitingBatchResult\<rparr>
               else
                 failActiveBatch now
                   (if bt_port batch \<noteq> 0 \<or> \<not> pc_has_modbus core then QBadConfigError
                    else qualityFromModbusError (last_error (pc_modbus core))) core))"

definition pollNextPoint :: "'d bus \<Rightarrow> u32 \<Rightarrow> 'd plc_core \<Rightarrow> 'd plc_core" where
  "pollNextPoint b base core =
     (if \<not> pc_has_catalog core \<or> pp_batches (pc_plan core) = [] then core
      else
        (let (now, core) = core_millis b core in
         case pc_poll_state core of
           WaitingBatchResult \<Rightarrow> poll_waiting b base now core
         | PollIdle \<Rightarrow> poll_idle b base now core))"

definition core_loop :: "'d bus \<Rightarrow> u32 \<Rightarrow> 'd plc_core \<Rightarrow> 'd plc_core option" where
  "core_loop b base core =
     (if \<not> pc_has_catalog core then Some core
      else (case pc_poll_state core of
          WaitingBatchResult \<Rightarrow> Some (pollNextPoint b base core)
        | PollIdle \<Rightarrow>
            (let core = rebuildPollPlanIfNeeded core; (now, core) = core_millis b core in
             case applyNextWritablePointState b base now core of
               None \<Rightarrow> None
             | Some (True, core) \<Rightarrow> Some core
             | Some (False, core) \<Rightarrow> Some (pollNextPoint b base core))))"

end
