(* ===== verification/ModbusDevice.thy ===== *)
theory ModbusDevice
  imports ModbusMaster
begin

unbundle bit_operations_syntax

text \<open>
  The Modbus controller of the repository, \<open>wb_modbus_master.sv\<close>, as the driver sees it:
  its registers, the evaluation of a received frame and the retries. What arrives on the
  line in answer to an attempt is a function of the attempt's number and of the frame
  sent; how long a transaction takes is a function of its number. The count fields of the
  status register, which the driver masks out, the timing registers and the flag of UART
  framing errors are left out, and a received frame shows up at once when the transaction
  ends. Every bus access takes one cycle of the clock the millisecond timer divides.
\<close>

section \<open>CRC-16\<close>

definition crc_shift :: "u16 \<Rightarrow> u16" where
  "crc_shift c = (if bit c 0 then drop_bit 1 c XOR 0xA001 else drop_bit 1 c)"

definition crc16_step :: "u16 \<Rightarrow> u8 \<Rightarrow> u16" where
  "crc16_step crc d = (crc_shift ^^ 8) (crc XOR ucast d)"

definition crc16 :: "u8 list \<Rightarrow> u16" where
  "crc16 bs = fold (\<lambda>d c. crc16_step c d) bs 0xFFFF"

lemma crc_shift_zeros:
  assumes "\<And>i. i < n \<Longrightarrow> \<not> bit x i"
  shows "(crc_shift ^^ n) x = drop_bit n x"
  using assms
proof (induction n arbitrary: x)
  case (Suc n)
  have "crc_shift x = drop_bit 1 x"
    using Suc.prems [of 0] by (simp add: crc_shift_def)
  moreover have "(crc_shift ^^ n) (drop_bit 1 x) = drop_bit n (drop_bit 1 x)"
    using Suc.prems by (intro Suc.IH) (auto simp: bit_drop_bit_eq)
  ultimately show ?case by (simp add: funpow_Suc_right del: funpow.simps)
qed simp

lemma crc16_step_low: "crc16_step c (ucast c) = drop_bit 8 c"
proof -
  have e: "c XOR ucast (ucast c :: u8) = push_bit 8 (drop_bit 8 c)"
    by (rule bit_word_eqI) (auto simp: bit_simps)
  have "(crc_shift ^^ 8) (push_bit 8 (drop_bit 8 c)) = drop_bit 8 (push_bit 8 (drop_bit 8 c))"
    by (rule crc_shift_zeros) (simp add: bit_simps)
  also have "\<dots> = drop_bit 8 c"
    by (rule bit_word_eqI) (auto simp: bit_simps dest: bit_imp_le_length)
  finally show ?thesis by (simp only: crc16_step_def e)
qed

text \<open>A message followed by its own checksum has the checksum zero.\<close>

lemma crc16_residue: "crc16 (bs @ le16 (crc16 bs)) = 0"
proof -
  let ?c = "crc16 bs"
  have two: "crc16 (bs @ [x, y]) = crc16_step (crc16_step ?c x) y" for x y
    by (simp add: crc16_def)
  have "crc16_step (drop_bit 8 ?c) (ucast (drop_bit 8 ?c)) = drop_bit 8 (drop_bit 8 ?c)"
    by (rule crc16_step_low)
  also have "\<dots> = 0"
    by (rule bit_word_eqI) (auto simp: bit_simps dest: bit_imp_le_length)
  finally show ?thesis by (simp add: two le16_def crc16_step_low)
qed

section \<open>Attempts\<close>

type_synonym line = "nat \<Rightarrow> u8 list \<Rightarrow> u8 list \<times> bool"

datatype verdict = Accepted | ExceptionReply | Rejected u32

text \<open>
  One attempt: the bytes received, and whether the line then fell silent for the
  inter-frame time before the response time-out. \<open>ST_EVAL_RESPONSE\<close> decides about a
  complete frame, of which the controller keeps the first 256 bytes.
\<close>

definition judge :: "u8 \<Rightarrow> u8 \<Rightarrow> u8 list \<times> bool \<Rightarrow> verdict" where
  "judge slave func answer =
     (let (rx, complete) = answer; frame = take kMaxFrameBytes rx in
      if rx = [] \<or> \<not> complete then Rejected STATUS_TIMEOUT
      else if length frame < 4 then Rejected STATUS_FRAME_ERROR
      else if crc16 rx \<noteq> 0 then Rejected STATUS_CRC_ERROR
      else if slave \<noteq> 0 \<and> frame ! 0 \<noteq> slave then Rejected STATUS_FRAME_ERROR
      else if frame ! 1 = func OR 0x80 then ExceptionReply
      else if frame ! 1 \<noteq> func then Rejected STATUS_FRAME_ERROR
      else Accepted)"

text \<open>The flags and the frame a transaction ends with, and the number of the next attempt.\<close>

fun attempts ::
  "line \<Rightarrow> u8 \<Rightarrow> u8 \<Rightarrow> u8 list \<Rightarrow> nat \<Rightarrow> nat \<Rightarrow> u32 \<Rightarrow> u32 \<times> u8 list \<times> nat" where
  "attempts line slave func wire k left flags =
     (let answer = line k wire; frame = take kMaxFrameBytes (fst answer);
          flags = flags OR (if kMaxFrameBytes < length (fst answer) then STATUS_RX_OVERFLOW else 0)
      in case judge slave func answer of
           Accepted \<Rightarrow> (flags OR STATUS_DONE OR STATUS_SUCCESS, frame, Suc k)
         | ExceptionReply \<Rightarrow> (flags OR STATUS_DONE OR STATUS_EXCEPTION, frame, Suc k)
         | Rejected f \<Rightarrow>
             (case left of
                0 \<Rightarrow> (flags OR f OR STATUS_DONE, frame, Suc k)
              | Suc left' \<Rightarrow> attempts line slave func wire (Suc k) left' (flags OR f)))"

declare attempts.simps [simp del]

section \<open>The controller\<close>

record modbus_ctl =
  mc_cycles :: nat
  mc_line :: line
  mc_latency :: "nat \<Rightarrow> nat"
  mc_attempt :: nat
  mc_started :: nat
  mc_done_at :: nat
  mc_flags :: u32
  mc_slave :: u8
  mc_func :: u8
  mc_retry_max :: nat
  mc_tx_len :: nat
  mc_payload :: "u8 list"
  mc_rx :: "u8 list"
  mc_rx_idx :: nat
  mc_sent :: "u8 list list"

definition mc_busy :: "modbus_ctl \<Rightarrow> bool" where
  "mc_busy d = (mc_cycles d < mc_done_at d)"

definition mc_wire :: "modbus_ctl \<Rightarrow> u8 list" where
  "mc_wire d = (let req = mc_slave d # mc_func d # mc_payload d in req @ le16 (crc16 req))"

definition mc_start :: "modbus_ctl \<Rightarrow> modbus_ctl" where
  "mc_start d =
     (let (flags, frame, k) = attempts (mc_line d) (mc_slave d) (mc_func d) (mc_wire d)
                                (mc_attempt d) (mc_retry_max d) 0
      in d\<lparr>mc_flags := flags, mc_rx := frame, mc_rx_idx := 0, mc_attempt := k,
           mc_done_at := mc_cycles d + mc_latency d (mc_started d),
           mc_started := Suc (mc_started d), mc_sent := mc_sent d @ [mc_wire d]\<rparr>)"

definition mc_tick :: "modbus_ctl \<Rightarrow> modbus_ctl" where
  "mc_tick d = d\<lparr>mc_cycles := Suc (mc_cycles d)\<rparr>"

definition mc_rd :: "u32 \<Rightarrow> u32 \<Rightarrow> modbus_ctl \<Rightarrow> u32 \<times> modbus_ctl" where
  "mc_rd base a d0 =
     (let d = mc_tick d0; off = a - base in
      if a = TIMER_MS then (of_nat (mc_cycles d div kCyclesPerMs), d)
      else if off = REG_STATUS
      then (if mc_busy d then STATUS_BUSY else mc_flags d, d)
      else if off = REG_RX_LEN
      then (if mc_busy d then 0 else of_nat (length (mc_rx d)), d)
      else if off = REG_RX_DATA then
        (if mc_busy d \<or> length (mc_rx d) \<le> mc_rx_idx d then (0, d)
         else (ucast (mc_rx d ! mc_rx_idx d), d\<lparr>mc_rx_idx := Suc (mc_rx_idx d)\<rparr>))
      else (0, d))"

definition mc_control :: "u32 \<Rightarrow> modbus_ctl \<Rightarrow> modbus_ctl" where
  "mc_control v d0 =
     (let d1 = (if v AND CTRL_CLEAR_STATUS \<noteq> 0 then d0\<lparr>mc_flags := 0\<rparr> else d0);
          d2 = (if v AND CTRL_ABORT \<noteq> 0
                then d1\<lparr>mc_flags := STATUS_DONE, mc_rx := [], mc_rx_idx := 0,
                        mc_done_at := mc_cycles d1\<rparr>
                else d1)
      in if v AND CTRL_START \<noteq> 0 \<and> \<not> mc_busy d0 then mc_start d2 else d2)"

definition mc_wr :: "u32 \<Rightarrow> u32 \<Rightarrow> u32 \<Rightarrow> modbus_ctl \<Rightarrow> modbus_ctl" where
  "mc_wr base a v d0 =
     (let d = mc_tick d0; off = a - base in
      if off = REG_CONTROL then mc_control v d
      else if off = REG_SLAVE_FUNC then d\<lparr>mc_slave := ucast (drop_bit 8 v), mc_func := ucast v\<rparr>
      else if off = REG_RETRY then d\<lparr>mc_retry_max := unat (v AND 0xFF)\<rparr>
      else if off = REG_TX_LEN \<and> \<not> mc_busy d
      then d\<lparr>mc_tx_len := min (unat (v AND 0xFF)) kMaxDataBytes, mc_payload := []\<rparr>
      else if off = REG_TX_DATA \<and> \<not> mc_busy d then
        (if length (mc_payload d) < mc_tx_len d
         then d\<lparr>mc_payload := mc_payload d @ [ucast v]\<rparr> else d)
      else if off = REG_RX_LEN then d\<lparr>mc_rx_idx := 0\<rparr>
      else d)"

definition wb_modbus_bus :: "u32 \<Rightarrow> modbus_ctl bus" where
  "wb_modbus_bus base = \<lparr>bus_rd = mc_rd base, bus_wr = mc_wr base\<rparr>"

definition MODBUS1_BASE :: u32 where "MODBUS1_BASE = 0x10004000"

end
