(* ===== verification/ModbusProps.thy ===== *)
theory ModbusProps
  imports ModbusDevice
begin

unbundle bit_operations_syntax

text \<open>
  Properties of the Modbus driver: every blocking transaction returns on a bus on which
  time passes; over the repository's controller, what a read delivers, when a write is
  confirmed, and how failures of the line are reported.
\<close>

section \<open>The driver leaves its own state alone\<close>

lemma readReg_state:
  assumes "readReg b base off m = (v, m')"
  shows "m' = m\<lparr>mb_dev := snd (bus_rd b (base + off) (mb_dev m))\<rparr>"
    "v = fst (bus_rd b (base + off) (mb_dev m))"
  using assms by (simp_all add: readReg_def split: prod.splits)

lemma mb_millis_state:
  assumes "mb_millis b m = (v, m')"
  shows "m' = m\<lparr>mb_dev := snd (millis b (mb_dev m))\<rparr>" "v = fst (millis b (mb_dev m))"
  using assms by (simp_all add: mb_millis_def split: prod.splits)

lemma write_tx_dev: "\<exists>d. write_tx b base xs m = m\<lparr>mb_dev := d\<rparr>"
proof (induction xs arbitrary: m)
  case Nil
  have "write_tx b base [] m = m\<lparr>mb_dev := mb_dev m\<rparr>" by simp
  then show ?case by blast
next
  case (Cons x xs)
  obtain d where "write_tx b base xs (writeReg b base REG_TX_DATA (ucast x) m) =
      (writeReg b base REG_TX_DATA (ucast x) m)\<lparr>mb_dev := d\<rparr>" using Cons.IH by blast
  then show ?case by (auto simp: writeReg_def)
qed

lemma submit_request_dev: "\<exists>d. submit_request b base slave func req m = m\<lparr>mb_dev := d\<rparr>"
proof -
  let ?m1 = "writeReg b base REG_CONTROL CTRL_CLEAR_STATUS m"
  let ?m2 = "writeReg b base REG_RETRY (ucast (mb_retries ?m1)) ?m1"
  let ?m3 = "writeReg b base REG_SLAVE_FUNC (push_bit 8 (ucast slave) OR ucast func) ?m2"
  let ?m4 = "writeReg b base REG_TX_LEN (of_nat (length req)) ?m3"
  obtain d where d: "write_tx b base req ?m4 = ?m4\<lparr>mb_dev := d\<rparr>"
    by (rule exE [OF write_tx_dev])
  have "submit_request b base slave func req m =
      m\<lparr>mb_dev := bus_wr b (base + REG_CONTROL) CTRL_START d\<rparr>"
    unfolding submit_request_def Let_def d by (simp add: writeReg_def)
  then show ?thesis by blast
qed

section \<open>Waiting ends\<close>

context ticking_bus
begin

lemma wait_loop_returns:
  assumes "unat guard < 2 ^ 31 - 3" and "start = of_nat T"
    and "cycles (mb_dev m) \<le> (T + unat guard) * kCyclesPerMs + kCyclesPerMs"
    and "T * kCyclesPerMs \<le> cycles (mb_dev m)"
  shows "\<exists>ok m'. wait_loop b base start guard m = Some (ok, m')"
  using assms(3,4)
proof (induction "(T + unat guard) * kCyclesPerMs - cycles (mb_dev m)" arbitrary: m
    rule: less_induct)
  case less
  obtain st m1 where r: "readReg b base REG_STATUS m = (st, m1)" by fastforce
  obtain now m2 where t: "mb_millis b m1 = (now, m2)" by fastforce
  let ?K = kCyclesPerMs and ?E = "T + unat guard"
  let ?c = "cycles (mb_dev m)" and ?c1 = "cycles (mb_dev m1)" and ?c2 = "cycles (mb_dev m2)"
  have c1: "?c < ?c1" "?c1 \<le> ?c + ?K"
    using readReg_state [OF r] read_ticks read_bounded by simp_all
  have "millis b (mb_dev m1) = (now, mb_dev m2)" using mb_millis_state [OF t] by simp
  note c2 = millis_reading [OF this]
  show ?case
  proof (cases "?E \<le> ?c2 div ?K")
    case True
    have "?c2 \<le> (?E + 3) * ?K" using c1 c2(3) less.prems(1) by (simp add: algebra_simps)
    then have "?c2 div ?K \<le> (?E + 3) * ?K div ?K" by (rule div_le_mono)
    then have "?c2 div ?K - ?E < 2 ^ 31"
      using assms(1) by (simp add: kCyclesPerMs_def)
    then have "time_reached (of_nat (?c2 div ?K)) (of_nat ?E)"
      using True by (intro time_reached_of_nat)
    then have "time_reached now (start + guard)" by (simp add: c2(1) assms(2))
    then show ?thesis by (subst wait_loop.simps) (auto simp: r t)
  next
    case False
    then have lt: "?c2 < ?E * ?K" by (simp add: less_mult_imp_div_less not_le div_less_iff_less_mult kCyclesPerMs_def)
    have "\<exists>ok m'. wait_loop b base start guard m2 = Some (ok, m')"
      using lt c1(1) c2(2) less.prems by (intro less.hyps) (linarith)+
    then show ?thesis by (subst wait_loop.simps) (auto simp: r t)
  qed
qed

lemma waitDone_returns:
  assumes "unat guard < 2 ^ 31 - 3"
  shows "\<exists>ok m'. waitDone b base guard m = Some (ok, m')"
proof -
  obtain start m1 where t: "mb_millis b m = (start, m1)" by fastforce
  have "millis b (mb_dev m) = (start, mb_dev m1)" using mb_millis_state [OF t] by simp
  note s = millis_reading(1) [OF this]
  let ?T = "cycles (mb_dev m1) div kCyclesPerMs"
  have "?T * kCyclesPerMs + cycles (mb_dev m1) mod kCyclesPerMs = cycles (mb_dev m1)"
    by simp
  moreover have "cycles (mb_dev m1) mod kCyclesPerMs < kCyclesPerMs"
    by (simp add: kCyclesPerMs_def)
  ultimately have "?T * kCyclesPerMs \<le> cycles (mb_dev m1)"
    "cycles (mb_dev m1) \<le> (?T + unat guard) * kCyclesPerMs + kCyclesPerMs"
    unfolding distrib_right by linarith+
  then show ?thesis
    using wait_loop_returns [OF assms s] by (simp add: waitDone_def t)
qed

end

interpretation modbus1: ticking_bus "wb_modbus_bus base" mc_cycles for base
  by unfold_locales
    (auto simp: wb_modbus_bus_def mc_rd_def mc_tick_def Let_def kCyclesPerMs_def)

text \<open>
  A blocking transaction returns, whatever the controller answers: the wait is over at the
  latest when the timer has passed the guard time, which has to stay below the half of the
  timer's range the comparison can tell.
\<close>

definition guard_ok :: "'d modbus \<Rightarrow> bool" where
  "guard_ok m = (unat (mb_timeout_ms m * (ucast (mb_retries m) + 1) + 50) < 2 ^ 31 - 3)"

context ticking_bus
begin

lemma runTransaction_total:
  assumes "guard_ok m"
  shows "\<exists>r. runTransaction b base slave func req m = Some r"
proof -
  let ?guard = "mb_timeout_ms m * (ucast (mb_retries m) + 1) + 50"
  obtain st m1 where st: "readReg b base REG_STATUS m = (st, m1)" by fastforce
  let ?m2 = "submit_request b base slave func req (m1\<lparr>last_exception_code := 0\<rparr>)"
  obtain d where "?m2 = m1\<lparr>last_exception_code := 0, mb_dev := d\<rparr>"
    using submit_request_dev [of b base slave func req "m1\<lparr>last_exception_code := 0\<rparr>"] by auto
  then have "mb_timeout_ms ?m2 = mb_timeout_ms m" "mb_retries ?m2 = mb_retries m"
    using readReg_state [OF st] by simp_all
  moreover obtain ok m3 where "waitDone b base ?guard ?m2 = Some (ok, m3)"
    using waitDone_returns assms unfolding guard_ok_def by blast
  ultimately show ?thesis
    by (cases ok; cases "collect_response b base slave func m3")
      (auto simp: runTransaction_def st Let_def)
qed

lemma write_transaction_total:
  assumes "guard_ok m"
  shows "\<exists>r. write_transaction b base slave func req m = Some r"
  using runTransaction_total [OF assms, of base slave func req]
  by (auto simp: write_transaction_def split: prod.splits)

lemma writes_total:
  assumes "guard_ok m"
  shows "\<exists>r. writeSingleCoil b base slave addr v m = Some r"
    and "\<exists>r. writeSingleRegister b base slave addr w m = Some r"
    and "\<exists>r. writeMultipleRegisters b base slave addr q vals m = Some r"
  using write_transaction_total [OF assms]
  by (auto simp: writeSingleCoil_def writeSingleCoilRaw_def writeSingleRegister_def
      writeMultipleRegisters_def Let_def split: option.splits)

end

definition deaf_controller :: modbus_ctl where
  "deaf_controller =
     \<lparr>mc_cycles = 0, mc_line = (\<lambda>_ _. ([], False)), mc_latency = (\<lambda>_. 10 ^ 9), mc_attempt = 0,
      mc_started = 0, mc_done_at = 0, mc_flags = 0, mc_slave = 0, mc_func = 0, mc_retry_max = 0,
      mc_tx_len = 0, mc_payload = [], mc_rx = [], mc_rx_idx = 0, mc_sent = []\<rparr>"

section \<open>A transaction over the controller\<close>

abbreviation modbus1_bus :: "modbus_ctl bus" where
  "modbus1_bus \<equiv> wb_modbus_bus MODBUS1_BASE"

definition after :: "nat \<Rightarrow> modbus_ctl \<Rightarrow> modbus_ctl" where
  "after n d = d\<lparr>mc_cycles := mc_cycles d + n\<rparr>"

lemma after_fields [simp]:
  "mc_cycles (after n d) = mc_cycles d + n" "mc_flags (after n d) = mc_flags d"
  "mc_done_at (after n d) = mc_done_at d" "mc_rx (after n d) = mc_rx d"
  "mc_rx_idx (after n d) = mc_rx_idx d" "mc_payload (after n d) = mc_payload d"
  "mc_tx_len (after n d) = mc_tx_len d" "mc_line (after n d) = mc_line d"
  "mc_attempt (after n d) = mc_attempt d" "mc_sent (after n d) = mc_sent d"
  by (simp_all add: after_def)

lemma after_after [simp]: "after k (after n d) = after (n + k) d"
  by (simp add: after_def add.assoc)

lemma mc_tick_after: "mc_tick d = after 1 d"
  by (simp add: mc_tick_def after_def)

lemma not_busy_after: "\<not> mc_busy d \<Longrightarrow> \<not> mc_busy (after n d)"
  by (simp add: mc_busy_def)

text \<open>The register accesses of the driver at the base address of the controller.\<close>

lemma modbus1_reads:
  "readReg modbus1_bus MODBUS1_BASE REG_STATUS m =
     (if mc_busy (after 1 (mb_dev m)) then STATUS_BUSY else mc_flags (mb_dev m),
      m\<lparr>mb_dev := after 1 (mb_dev m)\<rparr>)"
  "readReg modbus1_bus MODBUS1_BASE REG_RX_LEN m =
     (if mc_busy (after 1 (mb_dev m)) then 0 else of_nat (length (mc_rx (mb_dev m))),
      m\<lparr>mb_dev := after 1 (mb_dev m)\<rparr>)"
  "mb_millis modbus1_bus m =
     (of_nat (Suc (mc_cycles (mb_dev m)) div kCyclesPerMs), m\<lparr>mb_dev := after 1 (mb_dev m)\<rparr>)"
  by (simp_all add: readReg_def mb_millis_def millis_def wb_modbus_bus_def mc_rd_def mc_tick_after
      Let_def modbus_regs MODBUS1_BASE_def TIMER_MS_def)

lemma modbus1_writes:
  "mb_dev (writeReg modbus1_bus MODBUS1_BASE REG_CONTROL v m) =
     mc_control v (after 1 (mb_dev m))"
  "mb_dev (writeReg modbus1_bus MODBUS1_BASE REG_RETRY v m) =
     (after 1 (mb_dev m))\<lparr>mc_retry_max := unat (v AND 0xFF)\<rparr>"
  "mb_dev (writeReg modbus1_bus MODBUS1_BASE REG_SLAVE_FUNC v m) =
     (after 1 (mb_dev m))\<lparr>mc_slave := ucast (drop_bit 8 v), mc_func := ucast v\<rparr>"
  "mb_dev (writeReg modbus1_bus MODBUS1_BASE REG_RX_LEN v m) =
     (after 1 (mb_dev m))\<lparr>mc_rx_idx := 0\<rparr>"
  "\<not> mc_busy (mb_dev m) \<Longrightarrow> mb_dev (writeReg modbus1_bus MODBUS1_BASE REG_TX_LEN v m) =
     (after 1 (mb_dev m))\<lparr>mc_tx_len := min (unat (v AND 0xFF)) kMaxDataBytes, mc_payload := []\<rparr>"
  "\<not> mc_busy (mb_dev m) \<Longrightarrow> length (mc_payload (mb_dev m)) < mc_tx_len (mb_dev m) \<Longrightarrow>
     mb_dev (writeReg modbus1_bus MODBUS1_BASE REG_TX_DATA v m) =
     (after 1 (mb_dev m))\<lparr>mc_payload := mc_payload (mb_dev m) @ [ucast v]\<rparr>"
  using not_busy_after [of "mb_dev m" 1]
  by (simp_all add: writeReg_def wb_modbus_bus_def mc_wr_def mc_tick_after Let_def modbus_regs)

lemma write_tx_modbus1:
  assumes "\<not> mc_busy (mb_dev m)"
    and "length (mc_payload (mb_dev m)) + length xs \<le> mc_tx_len (mb_dev m)"
  shows "mb_dev (write_tx modbus1_bus MODBUS1_BASE xs m) =
     (after (length xs) (mb_dev m))\<lparr>mc_payload := mc_payload (mb_dev m) @ xs\<rparr>"
  using assms
proof (induction xs arbitrary: m)
  case Nil
  then show ?case by (simp add: after_def)
next
  case (Cons x xs)
  let ?m1 = "writeReg modbus1_bus MODBUS1_BASE REG_TX_DATA (ucast x) m"
  have d1: "mb_dev ?m1 = (after 1 (mb_dev m))\<lparr>mc_payload := mc_payload (mb_dev m) @ [x]\<rparr>"
    using Cons.prems by (subst modbus1_writes(6)) simp_all
  have "mb_dev (write_tx modbus1_bus MODBUS1_BASE xs ?m1) =
     (after (length xs) (mb_dev ?m1))\<lparr>mc_payload := mc_payload (mb_dev ?m1) @ xs\<rparr>"
    using Cons.prems by (intro Cons.IH) (simp_all add: d1 mc_busy_def)
  then show ?case by (simp add: d1 after_def)
qed

section \<open>Status flags\<close>

lemma status_flag_bits:
  "w AND STATUS_BUSY = 0 \<longleftrightarrow> \<not> bit w 0" "w AND STATUS_DONE = 0 \<longleftrightarrow> \<not> bit w 1"
  "w AND STATUS_SUCCESS = 0 \<longleftrightarrow> \<not> bit w 2" "w AND STATUS_TIMEOUT = 0 \<longleftrightarrow> \<not> bit w 3"
  "w AND STATUS_CRC_ERROR = 0 \<longleftrightarrow> \<not> bit w 4" "w AND STATUS_FRAME_ERROR = 0 \<longleftrightarrow> \<not> bit w 5"
  "w AND STATUS_EXCEPTION = 0 \<longleftrightarrow> \<not> bit w 6"
  using and_exp_eq_0_iff_not_bit [of w 0] and_exp_eq_0_iff_not_bit [of w 1]
    and_exp_eq_0_iff_not_bit [of w 2] and_exp_eq_0_iff_not_bit [of w 3]
    and_exp_eq_0_iff_not_bit [of w 4] and_exp_eq_0_iff_not_bit [of w 5]
    and_exp_eq_0_iff_not_bit [of w 6]
  by (simp_all add: modbus_bits)

lemma status_bit_tests:
  "bit STATUS_DONE n \<longleftrightarrow> n = 1" "bit STATUS_SUCCESS n \<longleftrightarrow> n = 2"
  "bit STATUS_TIMEOUT n \<longleftrightarrow> n = 3" "bit STATUS_CRC_ERROR n \<longleftrightarrow> n = 4"
  "bit STATUS_FRAME_ERROR n \<longleftrightarrow> n = 5" "bit STATUS_EXCEPTION n \<longleftrightarrow> n = 6"
  "bit STATUS_RX_OVERFLOW n \<longleftrightarrow> n = 7"
proof -
  have p: "bit ((2 :: u32) ^ k) n \<longleftrightarrow> n = k" if "k < 32" for k
    using that by (auto simp: bit_exp_iff)
  show "bit STATUS_DONE n \<longleftrightarrow> n = 1" "bit STATUS_SUCCESS n \<longleftrightarrow> n = 2"
    "bit STATUS_TIMEOUT n \<longleftrightarrow> n = 3" "bit STATUS_CRC_ERROR n \<longleftrightarrow> n = 4"
    "bit STATUS_FRAME_ERROR n \<longleftrightarrow> n = 5" "bit STATUS_EXCEPTION n \<longleftrightarrow> n = 6"
    "bit STATUS_RX_OVERFLOW n \<longleftrightarrow> n = 7"
    using p [of 1] p [of 2] p [of 3] p [of 4] p [of 5] p [of 6] p [of 7]
    by (simp_all add: modbus_bits)
qed

lemma judge_rejected:
  "judge slave func answer = Rejected f \<Longrightarrow> f \<in> {STATUS_TIMEOUT, STATUS_CRC_ERROR, STATUS_FRAME_ERROR}"
  by (auto simp: judge_def Let_def split: prod.splits if_splits)

lemma attempts_flags:
  assumes "attempts line slave func wire k left flags = (flags', frame, k')" "\<not> bit flags 0"
  shows "bit flags' 1" "\<not> bit flags' 0" "length frame \<le> kMaxFrameBytes"
proof -
  have "bit flags' 1 \<and> \<not> bit flags' 0 \<and> length frame \<le> kMaxFrameBytes"
    using assms
  proof (induction line slave func wire k left flags arbitrary: flags' frame k' rule: attempts.induct)
    case (1 line slave func wire k left flags)
    note ih = "1.IH"
    let ?a = "line k wire"
    let ?fl = "flags OR (if kMaxFrameBytes < length (fst ?a) then STATUS_RX_OVERFLOW else 0)"
    have b0: "\<not> bit ?fl 0" using "1.prems"(2) by (simp add: bit_simps status_bit_tests)
    show ?case
    proof (cases "judge slave func ?a")
      case (Rejected f)
      then have nf: "\<not> bit f 0" using judge_rejected [OF Rejected] by (auto simp: status_bit_tests)
      show ?thesis
      proof (cases left)
        case 0
        then show ?thesis using "1.prems"(1) Rejected nf b0
          by (subst (asm) attempts.simps) (auto simp: Let_def bit_or_iff status_bit_tests)
      next
        case (Suc n)
        have "attempts line slave func wire (Suc k) n (?fl OR f) = (flags', frame, k')"
          using "1.prems"(1) Rejected Suc by (subst (asm) attempts.simps) (simp add: Let_def)
        then show ?thesis
          using ih [OF refl refl refl Rejected Suc] nf b0 by (simp add: bit_or_iff)
      qed
    qed (use "1.prems"(1) b0 in \<open>(subst (asm) attempts.simps,
          auto simp: Let_def bit_or_iff status_bit_tests)+\<close>)
  qed
  then show "bit flags' 1" "\<not> bit flags' 0" "length frame \<le> kMaxFrameBytes" by simp_all
qed

section \<open>The transaction\<close>

text \<open>The wire frame and the controller state the request is started in.\<close>

definition wire_frame :: "u8 \<Rightarrow> u8 \<Rightarrow> u8 list \<Rightarrow> u8 list" where
  "wire_frame slave func req = (let body = slave # func # req in body @ le16 (crc16 body))"

definition loaded :: "u8 \<Rightarrow> u8 \<Rightarrow> u8 list \<Rightarrow> nat \<Rightarrow> modbus_ctl \<Rightarrow> modbus_ctl" where
  "loaded slave func req retries d =
     (after (5 + length req) d)\<lparr>mc_flags := 0, mc_retry_max := retries, mc_slave := slave,
        mc_func := func, mc_tx_len := length req, mc_payload := req\<rparr>"

lemma slave_func_fields:
  fixes slave func :: u8
  shows "ucast (drop_bit 8 (push_bit 8 (ucast slave) OR ucast func :: u32)) = slave"
    and "ucast (push_bit 8 (ucast slave) OR ucast func :: u32) = func"
  by (rule bit_word_eqI, auto simp: bit_simps dest: bit_imp_le_length)+

lemma byte_and_mask: "ucast (x :: u8) AND 0xFF = (ucast x :: u32)"
proof -
  have m: "(0xFF :: u32) = mask 8" by (simp add: mask_eq_exp_minus_1)
  show ?thesis unfolding m by (rule bit_word_eqI) (auto simp: bit_simps dest: bit_imp_le_length)
qed

lemma submit_request_modbus1:
  assumes "\<not> mc_busy (mb_dev m)" and "length req \<le> kMaxDataBytes"
  shows "mb_dev (submit_request modbus1_bus MODBUS1_BASE slave func req m) =
     mc_start (loaded slave func req (unat (mb_retries m)) (mb_dev m))"
proof -
  let ?B = MODBUS1_BASE and ?b = modbus1_bus
  let ?m1 = "writeReg ?b ?B REG_CONTROL CTRL_CLEAR_STATUS m"
  let ?m2 = "writeReg ?b ?B REG_RETRY (ucast (mb_retries ?m1)) ?m1"
  let ?m3 = "writeReg ?b ?B REG_SLAVE_FUNC (push_bit 8 (ucast slave) OR ucast func) ?m2"
  let ?m4 = "writeReg ?b ?B REG_TX_LEN (of_nat (length req)) ?m3"
  let ?d = "mb_dev m"
  have d1: "mb_dev ?m1 = (after 1 ?d)\<lparr>mc_flags := 0\<rparr>"
    by (simp add: modbus1_writes mc_control_def modbus_bits)
  have r: "mb_retries ?m1 = mb_retries m" by (simp add: writeReg_def)
  have byte: "ucast (mb_retries m) AND 0xFF = (ucast (mb_retries m) :: u32)"
    by (rule byte_and_mask)
  have d2: "mb_dev ?m2 = (after 2 ?d)\<lparr>mc_flags := 0, mc_retry_max := unat (mb_retries m)\<rparr>"
    unfolding modbus1_writes(2) d1 r byte by (simp add: after_def)
  have d3: "mb_dev ?m3 = (after 3 ?d)\<lparr>mc_flags := 0, mc_retry_max := unat (mb_retries m),
      mc_slave := slave, mc_func := func\<rparr>"
    unfolding modbus1_writes(3) d2 slave_func_fields by (simp add: after_def)
  have len: "min (unat (of_nat (length req) AND 0xFF :: u32)) kMaxDataBytes = length req"
  proof -
    have "(of_nat (length req) :: u32) = ucast (of_nat (length req) :: u8)"
      using assms(2) by (simp add: word_unat_eq_iff unat_of_nat kMaxDataBytes_def)
    then have "(of_nat (length req) AND 0xFF :: u32) = of_nat (length req)"
      by (simp only: byte_and_mask)
    then show ?thesis using assms(2) by (simp add: kMaxDataBytes_def unat_of_nat)
  qed
  have nb: "\<not> mc_busy (mb_dev ?m3)" using assms(1) by (simp add: d3 mc_busy_def)
  have d4: "mb_dev ?m4 = (after 4 ?d)\<lparr>mc_flags := 0, mc_retry_max := unat (mb_retries m),
      mc_slave := slave, mc_func := func, mc_tx_len := length req, mc_payload := []\<rparr>"
    unfolding modbus1_writes(5) [OF nb] len by (simp add: d3 after_def)
  have d5: "mb_dev (write_tx ?b ?B req ?m4) =
      (after (4 + length req) ?d)\<lparr>mc_flags := 0, mc_retry_max := unat (mb_retries m),
      mc_slave := slave, mc_func := func, mc_tx_len := length req, mc_payload := req\<rparr>"
    using assms(1) by (subst write_tx_modbus1) (simp_all add: d4 mc_busy_def after_def)
  have d6: "after 1 (mb_dev (write_tx ?b ?B req ?m4)) =
      loaded slave func req (unat (mb_retries m)) ?d"
    by (simp add: d5 loaded_def after_def)
  have "\<not> mc_busy (loaded slave func req (unat (mb_retries m)) ?d)"
    using assms(1) by (simp add: loaded_def mc_busy_def)
  then show ?thesis
    unfolding submit_request_def Let_def modbus1_writes(1) d6
    by (simp add: mc_control_def modbus_bits Let_def)
qed

lemma wait_loop_modbus1:
  assumes "unat guard < 2 ^ 31" and "start = of_nat T"
    and "mc_done_at (mb_dev m) div kCyclesPerMs < T + unat guard"
    and "T * kCyclesPerMs \<le> mc_cycles (mb_dev m)" and "bit (mc_flags (mb_dev m)) 1"
  shows "\<exists>n. wait_loop modbus1_bus MODBUS1_BASE start guard m =
      Some (True, m\<lparr>mb_dev := after n (mb_dev m)\<rparr>) \<and>
      mc_done_at (mb_dev m) \<le> mc_cycles (mb_dev m) + n"
  using assms(3-)
proof (induction "mc_done_at (mb_dev m) - mc_cycles (mb_dev m)" arbitrary: m rule: less_induct)
  case less
  let ?d = "mb_dev m"
  show ?case
  proof (cases "mc_busy (after 1 ?d)")
    case False
    then have "wait_loop modbus1_bus MODBUS1_BASE start guard m =
        Some (True, m\<lparr>mb_dev := after 1 ?d\<rparr>)"
      using less.prems(3)
      by (subst wait_loop.simps) (simp add: modbus1_reads status_flag_bits)
    then show ?thesis using False by (intro exI [of _ 1]) (simp add: mc_busy_def)
  next
    case True
    let ?m2 = "m\<lparr>mb_dev := after 2 ?d\<rparr>"
    let ?t = "(mc_cycles ?d + 2) div kCyclesPerMs"
    have "?t \<le> mc_done_at ?d div kCyclesPerMs"
      using True by (intro div_le_mono) (simp add: mc_busy_def)
    then have "?t < T + unat guard" using less.prems(1) by simp
    moreover have "T \<le> ?t"
      using less.prems(2) by (simp add: less_eq_div_iff_mult_less_eq kCyclesPerMs_def)
    ultimately have "\<not> time_reached (of_nat ?t) (of_nat (T + unat guard))"
      using assms(1) by (intro not_time_reached_of_nat) simp_all
    then have nr: "\<not> time_reached (of_nat ?t) (start + guard)" by (simp add: assms(2))
    have "wait_loop modbus1_bus MODBUS1_BASE start guard m =
        wait_loop modbus1_bus MODBUS1_BASE start guard ?m2"
      using nr True by (subst wait_loop.simps)
        (simp add: modbus1_reads modbus_bits eval_nat_numeral)
    moreover have "\<exists>n. wait_loop modbus1_bus MODBUS1_BASE start guard ?m2 =
        Some (True, ?m2\<lparr>mb_dev := after n (mb_dev ?m2)\<rparr>) \<and>
        mc_done_at (mb_dev ?m2) \<le> mc_cycles (mb_dev ?m2) + n"
      using less.prems True by (intro less.hyps) (simp_all add: mc_busy_def)
    then obtain n where "wait_loop modbus1_bus MODBUS1_BASE start guard ?m2 =
        Some (True, m\<lparr>mb_dev := after (n + 2) ?d\<rparr>)"
      "mc_done_at ?d \<le> mc_cycles ?d + (n + 2)" by (auto simp: add.commute)
    ultimately show ?thesis by metis
  qed
qed

lemma read_rx_modbus1:
  assumes "\<not> mc_busy (mb_dev m)" and "mc_rx_idx (mb_dev m) + n \<le> length (mc_rx (mb_dev m))"
  shows "read_rx modbus1_bus MODBUS1_BASE n m =
    (take n (drop (mc_rx_idx (mb_dev m)) (mc_rx (mb_dev m))),
     m\<lparr>mb_dev := (after n (mb_dev m))\<lparr>mc_rx_idx := mc_rx_idx (mb_dev m) + n\<rparr>\<rparr>)"
  using assms
proof (induction n arbitrary: m)
  case 0
  then show ?case by (simp add: after_def)
next
  case (Suc n)
  let ?d = "mb_dev m" and ?i = "mc_rx_idx (mb_dev m)"
  let ?m1 = "m\<lparr>mb_dev := (after 1 ?d)\<lparr>mc_rx_idx := Suc ?i\<rparr>\<rparr>"
  have r: "readReg modbus1_bus MODBUS1_BASE REG_RX_DATA m = (ucast (mc_rx ?d ! ?i), ?m1)"
    using Suc.prems not_busy_after [of ?d 1]
    by (simp add: readReg_def wb_modbus_bus_def mc_rd_def mc_tick_after Let_def modbus_regs
        MODBUS1_BASE_def TIMER_MS_def)
  have "read_rx modbus1_bus MODBUS1_BASE n ?m1 = (take n (drop (Suc ?i) (mc_rx ?d)),
      m\<lparr>mb_dev := (after (Suc n) ?d)\<lparr>mc_rx_idx := ?i + Suc n\<rparr>\<rparr>)"
    using Suc.prems by (subst Suc.IH) (simp_all add: mc_busy_def after_def)
  moreover have "take (Suc n) (drop ?i (mc_rx ?d)) = mc_rx ?d ! ?i # take n (drop (Suc ?i) (mc_rx ?d))"
    using Suc.prems by (simp add: Cons_nth_drop_Suc [symmetric])
  ultimately show ?case by (simp add: r byte_and_mask)
qed

text \<open>What the driver makes of the flags and the frame.\<close>

definition transaction_error :: "u8 \<Rightarrow> u8 \<Rightarrow> u32 \<Rightarrow> u8 list \<Rightarrow> modbus_error" where
  "transaction_error slave func flags frame =
     (if frame_mismatch slave func frame then ErrResponseMismatch
      else if bit flags 2 then ErrNone else error_of_status flags)"

lemma rx_len_value:
  assumes "n \<le> kMaxFrameBytes"
  shows "min (unat ((of_nat n :: u32) AND 0x1FF)) kMaxFrameBytes = n"
proof -
  have m: "(0x1FF :: u32) = mask 9" by (simp add: mask_eq_exp_minus_1)
  have "take_bit 9 n = n"
    using assms by (simp add: kMaxFrameBytes_def take_bit_nat_eq_self_iff)
  then have "(of_nat n :: u32) AND 0x1FF = of_nat n"
    unfolding m by (simp add: take_bit_of_nat flip: take_bit_eq_mask)
  then show ?thesis using assms by (simp add: kMaxFrameBytes_def unat_of_nat)
qed

text \<open>The controller ready for a request, and the request in time for the driver's guard.\<close>

definition mc_idle :: "modbus_ctl \<Rightarrow> bool" where
  "mc_idle d = (\<not> mc_busy d \<and> \<not> bit (mc_flags d) 0)"

definition in_time :: "modbus_ctl modbus \<Rightarrow> bool" where
  "in_time m =
     (let guard = unat (mb_timeout_ms m * (ucast (mb_retries m) + 1) + 50); d = mb_dev m
      in guard < 2 ^ 31 \<and> mc_latency d (mc_started d) + kCyclesPerMs \<le> guard * kCyclesPerMs)"

lemma collect_response_modbus1:
  assumes "\<not> mc_busy (mb_dev m)" and "length (mc_rx (mb_dev m)) \<le> kMaxFrameBytes"
    and "mc_rx_idx (mb_dev m) = 0"
  shows "\<exists>m'. collect_response modbus1_bus MODBUS1_BASE slave func m =
      (transaction_error slave func (mc_flags (mb_dev m)) (mc_rx (mb_dev m)) = ErrNone,
       mc_rx (mb_dev m), m') \<and>
    last_error m' = transaction_error slave func (mc_flags (mb_dev m)) (mc_rx (mb_dev m)) \<and>
    last_exception_code m' =
      (if \<not> bit (mc_flags (mb_dev m)) 2 \<and> error_of_status (mc_flags (mb_dev m)) = ErrHwException \<and>
          5 \<le> length (mc_rx (mb_dev m)) then mc_rx (mb_dev m) ! 2 else last_exception_code m) \<and>
    mb_dev m' = (after (2 + length (mc_rx (mb_dev m))) (mb_dev m))
      \<lparr>mc_rx_idx := length (mc_rx (mb_dev m))\<rparr>"
proof -
  let ?d = "mb_dev m" and ?len = "length (mc_rx (mb_dev m))"
  let ?flags = "mc_flags ?d" and ?rx = "mc_rx ?d"
  let ?err = "if bit ?flags 2 then ErrNone else error_of_status ?flags"
  let ?m1 = "m\<lparr>mb_dev := after 1 ?d, last_hw_status := ?flags, last_error := ?err\<rparr>"
  let ?m2 = "?m1\<lparr>mb_dev := after 2 ?d\<rparr>"
  let ?m3 = "?m1\<lparr>mb_dev := (after (2 + ?len) ?d)\<lparr>mc_rx_idx := ?len\<rparr>\<rparr>"
  have nb: "\<not> mc_busy (after 1 ?d)" "\<not> mc_busy (after 2 ?d)"
    using assms(1) by (simp_all add: not_busy_after)
  have r1: "readReg modbus1_bus MODBUS1_BASE REG_STATUS m = (?flags, m\<lparr>mb_dev := after 1 ?d\<rparr>)"
    using nb by (simp add: modbus1_reads)
  have e1: "(if ?flags AND STATUS_SUCCESS = 0
      then setLastErrorFromStatus ?flags (m\<lparr>mb_dev := after 1 ?d, last_hw_status := ?flags\<rparr>)
      else m\<lparr>mb_dev := after 1 ?d, last_hw_status := ?flags, last_error := ErrNone\<rparr>) = ?m1"
    by (simp add: setLastErrorFromStatus_def status_flag_bits)
  have r2: "readReg modbus1_bus MODBUS1_BASE REG_RX_LEN ?m1 = (of_nat ?len, ?m2)"
    using nb by (simp add: modbus1_reads numeral_2_eq_2)
  have r3: "read_rx modbus1_bus MODBUS1_BASE ?len ?m2 = (?rx, ?m3)"
    using nb assms(3) by (subst read_rx_modbus1) simp_all
  let ?m4 = "if ?err = ErrHwException \<and> 5 \<le> ?len then ?m3\<lparr>last_exception_code := ?rx ! 2\<rparr> else ?m3"
  let ?m5 = "if frame_mismatch slave func ?rx then ?m4\<lparr>last_error := ErrResponseMismatch\<rparr> else ?m4"
  have "collect_response modbus1_bus MODBUS1_BASE slave func m = (last_error ?m5 = ErrNone, ?rx, ?m5)"
    unfolding collect_response_def Let_def r1 split e1 r2 rx_len_value [OF assms(2)] r3
    by simp
  then show ?thesis by (auto simp: transaction_error_def)
qed

lemma mc_start_loaded:
  assumes "attempts (mc_line d) slave func (wire_frame slave func req) (mc_attempt d) retries 0 =
    (flags, frame, k)"
  shows "mc_start (loaded slave func req retries d) =
    (loaded slave func req retries d)\<lparr>mc_flags := flags, mc_rx := frame, mc_rx_idx := 0,
       mc_attempt := k, mc_done_at := mc_cycles d + 5 + length req + mc_latency d (mc_started d),
       mc_started := Suc (mc_started d), mc_sent := mc_sent d @ [wire_frame slave func req]\<rparr>"
  using assms
  by (simp add: mc_start_def loaded_def mc_wire_def wire_frame_def after_def Let_def)

lemma waitDone_modbus1:
  assumes "mc_done_at (mb_dev m) + kCyclesPerMs \<le> mc_cycles (mb_dev m) + unat guard * kCyclesPerMs"
    and "unat guard < 2 ^ 31" and "bit (mc_flags (mb_dev m)) 1"
    and "mc_cycles (mb_dev m) \<le> mc_done_at (mb_dev m)"
  shows "\<exists>n. waitDone modbus1_bus MODBUS1_BASE guard m =
      Some (True, m\<lparr>mb_dev := after n (mb_dev m)\<rparr>) \<and> \<not> mc_busy (after n (mb_dev m))"
proof -
  let ?K = kCyclesPerMs and ?d = "mb_dev m"
  let ?T = "Suc (mc_cycles ?d) div ?K" and ?m1 = "m\<lparr>mb_dev := after 1 ?d\<rparr>"
  have g: "0 < unat guard" using assms(1,4) by (cases "unat guard") (auto simp: kCyclesPerMs_def)
  have "mc_done_at ?d \<le> Suc (mc_cycles ?d) + (unat guard - 1) * ?K"
    using assms(1) g by (simp add: diff_mult_distrib)
  then have "mc_done_at ?d div ?K \<le> (Suc (mc_cycles ?d) + (unat guard - 1) * ?K) div ?K"
    by (rule div_le_mono)
  also have "\<dots> = ?T + (unat guard - 1)" by (simp add: kCyclesPerMs_def)
  finally have lt: "mc_done_at ?d div ?K < ?T + unat guard" using g by simp
  have "\<exists>n. wait_loop modbus1_bus MODBUS1_BASE (of_nat ?T) guard ?m1 =
      Some (True, ?m1\<lparr>mb_dev := after n (mb_dev ?m1)\<rparr>) \<and>
      mc_done_at (mb_dev ?m1) \<le> mc_cycles (mb_dev ?m1) + n"
    by (rule wait_loop_modbus1 [OF assms(2) refl]) (use lt assms(3) in simp_all)
  then obtain n where "wait_loop modbus1_bus MODBUS1_BASE (of_nat ?T) guard ?m1 =
      Some (True, m\<lparr>mb_dev := after (Suc n) ?d\<rparr>)" "mc_done_at ?d \<le> mc_cycles ?d + Suc n" by auto
  then show ?thesis
    by (intro exI [of _ "Suc n"]) (simp add: waitDone_def modbus1_reads mc_busy_def)
qed

lemma runTransaction_modbus1:
  assumes "mc_idle (mb_dev m)" and "length req \<le> kMaxDataBytes" and "in_time m"
    and att: "attempts (mc_line (mb_dev m)) slave func (wire_frame slave func req)
      (mc_attempt (mb_dev m)) (unat (mb_retries m)) 0 = (flags, frame, k)"
  obtains m' where
    "runTransaction modbus1_bus MODBUS1_BASE slave func req m =
       Some (transaction_error slave func flags frame = ErrNone, frame, m')"
    "last_error m' = transaction_error slave func flags frame"
    "last_exception_code m' =
       (if \<not> bit flags 2 \<and> error_of_status flags = ErrHwException \<and> 5 \<le> length frame
        then frame ! 2 else 0)"
    "mc_sent (mb_dev m') = mc_sent (mb_dev m) @ [wire_frame slave func req]"
    "mc_idle (mb_dev m')"
proof -
  let ?b = modbus1_bus and ?B = MODBUS1_BASE and ?d = "mb_dev m"
  let ?guard = "mb_timeout_ms m * (ucast (mb_retries m) + 1) + 50"
  let ?m1 = "m\<lparr>mb_dev := after 1 ?d, last_exception_code := 0\<rparr>"
  define m2 where "m2 = submit_request ?b ?B slave func req ?m1"
  define d2 where "d2 = (loaded slave func req (unat (mb_retries m)) (after 1 ?d))\<lparr>mc_flags := flags,
      mc_rx := frame, mc_rx_idx := 0, mc_attempt := k,
      mc_done_at := mc_cycles (after 1 ?d) + 5 + length req +
         mc_latency (after 1 ?d) (mc_started (after 1 ?d)),
      mc_started := Suc (mc_started (after 1 ?d)),
      mc_sent := mc_sent (after 1 ?d) @ [wire_frame slave func req]\<rparr>"
  have nb: "\<not> mc_busy ?d" "\<not> mc_busy (after 1 ?d)"
    using assms(1) by (simp_all add: mc_idle_def not_busy_after)
  have st: "readReg ?b ?B REG_STATUS m = (mc_flags ?d, m\<lparr>mb_dev := after 1 ?d\<rparr>)"
    using nb by (simp add: modbus1_reads)
  have b0: "mc_flags ?d AND STATUS_BUSY = 0"
    using assms(1) by (simp add: mc_idle_def status_flag_bits)
  obtain d where "m2 = ?m1\<lparr>mb_dev := d\<rparr>"
    unfolding m2_def by (rule exE [OF submit_request_dev])
  then have keep: "mb_timeout_ms m2 = mb_timeout_ms m" "mb_retries m2 = mb_retries m"
    "last_exception_code m2 = 0" by simp_all
  note fl = attempts_flags [OF att]
  have "mb_dev m2 = mc_start (loaded slave func req (unat (mb_retries ?m1)) (mb_dev ?m1))"
    unfolding m2_def by (rule submit_request_modbus1) (use nb assms(2) in simp_all)
  also have "\<dots> = mc_start (loaded slave func req (unat (mb_retries m)) (after 1 ?d))" by simp
  also have "\<dots> = d2"
    unfolding d2_def by (rule mc_start_loaded) (use att in simp)
  finally have d2: "mb_dev m2 = d2" .
  have ready: "mc_done_at d2 + kCyclesPerMs \<le> mc_cycles d2 + unat ?guard * kCyclesPerMs"
    "unat ?guard < 2 ^ 31" "bit (mc_flags d2) 1" "mc_cycles d2 \<le> mc_done_at d2"
    using assms(3) fl by (simp_all add: d2_def in_time_def loaded_def after_def Let_def)
  have dev: "mc_flags d2 = flags" "mc_rx d2 = frame" "mc_rx_idx d2 = 0"
    "mc_sent d2 = mc_sent ?d @ [wire_frame slave func req]"
    by (simp_all add: d2_def loaded_def)
  obtain n where w: "waitDone ?b ?B ?guard m2 = Some (True, m2\<lparr>mb_dev := after n d2\<rparr>)"
    and nb2: "\<not> mc_busy (after n d2)"
    using waitDone_modbus1 [of m2 ?guard] ready unfolding d2 by blast
  let ?m3 = "m2\<lparr>mb_dev := after n d2\<rparr>"
  have "\<exists>m'. collect_response ?b ?B slave func ?m3 =
      (transaction_error slave func flags frame = ErrNone, frame, m') \<and>
      last_error m' = transaction_error slave func flags frame \<and>
      last_exception_code m' = (if \<not> bit flags 2 \<and> error_of_status flags = ErrHwException \<and>
          5 \<le> length frame then frame ! 2 else 0) \<and>
      mb_dev m' = (after (2 + length frame) (after n d2))\<lparr>mc_rx_idx := length frame\<rparr>"
    using collect_response_modbus1 [of ?m3 slave func] fl(3) nb2 keep(3) by (simp add: dev cong: if_cong)
  then obtain m' where c: "collect_response ?b ?B slave func ?m3 =
      (transaction_error slave func flags frame = ErrNone, frame, m')"
    "last_error m' = transaction_error slave func flags frame"
    "last_exception_code m' = (if \<not> bit flags 2 \<and> error_of_status flags = ErrHwException \<and>
          5 \<le> length frame then frame ! 2 else 0)"
    "mb_dev m' = (after (2 + length frame) (after n d2))\<lparr>mc_rx_idx := length frame\<rparr>" by blast
  have sub: "submit_request ?b ?B slave func req (m\<lparr>mb_dev := after (Suc 0) ?d,
      last_exception_code := 0\<rparr>) = m2" by (simp add: m2_def)
  have "runTransaction ?b ?B slave func req m =
      Some (transaction_error slave func flags frame = ErrNone, frame, m')"
    using assms(2) b0 by (simp add: runTransaction_def st sub keep(1,2) w c(1) Let_def)
  moreover have "mc_sent (mb_dev m') = mc_sent ?d @ [wire_frame slave func req]"
    by (simp add: c(4) dev)
  moreover have "mc_idle (mb_dev m')"
    using nb2 fl(2) by (simp add: c(4) mc_idle_def mc_busy_def dev)
  ultimately show ?thesis using that c(2,3) by blast
qed

section \<open>Reading registers\<close>

text \<open>The answer of a slave that holds the values: the frame the protocol prescribes.\<close>

definition crc_frame :: "u8 list \<Rightarrow> u8 list" where
  "crc_frame body = body @ le16 (crc16 body)"

definition register_reply :: "u8 \<Rightarrow> u8 \<Rightarrow> u16 list \<Rightarrow> u8 list" where
  "register_reply slave func vals =
     crc_frame (slave # func # of_nat (length vals * 2) # concat (map be16 vals))"

lemma length_be16s [simp]: "length (concat (map be16 vals)) = 2 * length vals"
  by (induction vals) (simp_all add: be16_def)

lemma nth_be16s:
  "i < length vals \<Longrightarrow> concat (map be16 vals) ! (i * 2) = ucast (drop_bit 8 (vals ! i))"
  "i < length vals \<Longrightarrow> concat (map be16 vals) ! (i * 2 + 1) = ucast (vals ! i)"
proof (induction vals arbitrary: i)
  case (Cons v vs)
  { case 1 then show ?case using Cons.IH(1) [of "i - 1"]
      by (cases i) (simp_all add: be16_def) }
  { case 2 then show ?case using Cons.IH(2) [of "i - 1"]
      by (cases i) (simp_all add: be16_def) }
qed simp_all

lemma be16_value:
  "push_bit 8 (ucast (ucast (drop_bit 8 v) :: u8)) OR ucast (ucast v :: u8) = (v :: u16)"
  by (rule bit_word_eqI) (auto simp: bit_simps dest: bit_imp_le_length)

lemma function_code_bits:
  fixes func :: u8
  assumes "\<not> bit func 7"
  shows "func AND 0x7F = func" "func \<noteq> func OR 0x80"
proof -
  have m: "(0x7F :: u8) = mask 7" by (simp add: mask_eq_exp_minus_1)
  show "func AND 0x7F = func" unfolding m
  proof (rule bit_word_eqI)
    fix n assume "n < LENGTH(8)"
    then show "bit (func AND mask 7) n = bit func n"
      using assms by (cases "n = 7") (auto simp: bit_simps)
  qed
  have "bit (0x80 :: u8) 7" by simp
  then show "func \<noteq> func OR 0x80" using assms by (metis bit_or_iff)
qed

lemma judge_crc_frame:
  assumes "2 \<le> length body" "length body \<le> 254" "\<not> bit func 7"
    and "body ! 0 = slave" "body ! 1 = func"
  shows "judge slave func (crc_frame body, True) = Accepted"
  using assms function_code_bits [OF assms(3)] crc16_residue [of body]
  by (auto simp: judge_def crc_frame_def kMaxFrameBytes_def nth_append Let_def)

text \<open>An accepted attempt ends the transaction after any number of rejected ones.\<close>

lemma attempts_accepted:
  assumes "\<And>i. i < j \<Longrightarrow> \<exists>f. judge slave func (line (k + i) wire) = Rejected f"
    and "j \<le> left" and "judge slave func (line (k + j) wire) = Accepted"
  shows "\<exists>flags'. bit flags' 2 \<and> attempts line slave func wire k left flags =
    (flags', take kMaxFrameBytes (fst (line (k + j) wire)), Suc (k + j))"
  using assms
proof (induction j arbitrary: k left flags)
  case 0
  then show ?case
    by (subst attempts.simps) (simp add: Let_def bit_or_iff status_bit_tests)
next
  case (Suc j)
  obtain f where f: "judge slave func (line k wire) = Rejected f" using Suc.prems(1) [of 0] by auto
  obtain left' where left: "left = Suc left'" using Suc.prems(2) by (cases left) auto
  let ?fl = "flags OR (if kMaxFrameBytes < length (fst (line k wire)) then STATUS_RX_OVERFLOW else 0)"
  have "\<exists>flags'. bit flags' 2 \<and> attempts line slave func wire (Suc k) left' (?fl OR f) =
    (flags', take kMaxFrameBytes (fst (line (Suc k + j) wire)), Suc (Suc k + j))"
    using Suc.prems(1) [of "Suc i" for i] Suc.prems(2,3) left by (intro Suc.IH) auto
  then show ?case by (subst attempts.simps) (simp add: Let_def f left)
qed

lemma decode_register_reply:
  assumes "vals \<noteq> []" "length vals \<le> 125" "\<not> bit func 7"
    and "resp = register_reply slave func vals @ rest"
    and "len = of_nat (5 + 2 * length vals)"
  shows "decodeRegisterResponse func (of_nat (length vals)) resp len False m =
    (Some vals, m\<lparr>last_error := ErrNone\<rparr>)"
proof -
  let ?n = "length vals"
  have "unat len = 5 + 2 * ?n"
    unfolding assms(5) by (rule unat_u16_of_nat) (use assms(2) in simp)
  then have q: "unat (of_nat ?n :: u16) = ?n" "unat len = 5 + ?n * 2"
    using assms(2) by (simp_all add: unat_of_nat)
  have q0: "(of_nat ?n :: u16) \<noteq> 0" "\<not> 125 < (of_nat ?n :: u16)"
    using assms(1,2) q(1) by (auto simp: word_less_nat_alt unat_eq_0 [symmetric])
  have r: "resp = slave # func # of_nat (?n * 2) # concat (map be16 vals) @ (le16 (crc16 (slave # func #
      of_nat (?n * 2) # concat (map be16 vals))) @ rest)"
    by (simp add: assms(4) register_reply_def crc_frame_def)
  have i: "resp ! 1 = func" "resp ! 2 = of_nat (?n * 2)" by (simp_all add: r)
  have "map (\<lambda>i. push_bit 8 (ucast (resp ! (3 + i * 2))) OR ucast (resp ! (3 + i * 2 + 1))) [0..<?n] =
      map (\<lambda>i. vals ! i) [0..<?n]"
  proof (rule map_cong [OF refl])
    fix i assume "i \<in> set [0..<?n]"
    then have i: "i < ?n" by simp
    have "resp ! (3 + i * 2) = concat (map be16 vals) ! (i * 2)"
      "resp ! (3 + i * 2 + 1) = concat (map be16 vals) ! (i * 2 + 1)"
      using i by (simp_all add: r numeral_3_eq_3 nth_append)
    then show "push_bit 8 (ucast (resp ! (3 + i * 2))) OR ucast (resp ! (3 + i * 2 + 1)) = vals ! i"
      by (simp only: nth_be16s [OF i] be16_value)
  qed
  also have "\<dots> = vals" by (rule map_nth)
  finally show ?thesis
    using q q0 i function_code_bits(1) [OF assms(3)]
    by (simp add: decodeRegisterResponse_def Let_def)
qed

text \<open>
  C21: A register read over the controller hands out exactly the registers of the slave,
  after any number of rejected attempts the retries allow, and has sent exactly the
  request for them.
\<close>
theorem modbus_read_roundtrip:
  assumes "mc_idle (mb_dev m)" and "in_time m"
    and "vals \<noteq> []" and "length vals \<le> 125" and "func \<in> {0x03, 0x04}"
    and "wire = wire_frame slave func (read_request addr (of_nat (length vals)))"
    and "j \<le> unat (mb_retries m)"
    and "\<And>i. i < j \<Longrightarrow> \<exists>f. judge slave func
          (mc_line (mb_dev m) (mc_attempt (mb_dev m) + i) wire) = Rejected f"
    and "mc_line (mb_dev m) (mc_attempt (mb_dev m) + j) wire = (register_reply slave func vals, True)"
  shows "\<exists>m'. readRegsFunction modbus1_bus MODBUS1_BASE slave func addr (of_nat (length vals)) False m =
      Some (Some vals, m') \<and> last_error m' = ErrNone \<and>
    mc_sent (mb_dev m') = mc_sent (mb_dev m) @ [wire] \<and> mc_idle (mb_dev m')"
proof -
  let ?d = "mb_dev m" and ?n = "length vals"
  let ?req = "read_request addr (of_nat ?n)" and ?reply = "register_reply slave func vals"
  have b7: "\<not> bit func 7" using assms(5) by auto
  have len: "length ?reply = 5 + 2 * ?n" by (simp add: register_reply_def crc_frame_def)
  have "judge slave func (?reply, True) = Accepted"
    unfolding register_reply_def by (rule judge_crc_frame) (use assms(4) b7 in simp_all)
  then obtain flags where fl: "bit flags 2" and att: "attempts (mc_line ?d) slave func wire (mc_attempt ?d)
      (unat (mb_retries m)) 0 = (flags, ?reply, Suc (mc_attempt ?d + j))"
    using attempts_accepted [of j slave func "mc_line ?d" "mc_attempt ?d" wire
        "unat (mb_retries m)" 0] assms(4,7-9) len
    by (auto simp: kMaxFrameBytes_def)
  have "frame_mismatch slave func ?reply = False"
    using function_code_bits(1) [OF b7]
    by (simp add: frame_mismatch_def register_reply_def crc_frame_def)
  then have err: "transaction_error slave func flags ?reply = ErrNone"
    using fl by (simp add: transaction_error_def)
  have req: "length ?req \<le> kMaxDataBytes" by (simp add: read_request_def be16_def kMaxDataBytes_def)
  obtain m' where r: "runTransaction modbus1_bus MODBUS1_BASE slave func ?req m = Some (True, ?reply, m')"
    and s: "mc_sent (mb_dev m') = mc_sent ?d @ [wire]" "mc_idle (mb_dev m')"
    by (rule runTransaction_modbus1 [OF assms(1) req assms(2) att [unfolded assms(6)]])
      (simp add: err assms(6))
  have q0: "(of_nat ?n :: u16) \<noteq> 0" "\<not> 125 < (of_nat ?n :: u16)"
    using assms(3,4) by (auto simp: word_less_nat_alt unat_eq_0 [symmetric] unat_of_nat)
  have d: "decodeRegisterResponse func (of_nat ?n) ?reply (of_nat (length ?reply)) False m' =
      (Some vals, m'\<lparr>last_error := ErrNone\<rparr>)"
    by (rule decode_register_reply [OF assms(3,4) b7, of _ slave "[]"]) (simp_all add: len)
  show ?thesis
    using q0 r d s by (simp add: readRegsFunction_def)
qed

text \<open>A controller on whose line the first attempt meets silence and the second a slave.\<close>

definition flaky_controller :: "u8 list \<Rightarrow> modbus_ctl" where
  "flaky_controller reply =
     deaf_controller\<lparr>mc_line := (\<lambda>k _. if k = 0 then ([], False) else (reply, True)),
       mc_latency := (\<lambda>_. 5000)\<rparr>"

lemma flaky_controller_ready:
  "mc_idle (mb_dev (new_ModbusMaster (flaky_controller reply) 25000000))"
  "in_time (new_ModbusMaster (flaky_controller reply) 25000000)"
  by (simp_all add: new_ModbusMaster_def flaky_controller_def deaf_controller_def mc_idle_def
      mc_busy_def in_time_def kDefaultTimeoutMs_def kDefaultRetries_def kCyclesPerMs_def)

lemma modbus_read_roundtrip_witness:
  "\<exists>m'. readRegsFunction modbus1_bus MODBUS1_BASE 7 0x03 0x100 2 False
      (new_ModbusMaster (flaky_controller (register_reply 7 0x03 [0x1234, 0xBEEF])) 25000000) =
      Some (Some [0x1234, 0xBEEF], m')"
proof -
  let ?m = "new_ModbusMaster (flaky_controller (register_reply 7 0x03 [0x1234, 0xBEEF])) 25000000"
  have "\<exists>m'. readRegsFunction modbus1_bus MODBUS1_BASE 7 0x03 0x100
      (of_nat (length [0x1234, 0xBEEF :: u16])) False ?m = Some (Some [0x1234, 0xBEEF], m') \<and>
      last_error m' = ErrNone \<and> mc_sent (mb_dev m') = mc_sent (mb_dev ?m) @
        [wire_frame 7 0x03 (read_request 0x100 (of_nat (length [0x1234, 0xBEEF :: u16])))] \<and>
      mc_idle (mb_dev m')"
    by (rule modbus_read_roundtrip [OF flaky_controller_ready, where j = 1])
      (simp_all add: new_ModbusMaster_def flaky_controller_def deaf_controller_def
        kDefaultRetries_def judge_def)
  then show ?thesis by auto
qed

section \<open>Confirmed writes\<close>

lemma attempts_success:
  assumes "attempts line slave func wire k left flags = (flags', frame, k')"
    and "bit flags' 2" and "\<not> bit flags 2"
  shows "\<exists>i \<le> left. judge slave func (line (k + i) wire) = Accepted \<and>
    frame = take kMaxFrameBytes (fst (line (k + i) wire))"
  using assms
proof (induction line slave func wire k left flags arbitrary: flags' frame k' rule: attempts.induct)
  case (1 line slave func wire k left flags)
  let ?a = "line k wire"
  let ?fl = "flags OR (if kMaxFrameBytes < length (fst ?a) then STATUS_RX_OVERFLOW else 0)"
  have b: "\<not> bit ?fl 2" using "1.prems"(3) by (simp add: bit_simps status_bit_tests)
  show ?case
  proof (cases "judge slave func ?a")
    case Accepted
    then show ?thesis using "1.prems"(1)
      by (subst (asm) attempts.simps) (auto simp: Let_def intro!: exI [of _ 0])
  next
    case ExceptionReply
    then show ?thesis using "1.prems" b
      by (subst (asm) attempts.simps) (auto simp: Let_def bit_or_iff status_bit_tests)
  next
    case (Rejected f)
    then have nf: "\<not> bit f 2" using judge_rejected [OF Rejected] by (auto simp: status_bit_tests)
    show ?thesis
    proof (cases left)
      case 0
      then show ?thesis using "1.prems" Rejected nf b
        by (subst (asm) attempts.simps) (auto simp: Let_def bit_or_iff status_bit_tests)
    next
      case (Suc n)
      have "attempts line slave func wire (Suc k) n (?fl OR f) = (flags', frame, k')"
        using "1.prems"(1) Rejected Suc by (subst (asm) attempts.simps) (simp add: Let_def)
      then obtain i where "i \<le> n" "judge slave func (line (Suc k + i) wire) = Accepted"
        "frame = take kMaxFrameBytes (fst (line (Suc k + i) wire))"
        using "1.IH" [OF refl refl refl Rejected Suc] "1.prems"(2) nf b by (auto simp: bit_or_iff)
      then show ?thesis using Suc by (intro exI [of _ "Suc i"]) simp
    qed
  qed
qed

lemma judge_accepted:
  assumes "judge slave func (rx, complete) = Accepted"
  shows "complete" "4 \<le> length rx" "crc16 rx = 0" "slave \<noteq> 0 \<longrightarrow> rx ! 0 = slave" "rx ! 1 = func"
  using assms by (auto simp: judge_def Let_def kMaxFrameBytes_def split: if_splits)

text \<open>
  On the line a write is confirmed: within the allowed attempts the addressed slave answers
  the request with an intact frame of eight bytes that echoes the function and the first
  four bytes of the request, its address and its value or quantity.
\<close>

definition write_confirmed :: "modbus_ctl modbus \<Rightarrow> u8 \<Rightarrow> u8 \<Rightarrow> u8 list \<Rightarrow> bool" where
  "write_confirmed m slave func req \<longleftrightarrow>
     (\<exists>i \<le> unat (mb_retries m). \<exists>rx.
        mc_line (mb_dev m) (mc_attempt (mb_dev m) + i) (wire_frame slave func req) = (rx, True) \<and>
        length rx = 8 \<and> crc16 rx = 0 \<and> (slave \<noteq> 0 \<longrightarrow> rx ! 0 = slave) \<and> rx ! 1 = func \<and>
        take 4 (drop 2 rx) = take 4 req)"

lemma write_transaction_confirmed:
  assumes idle: "mc_idle (mb_dev m)" "in_time m"
    and req: "length req \<le> kMaxDataBytes" "4 \<le> length req"
    and w: "write_transaction modbus1_bus MODBUS1_BASE slave func req m = Some (True, m')"
  shows "write_confirmed m slave func req"
proof -
  let ?d = "mb_dev m" and ?wire = "wire_frame slave func req"
  obtain flags frame k where att: "attempts (mc_line ?d) slave func ?wire (mc_attempt ?d)
      (unat (mb_retries m)) 0 = (flags, frame, k)" by (metis prod_cases3)
  obtain m2 where run: "runTransaction modbus1_bus MODBUS1_BASE slave func req m =
      Some (transaction_error slave func flags frame = ErrNone, frame, m2)"
    by (rule runTransaction_modbus1 [OF idle(1) req(1) idle(2) att])
  have ok: "transaction_error slave func flags frame = ErrNone"
    and len: "length frame = 8"
    and echo: "frame ! 2 = req ! 0" "frame ! 3 = req ! 1" "frame ! 4 = req ! 2" "frame ! 5 = req ! 3"
    using w run by (auto simp: write_transaction_def split: if_splits)
  have "bit flags 2"
    using ok by (auto simp: transaction_error_def error_of_status_def split: if_splits)
  then obtain i where i: "i \<le> unat (mb_retries m)"
    "judge slave func (mc_line ?d (mc_attempt ?d + i) ?wire) = Accepted"
    "frame = take kMaxFrameBytes (fst (mc_line ?d (mc_attempt ?d + i) ?wire))"
    using attempts_success [OF att] by auto
  obtain rx complete where rx: "mc_line ?d (mc_attempt ?d + i) ?wire = (rx, complete)" by fastforce
  have fr: "frame = rx" using i(3) len rx by (auto simp: kMaxFrameBytes_def min_def split: if_splits)
  have four: "take 4 (drop k xs) = [xs ! k, xs ! (k + 1), xs ! (k + 2), xs ! (k + 3)]"
    if "k + 4 \<le> length xs" for k and xs :: "u8 list"
    using that by (intro nth_equalityI) (auto simp: less_Suc_eq numeral_eq_Suc)
  have "take 4 (drop 2 rx) = take 4 req"
    using four [of 2 rx] four [of 0 req] len echo fr req(2) by (simp add: numeral_eq_Suc)
  then show ?thesis
    unfolding write_confirmed_def
    using i(1) rx judge_accepted [OF i(2) [unfolded rx]] len fr by auto
qed

text \<open>The coils of a request lie in its data bytes, eight to a byte and low bit first.\<close>

lemma coil_request_bits:
  assumes "n \<le> 8 * c" and "length h = 5"
  shows "\<exists>bs. fold (coil_request_step vs) [0..<n] (h @ replicate c 0) = h @ bs \<and> length bs = c \<and>
    (\<forall>j<c. \<forall>k<8. bit (bs ! j) k = (8 * j + k < n \<and> vs ! (8 * j + k)))"
  using assms(1)
proof (induction n)
  case (Suc n)
  then obtain bs where bs: "fold (coil_request_step vs) [0..<n] (h @ replicate c 0) = h @ bs"
    "length bs = c" "\<And>j k. j < c \<Longrightarrow> k < 8 \<Longrightarrow> bit (bs ! j) k = (8 * j + k < n \<and> vs ! (8 * j + k))"
    by auto
  have n: "n div 8 < c" using Suc.prems by linarith
  have at: "8 * j + k = n \<longleftrightarrow> j = n div 8 \<and> k = n mod 8" if "k < 8" for j k
    using that by (metis add.commute div_mult_mod_eq div_mult_self2 div_less mod_less mod_mult_self2 mult.commute
        add_0 zero_neq_numeral)
  have mask: "bit (push_bit (n mod 8) (1 :: u8)) k = (k = n mod 8)" if "k < 8" for k
    using that by (auto simp: bit_push_bit_iff bit_1_iff simp del: push_bit_of_1)
  let ?bs = "if vs ! n then bs[n div 8 := bs ! (n div 8) OR push_bit (n mod 8) 1] else bs"
  have "fold (coil_request_step vs) [0..<Suc n] (h @ replicate c 0) = h @ ?bs"
    using bs(1,2) assms(2) n by (simp add: coil_request_step_def list_update_append nth_append)
  moreover have "bit (?bs ! j) k = (8 * j + k < Suc n \<and> vs ! (8 * j + k))" if "j < c" "k < 8" for j k
    using bs(2) bs(3) [OF that] at [OF that(2), of j] mask [OF that(2)] n that
    by (auto simp: less_Suc_eq nth_list_update bit_or_iff simp del: push_bit_of_1)
  ultimately show ?case using bs(2) by (intro exI [of _ ?bs]) auto
qed simp

text \<open>
  C22: A write that reports success was confirmed: for each of the four writes the addressed
  slave acknowledged on the line, within the allowed attempts, exactly the request of the
  call; for coils that request carries coil \<open>i\<close> in bit \<open>i mod 8\<close> of data byte \<open>i div 8\<close>.
\<close>
theorem write_success_echoed:
  assumes "mc_idle (mb_dev m)" and "in_time m"
  shows "(writeSingleCoil modbus1_bus MODBUS1_BASE slave addr on m = Some (True, m') \<longrightarrow>
      write_confirmed m slave 0x05 (be16 addr @ be16 (if on then 0xFF00 else 0))) \<and>
    (writeSingleRegister modbus1_bus MODBUS1_BASE slave addr v m = Some (True, m') \<longrightarrow>
      write_confirmed m slave 0x06 (be16 addr @ be16 v)) \<and>
    (writeMultipleCoils modbus1_bus MODBUS1_BASE slave addr n (Some bits) m = Some (True, m') \<longrightarrow>
      (\<exists>bs. length bs = (unat n + 7) div 8 \<and>
         (\<forall>i<unat n. bit (bs ! (i div 8)) (i mod 8) = bits ! i) \<and>
         write_confirmed m slave 0x0F (be16 addr @ be16 n @ [of_nat (length bs)] @ bs))) \<and>
    (writeMultipleRegisters modbus1_bus MODBUS1_BASE slave addr n (Some vs) m = Some (True, m') \<longrightarrow>
      write_confirmed m slave 0x10
        (be16 addr @ be16 n @ [of_nat (2 * unat n)] @ concat (map (\<lambda>i. be16 (vs ! i)) [0..<unat n])))"
proof (intro conjI impI)
  note conf = write_transaction_confirmed [OF assms]
  show "write_confirmed m slave 0x05 (be16 addr @ be16 (if on then 0xFF00 else 0))"
    if "writeSingleCoil modbus1_bus MODBUS1_BASE slave addr on m = Some (True, m')"
    using that unfolding writeSingleCoil_def writeSingleCoilRaw_def
    by (intro conf) (simp_all add: be16_def kMaxDataBytes_def)
  show "write_confirmed m slave 0x06 (be16 addr @ be16 v)"
    if "writeSingleRegister modbus1_bus MODBUS1_BASE slave addr v m = Some (True, m')"
    using that unfolding writeSingleRegister_def
    by (intro conf) (simp_all add: be16_def kMaxDataBytes_def)
  show "write_confirmed m slave 0x10
      (be16 addr @ be16 n @ [of_nat (2 * unat n)] @ concat (map (\<lambda>i. be16 (vs ! i)) [0..<unat n]))"
    if w: "writeMultipleRegisters modbus1_bus MODBUS1_BASE slave addr n (Some vs) m = Some (True, m')"
  proof (rule conf)
    have "length (concat (map (\<lambda>i. be16 (vs ! i)) [0..<k])) = 2 * k" for k
      by (induction k) (simp_all add: be16_def)
    then show "length (be16 addr @ be16 n @ [of_nat (2 * unat n)] @
        concat (map (\<lambda>i. be16 (vs ! i)) [0..<unat n])) \<le> kMaxDataBytes"
      using w by (auto simp: writeMultipleRegisters_def be16_def Let_def split: if_splits)
    show "write_transaction modbus1_bus MODBUS1_BASE slave 0x10
        (be16 addr @ be16 n @ [of_nat (2 * unat n)] @ concat (map (\<lambda>i. be16 (vs ! i)) [0..<unat n])) m =
        Some (True, m')"
      using w by (auto simp: writeMultipleRegisters_def Let_def mult.commute split: if_splits)
  qed (simp add: be16_def)
  show "\<exists>bs. length bs = (unat n + 7) div 8 \<and>
      (\<forall>i<unat n. bit (bs ! (i div 8)) (i mod 8) = bits ! i) \<and>
      write_confirmed m slave 0x0F (be16 addr @ be16 n @ [of_nat (length bs)] @ bs)"
    if w: "writeMultipleCoils modbus1_bus MODBUS1_BASE slave addr n (Some bits) m = Some (True, m')"
  proof -
    let ?k = "(unat n + 7) div 8" let ?hd = "be16 addr @ be16 n @ [of_nat ?k :: u8]"
    have fit: "5 + ?k \<le> kMaxDataBytes"
      using w by (auto simp: writeMultipleCoils_def Let_def split: if_splits)
    then have "unat n \<le> 8 * (kMaxDataBytes - 5)" by linarith
    then obtain bs where bs: "fold (coil_request_step bits) [0..<unat n]
        (?hd @ replicate (kMaxDataBytes - 5) 0) = ?hd @ bs" "length bs = kMaxDataBytes - 5"
      "\<forall>j<kMaxDataBytes - 5. \<forall>i<8. bit (bs ! j) i = (8 * j + i < unat n \<and> bits ! (8 * j + i))"
      using coil_request_bits [of "unat n" "kMaxDataBytes - 5" ?hd bits] by (auto simp: be16_def)
    let ?bs = "take ?k bs"
    have len: "length ?bs = ?k" using bs(2) fit by simp
    have keep: "take (5 + ?k) (h @ bs) = h @ ?bs" if "length h = 5" for h :: "u8 list"
      using that by simp
    have "take (5 + ?k) (?hd @ bs) = ?hd @ ?bs" by (rule keep) (simp add: be16_def)
    then have "write_transaction modbus1_bus MODBUS1_BASE slave 0x0F (?hd @ ?bs) m = Some (True, m')"
      using w bs(1) by (simp add: writeMultipleCoils_def Let_def split: if_splits)
    then have "write_confirmed m slave 0x0F (?hd @ ?bs)"
      by (rule conf [rotated 2]) (use len fit in \<open>simp_all add: be16_def\<close>)
    moreover have "bit (?bs ! (i div 8)) (i mod 8) = bits ! i" if "i < unat n" for i
    proof -
      have "i div 8 < ?k" using that by linarith
      then show ?thesis using bs(3) that fit by simp
    qed
    ultimately show ?thesis using len by (intro exI [of _ ?bs]) simp
  qed
qed

lemma write_success_echoed_witness:
  "write_confirmed (new_ModbusMaster (flaky_controller (crc_frame [7, 0x10, 0x10, 0x20, 0, 2])) 25000000)
     7 0x10 (be16 0x1020 @ be16 2 @ [4] @ be16 0xABCD @ be16 0x1234)"
proof -
  let ?reply = "crc_frame [7, 0x10, 0x10, 0x20, 0, 2]"
  let ?m = "new_ModbusMaster (flaky_controller ?reply) 25000000"
  let ?req = "be16 0x1020 @ be16 2 @ [4] @ be16 0xABCD @ be16 0x1234"
  let ?wire = "wire_frame 7 0x10 ?req"
  have fields: "mc_line (mb_dev ?m) = (\<lambda>k _. if k = 0 then ([], False) else (?reply, True))"
    "mc_attempt (mb_dev ?m) = 0" "mb_retries ?m = 1"
    by (simp_all add: new_ModbusMaster_def flaky_controller_def deaf_controller_def kDefaultRetries_def)
  have len: "length ?reply = 8"
    and bytes: "?reply ! 2 = ?req ! 0" "?reply ! 3 = ?req ! Suc 0" "?reply ! 4 = ?req ! 2" "?reply ! 5 = ?req ! 3"
    by (simp_all add: crc_frame_def be16_def)
  have "judge 7 0x10 (?reply, True) = Accepted" by (rule judge_crc_frame) simp_all
  then have "\<exists>flags. bit flags 2 \<and> attempts (mc_line (mb_dev ?m)) 7 0x10 ?wire 0 1 0 =
      (flags, take kMaxFrameBytes ?reply, 2)"
    using attempts_accepted [of 1 7 "0x10" "mc_line (mb_dev ?m)" 0 ?wire 1 0]
    by (auto simp: fields judge_def numeral_2_eq_2)
  then obtain flags where fl: "bit flags 2"
    and att: "attempts (mc_line (mb_dev ?m)) 7 0x10 ?wire (mc_attempt (mb_dev ?m))
      (unat (mb_retries ?m)) 0 = (flags, ?reply, 2)"
    by (auto simp: fields len kMaxFrameBytes_def)
  have err: "transaction_error 7 0x10 flags ?reply = ErrNone"
    using fl by (simp add: transaction_error_def frame_mismatch_def crc_frame_def)
  have "length ?req \<le> kMaxDataBytes" by (simp add: be16_def kMaxDataBytes_def)
  then obtain m2 where run: "runTransaction modbus1_bus MODBUS1_BASE 7 0x10 ?req ?m =
      Some (True, ?reply, m2)"
    by (rule runTransaction_modbus1 [OF flaky_controller_ready(1) _ flaky_controller_ready(2) att])
      (simp add: err)
  have two: "[0..<2] = [0, Suc 0]" by (simp add: upt_rec)
  have "writeMultipleRegisters modbus1_bus MODBUS1_BASE 7 0x1020 2 (Some [0xABCD, 0x1234]) ?m =
      Some (True, m2\<lparr>last_error := ErrNone\<rparr>)"
    using run len bytes
    by (simp add: writeMultipleRegisters_def write_transaction_def Let_def kMaxDataBytes_def two)
  with write_success_echoed [OF flaky_controller_ready, where slave = 7 and addr = "0x1020" and
      n = 2 and vs = "[0xABCD, 0x1234]"]
  show ?thesis by (simp add: two)
qed

section \<open>Failures\<close>

lemma rejected_flag:
  assumes "judge slave func answer = Rejected f"
  shows "bit f 3 = (f = STATUS_TIMEOUT)" "bit f 4 = (f = STATUS_CRC_ERROR)"
    "bit f 5 = (f = STATUS_FRAME_ERROR)" "\<not> bit f 2" "\<not> bit f 6"
  using judge_rejected [OF assms] by (auto simp: status_bit_tests)

lemma attempts_exception:
  assumes "\<And>i. i < j \<Longrightarrow> \<exists>f. judge slave func (line (k + i) wire) = Rejected f"
    and "j \<le> left" and "judge slave func (line (k + j) wire) = ExceptionReply"
  shows "\<exists>flags'. attempts line slave func wire k left flags =
      (flags', take kMaxFrameBytes (fst (line (k + j) wire)), Suc (k + j)) \<and>
    bit flags' 6 \<and> bit flags' 2 = bit flags 2 \<and>
    bit flags' 3 = (bit flags 3 \<or> (\<exists>i<j. judge slave func (line (k + i) wire) = Rejected STATUS_TIMEOUT)) \<and>
    bit flags' 4 = (bit flags 4 \<or> (\<exists>i<j. judge slave func (line (k + i) wire) = Rejected STATUS_CRC_ERROR)) \<and>
    bit flags' 5 = (bit flags 5 \<or> (\<exists>i<j. judge slave func (line (k + i) wire) = Rejected STATUS_FRAME_ERROR))"
  using assms
proof (induction j arbitrary: k left flags)
  case 0
  then show ?case
    by (subst attempts.simps) (simp add: Let_def bit_or_iff status_bit_tests)
next
  case (Suc j)
  obtain f where f: "judge slave func (line k wire) = Rejected f" using Suc.prems(1) [of 0] by auto
  obtain left' where left: "left = Suc left'" using Suc.prems(2) by (cases left) auto
  let ?fl = "(flags OR (if kMaxFrameBytes < length (fst (line k wire)) then STATUS_RX_OVERFLOW else 0))
      OR f"
  have att: "attempts line slave func wire k left flags = attempts line slave func wire (Suc k) left' ?fl"
    by (subst attempts.simps) (simp add: Let_def f left)
  have bits: "bit ?fl n = (bit flags n \<or> bit f n)" if "n \<noteq> 7" for n
    using that by (simp add: bit_or_iff status_bit_tests)
  have "\<exists>flags'. attempts line slave func wire (Suc k) left' ?fl =
      (flags', take kMaxFrameBytes (fst (line (Suc k + j) wire)), Suc (Suc k + j)) \<and>
    bit flags' 6 \<and> bit flags' 2 = bit ?fl 2 \<and>
    bit flags' 3 = (bit ?fl 3 \<or> (\<exists>i<j. judge slave func (line (Suc k + i) wire) = Rejected STATUS_TIMEOUT)) \<and>
    bit flags' 4 = (bit ?fl 4 \<or> (\<exists>i<j. judge slave func (line (Suc k + i) wire) = Rejected STATUS_CRC_ERROR)) \<and>
    bit flags' 5 = (bit ?fl 5 \<or> (\<exists>i<j. judge slave func (line (Suc k + i) wire) = Rejected STATUS_FRAME_ERROR))"
    using Suc.prems(1) [of "Suc i" for i] Suc.prems(2,3) left by (intro Suc.IH) auto
  then show ?case
    by (simp add: att bits f rejected_flag [OF f] Ex_less_Suc2 disj_assoc)
qed

text \<open>
  C39: A slave that refuses a register read with an exception is reported as such, with its
  code, when it answers the first attempt. When the controller has rejected earlier attempts
  of the same request, for silence, a bad checksum or a bad frame, the flags they left are
  tested before the exception flag: the refusal is reported as a time-out, a CRC error or
  a frame error, in this order, and the exception code is dropped.
\<close>
theorem exception_after_retry_hidden:
  assumes "mc_idle (mb_dev m)" and "in_time m"
    and "0 < q" and "q \<le> 125" and "func \<in> {0x03, 0x04}"
    and "wire = wire_frame slave func (read_request addr q)"
    and "j \<le> unat (mb_retries m)"
    and "verdict = (\<lambda>i. judge slave func (mc_line (mb_dev m) (mc_attempt (mb_dev m) + i) wire))"
    and "\<And>i. i < j \<Longrightarrow> \<exists>f. verdict i = Rejected f"
    and "mc_line (mb_dev m) (mc_attempt (mb_dev m) + j) wire =
           (crc_frame [slave, func OR 0x80, code], True)"
  shows "\<exists>m'. readRegsFunction modbus1_bus MODBUS1_BASE slave func addr q False m = Some (None, m') \<and>
    last_error m' =
      (if j = 0 then ErrHwException
       else if \<exists>i<j. verdict i = Rejected STATUS_TIMEOUT then ErrHwTimeout
       else if \<exists>i<j. verdict i = Rejected STATUS_CRC_ERROR then ErrHwCrc else ErrHwFrame) \<and>
    last_exception_code m' = (if j = 0 then code else 0)"
proof -
  let ?d = "mb_dev m" and ?req = "read_request addr q" and ?reply = "crc_frame [slave, func OR 0x80, code]"
  have b7: "\<not> bit func 7" and f7: "(func OR 0x80) AND 0x7F = func"
    using assms(5) by auto
  have len: "length ?reply = 5" "take kMaxFrameBytes ?reply = ?reply"
    by (simp_all add: crc_frame_def kMaxFrameBytes_def)
  have code: "?reply ! 2 = code" by (simp add: crc_frame_def)
  have "judge slave func (?reply, True) = ExceptionReply"
    using crc16_residue [of "[slave, func OR 0x80, code]"]
    by (simp add: judge_def crc_frame_def kMaxFrameBytes_def Let_def)
  then obtain flags where att: "attempts (mc_line ?d) slave func wire (mc_attempt ?d)
      (unat (mb_retries m)) 0 = (flags, ?reply, Suc (mc_attempt ?d + j))"
    and fl: "bit flags 6" "\<not> bit flags 2"
      "bit flags 3 = (\<exists>i<j. verdict i = Rejected STATUS_TIMEOUT)"
      "bit flags 4 = (\<exists>i<j. verdict i = Rejected STATUS_CRC_ERROR)"
      "bit flags 5 = (\<exists>i<j. verdict i = Rejected STATUS_FRAME_ERROR)"
    using attempts_exception [of j slave func "mc_line ?d" "mc_attempt ?d" wire "unat (mb_retries m)" 0]
      assms(7-10) len(2) by auto
  let ?err = "if j = 0 then ErrHwException
      else if \<exists>i<j. verdict i = Rejected STATUS_TIMEOUT then ErrHwTimeout
      else if \<exists>i<j. verdict i = Rejected STATUS_CRC_ERROR then ErrHwCrc else ErrHwFrame"
  have "bit flags 3 \<or> bit flags 4 \<or> bit flags 5" if "j \<noteq> 0"
  proof -
    have "\<exists>f. verdict 0 = Rejected f" using assms(9) that by simp
    then obtain f where f: "verdict 0 = Rejected f" ..
    then have "f \<in> {STATUS_TIMEOUT, STATUS_CRC_ERROR, STATUS_FRAME_ERROR}"
      using judge_rejected by (simp add: assms(8))
    then show ?thesis using f that fl(3-5) by blast
  qed
  then have es: "error_of_status flags = ?err"
    using fl by (auto simp: error_of_status_def status_flag_bits)
  have err: "transaction_error slave func flags ?reply = ?err"
    using fl(2) es f7 by (simp add: transaction_error_def frame_mismatch_def crc_frame_def)
  have req: "length ?req \<le> kMaxDataBytes" by (simp add: read_request_def be16_def kMaxDataBytes_def)
  obtain m' where "runTransaction modbus1_bus MODBUS1_BASE slave func ?req m =
      Some (False, ?reply, m')" "last_error m' = ?err"
    "last_exception_code m' = (if j = 0 then code else 0)"
    by (rule runTransaction_modbus1 [OF assms(1) req assms(2) att [unfolded assms(6)]])
      (use fl(2) es len(1) in \<open>cases "j = 0"; simp add: err code\<close>)
  then show ?thesis
    using assms(3,4) by (auto simp: readRegsFunction_def word_gt_0 linorder_not_less)
qed

lemma exception_after_retry_hidden_witness:
  "\<exists>m'. readRegsFunction modbus1_bus MODBUS1_BASE 7 0x03 0x100 2 False
      (new_ModbusMaster (flaky_controller (crc_frame [7, 0x83, 2])) 25000000) = Some (None, m') \<and>
    last_error m' = ErrHwTimeout \<and> last_exception_code m' = 0"
proof -
  let ?m = "new_ModbusMaster (flaky_controller (crc_frame [7, 0x83, 2])) 25000000"
  let ?V = "\<lambda>i. judge 7 0x03 (mc_line (mb_dev ?m) (mc_attempt (mb_dev ?m) + i)
      (wire_frame 7 0x03 (read_request 0x100 2)))"
  have fields: "mc_line (mb_dev ?m) = (\<lambda>k _. if k = 0 then ([], False) else (crc_frame [7, 0x83, 2], True))"
    "mc_attempt (mb_dev ?m) = 0" "unat (mb_retries ?m) = 1"
    by (simp_all add: new_ModbusMaster_def flaky_controller_def deaf_controller_def kDefaultRetries_def)
  have v: "?V 0 = Rejected STATUS_TIMEOUT" by (simp add: fields judge_def)
  have "\<exists>m'. readRegsFunction modbus1_bus MODBUS1_BASE 7 0x03 0x100 2 False ?m = Some (None, m') \<and>
      last_error m' = (if (1 :: nat) = 0 then ErrHwException
        else if \<exists>i<1. ?V i = Rejected STATUS_TIMEOUT then ErrHwTimeout
        else if \<exists>i<1. ?V i = Rejected STATUS_CRC_ERROR then ErrHwCrc else ErrHwFrame) \<and>
      last_exception_code m' = (if (1 :: nat) = 0 then 2 else 0)"
    by (rule exception_after_retry_hidden [OF flaky_controller_ready _ _ _ refl _ refl])
      (simp_all add: v, simp_all add: fields judge_def)
  moreover have "\<exists>i<1. ?V i = Rejected STATUS_TIMEOUT" using v by (intro exI [of _ 0]) simp
  ultimately show ?thesis by (simp only: if_True if_False one_neq_zero)
qed

end
