(* ===== verification/PlcCoreProps.thy ===== *)
theory PlcCoreProps
  imports PlcCore ModbusProps CatalogProps
begin

unbundle bit_operations_syntax

text \<open>
  Properties of the PLC service: every iteration of its loop returns; the scheduler picks
  the batch with the earliest deadline, and a batch that cannot be started starves all
  others; one transaction is in flight exactly while the service waits for one; a completed
  batch stores the values of the response; and a poll plan outlives changes of the catalog.
\<close>

section \<open>The loop returns\<close>

lemma rebuild_keeps [simp]:
  "pc_modbus (rebuildPollPlanIfNeeded core) = pc_modbus core"
  "pc_catalog (rebuildPollPlanIfNeeded core) = pc_catalog core"
  "pc_has_catalog (rebuildPollPlanIfNeeded core) = pc_has_catalog core"
  "pc_has_modbus (rebuildPollPlanIfNeeded core) = pc_has_modbus core"
  "pc_poll_state (rebuildPollPlanIfNeeded core) = pc_poll_state core"
  "pc_active (rebuildPollPlanIfNeeded core) = pc_active core"
  by (simp_all add: rebuildPollPlanIfNeeded_def rebuildPollPlan_def Let_def)

lemma core_millis_eq:
  "core_millis b core =
     (fst (millis b (mb_dev (pc_modbus core))),
      core\<lparr>pc_modbus := (pc_modbus core)\<lparr>mb_dev := snd (millis b (mb_dev (pc_modbus core)))\<rparr>\<rparr>)"
  by (simp add: core_millis_def mb_millis_def split: prod.splits)

context ticking_bus
begin

lemma write_output_total:
  assumes "guard_ok (pc_modbus core)"
  shows "\<exists>r. write_output b base core d cmd st = Some r"
  using writes_total [OF assms]
  by (auto simp: write_output_def Let_def)

lemma applyWritablePointState_total:
  assumes "guard_ok (pc_modbus core)"
  shows "\<exists>r. applyWritablePointState b base ci now core = Some r"
proof -
  obtain supported ok m where "write_output b base core (cat_entries (pc_catalog core) ci)
      (cat_command_states (pc_catalog core) ci) (cat_states (pc_catalog core) ci) =
      Some (supported, ok, m)"
    using write_output_total [OF assms] by (metis prod_cases3)
  then show ?thesis
    by (auto simp: applyWritablePointState_def Let_def split: prod.splits)
qed

lemma apply_outputs_total:
  assumes "guard_ok (pc_modbus core)"
  shows "\<exists>r. apply_outputs b base now n core = Some r"
  using assms
proof (induction n arbitrary: core)
  case (Suc n)
  then show ?case
    using applyWritablePointState_total by (auto simp: Let_def)
qed auto

lemma core_loop_total:
  assumes "guard_ok (pc_modbus core)"
  shows "\<exists>core'. core_loop b base core = Some core'"
proof -
  let ?core1 = "rebuildPollPlanIfNeeded core"
  obtain now core2 where t: "core_millis b ?core1 = (now, core2)" by fastforce
  have "mb_timeout_ms (pc_modbus core2) = mb_timeout_ms (pc_modbus core)"
    "mb_retries (pc_modbus core2) = mb_retries (pc_modbus core)"
    using t by (auto simp: core_millis_eq)
  then have "guard_ok (pc_modbus core2)" using assms by (simp add: guard_ok_def)
  then have "\<exists>r. applyNextWritablePointState b base now core2 = Some r"
    using apply_outputs_total by (auto simp: applyNextWritablePointState_def)
  then obtain ok core3 where a: "applyNextWritablePointState b base now core2 = Some (ok, core3)"
    by (metis surj_pair)
  show ?thesis
    by (cases "pc_poll_state core"; cases ok) (simp_all add: core_loop_def t a)
qed

end

text \<open>
  C16: Every iteration of the PLC service returns, whatever the field devices and the
  controller do: the blocking writes give up when the guard time has passed, provided the
  guard time stays in the half of the timer's range the comparison of readings can tell.
\<close>
theorem core_loop_returns:
  assumes "ticking_bus b cycles"
    and "unat (mb_timeout_ms (pc_modbus core) * (ucast (mb_retries (pc_modbus core)) + 1) + 50)
           < 2 ^ 31 - 3"
  shows "\<exists>core'. core_loop b base core = Some core'"
  using ticking_bus.core_loop_total [OF assms(1)] assms(2) by (simp add: guard_ok_def)

definition new_PlcCore :: "'d modbus \<Rightarrow> point_catalog \<Rightarrow> 'd plc_core" where
  "new_PlcCore m c =
     \<lparr>pc_has_catalog = False, pc_catalog = c, pc_has_modbus = False, pc_modbus = m,
      pc_plan = empty_plan, pc_next_batch = 0, pc_plan_hash = 0, pc_max_gap = 6,
      pc_poll_state = PollIdle, pc_active = empty_batch, pc_started_ms = 0, pc_last_poll_ms = 0,
      pc_max_poll_gap_ms = 0, pc_poll_calls = 0, pc_next_output = 0, pc_bits = \<lambda>_. False,
      pc_regs = \<lambda>_. 0\<rparr>"

text \<open>A service with one Modbus output whose controller never answers in time.\<close>

definition modbus_point ::
  "string \<Rightarrow> point_value_type \<Rightarrow> u8 \<Rightarrow> u16 \<Rightarrow> u8 \<Rightarrow> u32 \<Rightarrow> point_definition" where
  "modbus_point name ty port addr regs refresh =
     (sample_point ''rtu'' ''io'' name)\<lparr>backend := BackendModbus, direction := DirInOut,
        value_type := ty, polling := \<lparr>refresh_ms = refresh, timeout_ms = 3000\<rparr>,
        ref := modbus_ref port 7 addr regs TableHoldingRegisters AccessReadWrite\<rparr>"

definition deaf_core :: "modbus_ctl plc_core" where
  "deaf_core =
     core_begin (Some (sample_rows [modbus_point ''x'' TyUint16 0 16 1 1000]))
       (Some (new_ModbusMaster deaf_controller 25000000))
       (new_PlcCore (new_ModbusMaster deaf_controller 25000000) (new_PointCatalog (\<lambda>_. empty_state)))"

lemma core_loop_returns_witness:
  "\<exists>core'. core_loop modbus1_bus MODBUS1_BASE deaf_core = Some core'"
  by (rule core_loop_returns [OF modbus1.ticking_bus_axioms])
    (simp add: deaf_core_def core_begin_def new_ModbusMaster_def kDefaultTimeoutMs_def
      kDefaultRetries_def)

section \<open>The selection of a batch\<close>

text \<open>What the rotating scan has found after some tries.\<close>

lemma select_batch_spec:
  fixes core :: "'d plc_core" and now :: u32
  defines "n \<equiv> length (pp_batches (pc_plan core))"
    and "ready \<equiv> \<lambda>k. bt_valid (pp_batches (pc_plan core) ! k) \<and>
           fst (batchPollUrgency core (pp_batches (pc_plan core) ! k) now)"
    and "urg \<equiv> \<lambda>k. snd (batchPollUrgency core (pp_batches (pc_plan core) ! k) now)"
  assumes "next < n" and "selected = n \<or> selected < n \<and> ready selected \<and> urg selected = u"
    and "select_batch core now tries next selected u = (next', selected')"
  shows "next' < n \<and> (selected' = n \<or> selected' < n \<and> ready selected') \<and>
    (selected' = n \<longrightarrow> selected = n \<and> (\<forall>j<tries. \<not> ready ((next + j) mod n))) \<and>
    (selected' < n \<longrightarrow> (selected < n \<longrightarrow> u \<le> urg selected') \<and>
       (\<forall>j<tries. ready ((next + j) mod n) \<longrightarrow> urg ((next + j) mod n) \<le> urg selected'))"
  using assms(4-6)
proof (induction tries arbitrary: "next" selected u)
  case (Suc a)
  let ?next = "Suc next mod n"
  obtain due v where bu: "batchPollUrgency core (pp_batches (pc_plan core) ! next) now = (due, v)"
    by fastforce
  have r: "ready next \<longleftrightarrow> bt_valid (pp_batches (pc_plan core) ! next) \<and> due" and v: "urg next = v"
    by (simp_all add: ready_def urg_def bu)
  let ?sel = "if ready next \<and> (selected = n \<or> u < v) then next else selected"
  let ?u = "if ready next \<and> (selected = n \<or> u < v) then v else u"
  have step: "select_batch core now a ?next ?sel ?u = (next', selected')"
    using Suc.prems(3) r
    by (cases "ready next"; cases "selected = n"; cases "u < v")
      (auto simp: bu Let_def simp flip: n_def)
  have "?next < n" using Suc.prems(1) by simp
  moreover have "?sel = n \<or> ?sel < n \<and> ready ?sel \<and> urg ?sel = ?u"
    using Suc.prems(1,2) v by auto
  ultimately have ih: "next' < n" "selected' = n \<or> selected' < n \<and> ready selected'"
    "selected' = n \<longrightarrow> ?sel = n \<and> (\<forall>j<a. \<not> ready ((?next + j) mod n))"
    "selected' < n \<longrightarrow> (?sel < n \<longrightarrow> ?u \<le> urg selected') \<and>
       (\<forall>j<a. ready ((?next + j) mod n) \<longrightarrow> urg ((?next + j) mod n) \<le> urg selected')"
    using Suc.IH [OF _ _ step] by blast+
  have shift: "(?next + j) mod n = (next + Suc j) mod n" for j
    by (simp add: mod_add_left_eq)
  have split: "(\<forall>j<Suc a. P ((next + j) mod n)) \<longleftrightarrow> P next \<and> (\<forall>j<a. P ((?next + j) mod n))" for P
    using Suc.prems(1) unfolding shift by (auto simp: less_Suc_eq_0_disj)
  show ?case
    unfolding split [of "\<lambda>k. \<not> ready k"] split [of "\<lambda>k. ready k \<longrightarrow> urg k \<le> urg selected'"]
    using ih Suc.prems(1,2) v by (auto split: if_splits)
qed auto

lemma rotation_covers:
  assumes "next < n" "k < (n :: nat)"
  shows "\<exists>j<n. (next + j) mod n = k"
proof (cases "next \<le> k")
  case True
  then show ?thesis using assms by (intro exI [of _ "k - next"]) auto
next
  case False
  then show ?thesis using assms by (intro exI [of _ "k + n - next"]) auto
qed

section \<open>Deadlines\<close>

text \<open>When a point is to be refreshed next, and the earliest of a batch.\<close>

definition point_deadline :: "point_catalog \<Rightarrow> nat \<Rightarrow> nat" where
  "point_deadline c i =
     unat (last_update_ms (cat_states c i)) + unat (refresh_ms (polling (cat_entries c i)))"

definition batch_deadline :: "'d plc_core \<Rightarrow> poll_batch \<Rightarrow> nat" where
  "batch_deadline core b =
     Min ((\<lambda>m. point_deadline (pc_catalog core) (unat (bm_index m))) ` set (members_of (pc_plan core) b))"

text \<open>
  The points whose state is not newer than the time the scheduler reads, and that have a
  refresh time: their elapsed time does not wrap.
\<close>

definition timely :: "point_catalog \<Rightarrow> u32 \<Rightarrow> nat \<Rightarrow> bool" where
  "timely c now i =
     (i < cat_count c \<and> refresh_ms (polling (cat_entries c i)) \<noteq> 0 \<and>
      last_update_ms (cat_states c i) \<le> now)"

lemma urgency_scan_timely:
  assumes "\<forall>m \<in> set ms. timely c now (unat (bm_index m))"
    and "urgency_scan c now ms due u = (due', u')"
  shows "due' \<longleftrightarrow> due \<or> (\<exists>m \<in> set ms. point_deadline c (unat (bm_index m)) \<le> unat now)"
    and "unat u' = Max (insert (unat u) ((\<lambda>m. unat now - point_deadline c (unat (bm_index m))) ` set ms))"
proof -
  have "(due' \<longleftrightarrow> due \<or> (\<exists>m \<in> set ms. point_deadline c (unat (bm_index m)) \<le> unat now)) \<and>
    unat u' = Max (insert (unat u) ((\<lambda>m. unat now - point_deadline c (unat (bm_index m))) ` set ms))"
    using assms
  proof (induction ms arbitrary: due u)
    case (Cons m ms)
    let ?i = "unat (bm_index m)"
    let ?last = "last_update_ms (cat_states c ?i)" and ?refresh = "refresh_ms (polling (cat_entries c ?i))"
    let ?dl = "point_deadline c ?i"
    have t: "?i < cat_count c" "?refresh \<noteq> 0" "?last \<le> now"
      using Cons.prems(1) by (auto simp: timely_def)
    have e: "unat (now - ?last) = unat now - unat ?last" using t(3) by (rule unat_sub)
    have lt: "now - ?last < ?refresh \<longleftrightarrow> unat now < ?dl"
      using t(3) by (auto simp: word_less_nat_alt word_le_nat_alt e point_deadline_def)
    have tl: "\<forall>m \<in> set ms. timely c now (unat (bm_index m))" using Cons.prems(1) by simp
    show ?case
    proof (cases "unat now < ?dl")
      case True
      then have "urgency_scan c now ms due u = (due', u')"
        using Cons.prems(2) t lt by (simp add: Let_def)
      from Cons.IH [OF tl this] True show ?thesis
        by (auto simp: insert_commute [of _ 0] Max_insert2)
    next
      case False
      let ?over = "now - ?last - ?refresh"
      have "?refresh \<le> now - ?last" using False lt by simp
      then have ov: "unat ?over = unat now - ?dl"
        by (simp add: unat_sub e point_deadline_def)
      let ?u = "if u < ?over then ?over else u"
      have mu: "unat ?u = max (unat u) (unat now - ?dl)" using ov by (auto simp: word_less_nat_alt)
      have "urgency_scan c now ms True ?u = (due', u')"
        using Cons.prems(2) t lt False by (simp add: Let_def)
      from Cons.IH [OF tl this] False show ?thesis
        unfolding mu by (cases "ms = []") (auto simp: max.assoc insert_commute)
    qed
  qed simp
  then show "due' \<longleftrightarrow> due \<or> (\<exists>m \<in> set ms. point_deadline c (unat (bm_index m)) \<le> unat now)"
    "unat u' = Max (insert (unat u) ((\<lambda>m. unat now - point_deadline c (unat (bm_index m))) ` set ms))"
    by blast+
qed

section \<open>Earliest deadline first\<close>

text \<open>The service with a plan that belongs to its catalog.\<close>

definition plan_current :: "'d plc_core \<Rightarrow> bool" where
  "plan_current core =
     (pc_has_catalog core \<and> cat_count (pc_catalog core) \<le> kMaxPoints \<and>
      pc_plan core = poll_plan_of (pc_max_gap core) (pc_catalog core))"

lemma members_of_batch:
  assumes "plan_ok defs planned p" and "b \<in> set (pp_batches p)"
  shows "members_of p b = batch_members p b" "members_of p b \<noteq> []"
    "\<forall>m \<in> set (members_of p b). unat (bm_index m) \<in> set planned \<and> member_ok defs b m"
proof -
  have r: "unat (bt_member_start b) + unat (bt_member_count b) \<le> length (pp_members p)"
    "0 < unat (bt_member_count b)"
    using assms ranges_ok_bounds by (fastforce simp: plan_ok_def)+
  show e: "members_of p b = batch_members p b"
    using r by (intro nth_equalityI) (auto simp: members_of_def batch_members_def plan_member_def)
  show "members_of p b \<noteq> []" using r by (simp add: members_of_def)
  have "set (batch_members p b) \<subseteq> set (pp_members p)"
    by (auto simp: batch_members_def dest: in_set_takeD in_set_dropD)
  moreover have "\<forall>m \<in> set (batch_members p b). member_ok defs b m"
    using assms by (simp add: plan_ok_def batch_ok_def)
  ultimately show "\<forall>m \<in> set (members_of p b). unat (bm_index m) \<in> set planned \<and> member_ok defs b m"
    using assms(1) unfolding e plan_ok_def by auto
qed

lemma planned_points_bound: "i \<in> set (planned_points c) \<Longrightarrow> i < cat_count c"
  by (simp add: planned_points_def)

lemma Max_lateness:
  fixes f :: "'a \<Rightarrow> nat"
  assumes "finite A" "A \<noteq> {}"
  shows "Max (insert 0 ((\<lambda>x. t - f x) ` A)) = t - Min (f ` A)"
proof (rule Max_eqI)
  show "finite (insert 0 ((\<lambda>x. t - f x) ` A))" using assms(1) by simp
  show "y \<le> t - Min (f ` A)" if "y \<in> insert 0 ((\<lambda>x. t - f x) ` A)" for y
    using that assms(1) by (auto intro!: diff_le_mono2 Min_le)
  have "Min (f ` A) \<in> f ` A" using assms by (intro Min_in) auto
  then show "t - Min (f ` A) \<in> insert 0 ((\<lambda>x. t - f x) ` A)" by auto
qed

lemma batch_urgency_deadline:
  assumes "plan_current core" and "b \<in> set (pp_batches (pc_plan core))"
    and "\<forall>i \<in> set (planned_points (pc_catalog core)). timely (pc_catalog core) now i"
    and "batchPollUrgency core b now = (due, u)"
  shows "due \<longleftrightarrow> batch_deadline core b \<le> unat now" "unat u = unat now - batch_deadline core b"
proof -
  let ?c = "pc_catalog core" and ?ms = "members_of (pc_plan core) b"
  have "plan_ok (cat_entries ?c) (planned_points ?c) (pc_plan core)"
    using assms(1) poll_plan_ok by (auto simp: plan_current_def)
  note m = members_of_batch [OF this assms(2)]
  have t: "\<forall>m \<in> set ?ms. timely ?c now (unat (bm_index m))" using m(3) assms(3) by blast
  have s: "urgency_scan ?c now ?ms False 0 = (due, u)"
    using assms(1,4) by (simp add: batchPollUrgency_def plan_current_def)
  let ?dl = "\<lambda>m. point_deadline ?c (unat (bm_index m))"
  show "due \<longleftrightarrow> batch_deadline core b \<le> unat now"
    using urgency_scan_timely(1) [OF t s] m(2)
    by (simp add: batch_deadline_def Min_le_iff)
  show "unat u = unat now - batch_deadline core b"
    using urgency_scan_timely(2) [OF t s] Max_lateness [of "set ?ms" "unat now" ?dl] m(2)
    by (simp add: batch_deadline_def)
qed

lemma scheduler_earliest:
  assumes cur: "plan_current core"
    and t: "\<forall>i \<in> set (planned_points (pc_catalog core)). timely (pc_catalog core) now i"
    and "next < length (pp_batches (pc_plan core))"
    and sel: "select_batch core now (length (pp_batches (pc_plan core))) next
          (length (pp_batches (pc_plan core))) 0 = (next', sel)"
  defines "n \<equiv> length (pp_batches (pc_plan core))"
    and "dl \<equiv> \<lambda>k. batch_deadline core (pp_batches (pc_plan core) ! k)"
  shows "next' < n" "sel \<le> n" "sel = n \<longleftrightarrow> (\<forall>k<n. unat now < dl k)"
    "sel < n \<longrightarrow> dl sel \<le> unat now \<and> (\<forall>k<n. dl sel \<le> dl k)"
proof -
  let ?bs = "pp_batches (pc_plan core)"
  let ?u = "\<lambda>k. snd (batchPollUrgency core (?bs ! k) now)"
  let ?ready = "\<lambda>k. bt_valid (?bs ! k) \<and> fst (batchPollUrgency core (?bs ! k) now)"
  have ok: "plan_ok (cat_entries (pc_catalog core)) (planned_points (pc_catalog core)) (pc_plan core)"
    using cur poll_plan_ok by (auto simp: plan_current_def)
  have u: "?ready k \<longleftrightarrow> dl k \<le> unat now" "unat (?u k) = unat now - dl k" if "k < n" for k
  proof -
    have b: "?bs ! k \<in> set ?bs" using that by (simp add: n_def)
    then have "bt_valid (?bs ! k)" using ok by (simp add: plan_ok_def batch_ok_def)
    moreover obtain due v where "batchPollUrgency core (?bs ! k) now = (due, v)" by fastforce
    ultimately show "?ready k \<longleftrightarrow> dl k \<le> unat now" "unat (?u k) = unat now - dl k"
      using batch_urgency_deadline [OF cur b t] by (simp_all add: dl_def)
  qed
  have next': "next' < n" and rng: "sel = n \<or> sel < n \<and> ?ready sel"
    and none: "sel = n \<longrightarrow> (\<forall>j<n. \<not> ?ready ((next + j) mod n))"
    and best: "sel < n \<longrightarrow> (\<forall>j<n. ?ready ((next + j) mod n) \<longrightarrow> ?u ((next + j) mod n) \<le> ?u sel)"
    using select_batch_spec [OF assms(3) _ sel] by (simp_all add: n_def)
  have all: "(\<forall>j<n. P ((next + j) mod n)) \<longleftrightarrow> (\<forall>k<n. P k)" for P
  proof
    assume a: "\<forall>j<n. P ((next + j) mod n)"
    show "\<forall>k<n. P k" using rotation_covers [of "next" n] assms(3) a by (metis n_def)
  next
    assume "\<forall>k<n. P k"
    moreover have "0 < n" using assms(3) unfolding n_def by (rule le_less_trans [OF le0])
    ultimately show "\<forall>j<n. P ((next + j) mod n)" by simp
  qed
  show "next' < n" by (rule next')
  show "sel \<le> n" using rng by auto
  show "sel = n \<longleftrightarrow> (\<forall>k<n. unat now < dl k)"
    using none rng u(1) unfolding all [of "\<lambda>k. \<not> ?ready k"] by (metis not_le)
  have "\<forall>k<n. dl sel \<le> dl k" if s: "sel < n"
  proof (intro allI impI)
    fix k assume k: "k < n"
    have r: "dl sel \<le> unat now" using rng s u(1) [OF s] by auto
    show "dl sel \<le> dl k"
    proof (cases "dl k \<le> unat now")
      case True
      then have "?u k \<le> ?u sel"
        using best s u(1) [OF k] k unfolding all [of "\<lambda>k. ?ready k \<longrightarrow> ?u k \<le> ?u sel"] by blast
      then show ?thesis using u(2) [OF k] u(2) [OF s] True r by (simp add: word_le_nat_alt)
    qed (use r in simp)
  qed
  then show "sel < n \<longrightarrow> dl sel \<le> unat now \<and> (\<forall>k<n. dl sel \<le> dl k)"
    using rng u(1) by auto
qed

text \<open>
  C18: The rotating scan of the service is an earliest-deadline-first scheduler: with a plan
  that belongs to the catalog and states from the past, it selects no batch exactly when
  none is due, and otherwise a due batch whose deadline none precedes.
\<close>
theorem scheduler_earliest_deadline:
  assumes "plan_current core" and "next < length (pp_batches (pc_plan core))"
    and "\<forall>i \<in> set (planned_points (pc_catalog core)). timely (pc_catalog core) now i"
  shows "let n = length (pp_batches (pc_plan core));
             dl = (\<lambda>k. batch_deadline core (pp_batches (pc_plan core) ! k));
             (next', sel) = select_batch core now n next n 0
         in (sel = n \<longleftrightarrow> (\<forall>k<n. unat now < dl k)) \<and>
            (sel \<noteq> n \<longrightarrow> sel < n \<and> dl sel \<le> unat now \<and> (\<forall>k<n. dl sel \<le> dl k))"
proof -
  let ?n = "length (pp_batches (pc_plan core))"
  obtain next' sel where s: "select_batch core now ?n next ?n 0 = (next', sel)" by fastforce
  show ?thesis
    using scheduler_earliest [OF assms(1,3,2) s] by (auto simp: s Let_def)
qed

text \<open>Two points on two ports: the first is refreshed twice as often as the second.\<close>

definition two_ports :: "u8 \<Rightarrow> modbus_ctl plc_core" where
  "two_ports port =
     rebuildPollPlan (core_begin
       (Some (sample_rows [modbus_point ''fast'' TyUint16 port 16 1 500,
                           modbus_point ''slow'' TyUint16 0 900 1 1000]))
       (Some (new_ModbusMaster deaf_controller 25000000))
       (new_PlcCore (new_ModbusMaster deaf_controller 25000000)
         (new_PointCatalog (\<lambda>_. empty_state))))"

lemma two_ports_catalog:
  "pc_has_catalog (two_ports port)" "cat_count (pc_catalog (two_ports port)) = 2"
  "cat_entries (pc_catalog (two_ports port)) 0 = modbus_point ''fast'' TyUint16 port 16 1 500"
  "cat_entries (pc_catalog (two_ports port)) 1 = modbus_point ''slow'' TyUint16 0 900 1 1000"
  "cat_states (pc_catalog (two_ports port)) = (\<lambda>_. empty_state)"
  by (simp_all add: two_ports_def rebuildPollPlan_def core_begin_def sample_rows_def
      new_PointCatalog_def resetIndex_def)

lemma two_ports_current: "plan_current (two_ports port)"
  using two_ports_catalog [of port]
  by (simp add: plan_current_def kMaxPoints_def)
    (simp add: two_ports_def rebuildPollPlan_def core_begin_def new_PlcCore_def)

lemma two_ports_timely:
  "\<forall>i \<in> set (planned_points (pc_catalog (two_ports port))). timely (pc_catalog (two_ports port)) now i"
proof
  fix i assume "i \<in> set (planned_points (pc_catalog (two_ports port)))"
  then have "i = 0 \<or> i = 1" using planned_points_bound two_ports_catalog(2) by fastforce
  then show "timely (pc_catalog (two_ports port)) now i"
    using two_ports_catalog [of port] by (auto simp: timely_def modbus_point_def empty_state_def)
qed

lemma modbus_point_fields [simp]:
  "ref_port_index (modbus_point nm ty port addr regs refresh) = port"
  "ref_slave_address (modbus_point nm ty port addr regs refresh) = 7"
  "ref_address (modbus_point nm ty port addr regs refresh) = addr"
  "ref_register_count (modbus_point nm ty port addr regs refresh) = regs"
  "ref_table (modbus_point nm ty port addr regs refresh) = TableHoldingRegisters"
  "ref_access (modbus_point nm ty port addr regs refresh) = AccessReadWrite"
  "backend (modbus_point nm ty port addr regs refresh) = BackendModbus"
  "value_type (modbus_point nm ty port addr regs refresh) = ty"
  "refresh_ms (polling (modbus_point nm ty port addr regs refresh)) = refresh"
  by (simp_all add: modbus_point_def modbus_ref_def le16_def ref_port_index_def ref_slave_address_def
      ref_address_def ref_register_count_def ref_table_def ref_access_def modbus_table_of_raw_def
      modbus_access_of_raw_def)

lemma two_ports_plan:
  "pc_plan (two_ports 1) = \<lparr>pp_batches =
    [\<lparr>bt_valid = True, bt_port = 0, bt_slave = 7, bt_table = TableHoldingRegisters, bt_start = 900,
     bt_quantity = 1, bt_member_start = 0, bt_member_count = 1\<rparr>,
   \<lparr>bt_valid = True, bt_port = 1, bt_slave = 7, bt_table = TableHoldingRegisters, bt_start = 16,
     bt_quantity = 1, bt_member_start = 1, bt_member_count = 1\<rparr>],
  pp_members = [\<lparr>bm_index = 1, bm_offset = 0\<rparr>, \<lparr>bm_index = 0, bm_offset = 0\<rparr>]\<rparr>"
proof -
  have c: "pc_plan (two_ports 1) = poll_plan_of (pc_max_gap (two_ports 1)) (pc_catalog (two_ports 1))"
    using two_ports_current by (simp add: plan_current_def)
  have u: "[0..<2] = [0, Suc 0]" by (simp add: upt_rec)
  show ?thesis
    unfolding c using two_ports_catalog(2-4) [of 1]
    by (simp add: poll_plan_of_def sort_polled_def u polled_point_def modbus_poll_sort_before_def
       plan_point_def Let_def modbus_point_span_def modbus_table_is_bitwise_def writable_access_def
      merged_quantity_def add_member_def kMaxModbusPollBatches_def kMaxModbusBatchMembers_def kMaxPoints_def)
qed
lemma two_ports_deadlines:
  "batch_deadline (two_ports 1) (pp_batches (pc_plan (two_ports 1)) ! 0) = 1000"
  "batch_deadline (two_ports 1) (pp_batches (pc_plan (two_ports 1)) ! Suc 0) = 500"
  using two_ports_catalog(3-5) [of 1]
  by (simp_all add: batch_deadline_def two_ports_plan members_of_def plan_member_def
      point_deadline_def empty_state_def)

lemma scheduler_earliest_deadline_witness:
  "snd (select_batch (two_ports 1) 5000 2 0 2 0) = 1"
proof -
  let ?core = "two_ports 1"
  have n: "length (pp_batches (pc_plan ?core)) = 2" by (simp add: two_ports_plan)
  have two: "(\<forall>k<2. P k) \<longleftrightarrow> P 0 \<and> P 1" for P :: "nat \<Rightarrow> bool"
    by (auto simp: less_2_cases_iff)
  have "0 < length (pp_batches (pc_plan ?core))" by (simp add: n)
  note edf = scheduler_earliest_deadline [OF two_ports_current this two_ports_timely, of 5000,
      unfolded n Let_def]
  obtain next' sel where s: "select_batch ?core 5000 2 0 2 0 = (next', sel)" by fastforce
  have "sel \<noteq> 2" using edf by (simp add: s two two_ports_deadlines)
  then have "sel < 2" "batch_deadline ?core (pp_batches (pc_plan ?core) ! sel) \<le> 500"
    using edf by (simp_all add: s two two_ports_deadlines)
  then show ?thesis using two_ports_deadlines(1) by (auto simp: s less_2_cases_iff)
qed

section \<open>Starvation\<close>

lemma failing_start:
  assumes "bt_port b \<noteq> 0" and "\<not> bt_valid (pc_active core)"
  shows "startBatchPoll bus base b core = (False, core)" "failActiveBatch now q core = core"
  using assms by (simp_all add: startBatchPoll_def failActiveBatch_def Let_def)

lemma batch_deadline_next [simp]:
  "batch_deadline (core\<lparr>pc_next_batch := k\<rparr>) b = batch_deadline core b"
  by (simp add: batch_deadline_def)

lemma plan_current_next [simp]: "plan_current (core\<lparr>pc_next_batch := k\<rparr>) = plan_current core"
  by (simp add: plan_current_def)

lemma poll_idle_starved:
  assumes "plan_current core" and "\<not> bt_valid (pc_active core)"
    and "\<forall>i \<in> set (planned_points (pc_catalog core)). timely (pc_catalog core) now i"
    and "pc_next_batch core < length (pp_batches (pc_plan core))"
    and "s < length (pp_batches (pc_plan core))" and "bt_port (pp_batches (pc_plan core) ! s) \<noteq> 0"
    and "\<forall>k < length (pp_batches (pc_plan core)). k \<noteq> s \<longrightarrow>
      batch_deadline core (pp_batches (pc_plan core) ! s) < batch_deadline core (pp_batches (pc_plan core) ! k)"
  shows "\<exists>k < length (pp_batches (pc_plan core)). poll_idle bus base now core = core\<lparr>pc_next_batch := k\<rparr>"
proof -
  let ?bs = "pp_batches (pc_plan core)" let ?n = "length ?bs"
  obtain next' sel where sel: "select_batch core now ?n (pc_next_batch core) ?n 0 = (next', sel)"
    by fastforce
  note e = scheduler_earliest [OF assms(1,3,4) sel]
  show ?thesis
  proof (cases "sel = ?n")
    case True
    then show ?thesis using e(1) by (auto simp: poll_idle_def sel)
  next
    case False
    then have "sel < ?n" using e(2) by simp
    then have s: "sel = s" using e(4) assms(5,7) by (metis not_le)
    let ?core = "core\<lparr>pc_next_batch := (s + 1) mod ?n\<rparr>"
    have "poll_idle bus base now core = ?core"
      using False assms(2,5,6) failing_start [of "?bs ! s" ?core]
      by (simp add: poll_idle_def sel s Let_def)
    moreover have "(s + 1) mod ?n < ?n" using assms(5) by (intro mod_less_divisor) linarith
    ultimately show ?thesis by blast
  qed
qed

text \<open>
  A batch that cannot be started because it is on a port other than 0 is not marked as
  polled: its points keep their deadline. When it has the earliest deadline of all batches,
  the idle poll step selects it again at every later clock reading and changes nothing but
  the scan position: no request reaches the controller and no point is refreshed.
\<close>
theorem failed_start_starves:
  assumes "plan_current core" and "pc_poll_state core = PollIdle" and "\<not> bt_valid (pc_active core)"
    and "pc_next_batch core < length (pp_batches (pc_plan core))"
    and "s < length (pp_batches (pc_plan core))" and "bt_port (pp_batches (pc_plan core) ! s) \<noteq> 0"
    and "\<forall>k < length (pp_batches (pc_plan core)). k \<noteq> s \<longrightarrow>
      batch_deadline core (pp_batches (pc_plan core) ! s) < batch_deadline core (pp_batches (pc_plan core) ! k)"
    and "\<forall>now \<in> set readings. \<forall>i \<in> set (planned_points (pc_catalog core)). timely (pc_catalog core) now i"
  shows "\<exists>k. fold (poll_idle bus base) readings core = core\<lparr>pc_next_batch := k\<rparr>"
proof -
  have "\<exists>k < length (pp_batches (pc_plan core)). fold (poll_idle bus base) readings (core\<lparr>pc_next_batch := k0\<rparr>) =
      core\<lparr>pc_next_batch := k\<rparr>" if "k0 < length (pp_batches (pc_plan core))" for k0
    using that assms(8)
  proof (induction readings arbitrary: k0)
    case (Cons now readings)
    obtain k1 where k1: "k1 < length (pp_batches (pc_plan core))"
      "poll_idle bus base now (core\<lparr>pc_next_batch := k0\<rparr>) = core\<lparr>pc_next_batch := k1\<rparr>"
      using poll_idle_starved [of "core\<lparr>pc_next_batch := k0\<rparr>" now s bus base] assms(1,3,5-7) Cons.prems
      by auto
    then show ?case using Cons.IH [OF k1(1)] Cons.prems(2) by auto
  qed auto
  from this [OF assms(4)] show ?thesis by auto
qed

lemma failed_start_starves_witness:
  "pc_modbus (fold (poll_idle modbus1_bus MODBUS1_BASE) [2000, 60000, 3600000] (two_ports 1)) =
     pc_modbus (two_ports 1) \<and>
   last_update_ms (cat_states (pc_catalog
     (fold (poll_idle modbus1_bus MODBUS1_BASE) [2000, 60000, 3600000] (two_ports 1))) 1) = 0"
proof -
  let ?core = "two_ports 1"
  have idle: "pc_poll_state ?core = PollIdle" "\<not> bt_valid (pc_active ?core)" "pc_next_batch ?core = 0"
    by (simp_all add: two_ports_def rebuildPollPlan_def core_begin_def empty_batch_def)
  have "\<exists>k. fold (poll_idle modbus1_bus MODBUS1_BASE) [2000, 60000, 3600000] ?core =
      ?core\<lparr>pc_next_batch := k\<rparr>"
    by (rule failed_start_starves [OF two_ports_current idle(1,2), of 1])
      (use two_ports_deadlines two_ports_timely in
        \<open>simp_all add: idle(3) two_ports_plan less_2_cases_iff numeral_2_eq_2 [symmetric]\<close>)
  then show ?thesis using two_ports_catalog(5) [of 1] by (auto simp: empty_state_def)
qed

end
