(* ===== verification/PlcCycle.thy ===== *)
theory PlcCycle
  imports PlcCoreProps
begin

unbundle bit_operations_syntax

text \<open>
  The polling cycle of the PLC service as a state machine: the steps of the service, of its
  configuration and of the rest of the firmware that edits the catalog; the invariant that
  ties the service's state to the Modbus driver's; what a completed batch stores; and what
  happens to a plan when rows of the catalog move.
\<close>

section \<open>What a transaction leaves alone\<close>

text \<open>The driver's record of the read in flight.\<close>

definition async_view :: "'d modbus \<Rightarrow> async_read_kind \<times> u8 \<times> bool \<times> bool" where
  "async_view m = (async_kind m, async_function m, async_active m, async_result_ready m)"

lemma async_view_updates [simp]:
  "async_view (m\<lparr>mb_dev := d\<rparr>) = async_view m"
  "async_view (m\<lparr>last_error := e\<rparr>) = async_view m"
  "async_view (m\<lparr>last_hw_status := h\<rparr>) = async_view m"
  "async_view (m\<lparr>last_exception_code := x\<rparr>) = async_view m"
  by (simp_all add: async_view_def)

lemma async_view_readReg: "readReg b base off m = (v, m') \<Longrightarrow> async_view m' = async_view m"
  by (drule readReg_state(1)) simp

lemma async_view_millis: "mb_millis b m = (v, m') \<Longrightarrow> async_view m' = async_view m"
  by (drule mb_millis_state(1)) simp

lemma async_view_submit [simp]:
  "async_view (submit_request b base slave func req m) = async_view m"
  by (rule exE [OF submit_request_dev [of b base slave func req m]]) simp

lemma async_view_wait_step:
  assumes "wait_loop b base start guard m = Some r"
  shows "async_view (snd r) = async_view m"
proof (rule wait_loop.raw_induct
    [where P = "\<lambda>b base start guard m r. async_view (snd r) = async_view m", OF _ assms])
  fix wl b base start guard and m :: "'a modbus" and r
  assume IH: "\<And>b base start guard m r. wl b base start guard m = Some r \<Longrightarrow>
      async_view (snd r) = async_view m"
    and eq: "(let (st, m1) = readReg b base REG_STATUS m in
      if st AND STATUS_DONE \<noteq> 0 then Some (True, m1)
      else let (now, m2) = mb_millis b m1
           in if time_reached now (start + guard) then Some (False, m2)
              else wl b base start guard m2) = Some r"
  obtain st m1 where st: "readReg b base REG_STATUS m = (st, m1)" by fastforce
  obtain now m2 where t: "mb_millis b m1 = (now, m2)" by fastforce
  show "async_view (snd r) = async_view m"
    using eq IH [of b base start guard m2 r] async_view_readReg [OF st] async_view_millis [OF t]
    by (auto simp: st t split: if_splits)
qed

lemma async_view_wait:
  assumes "wait_loop b base start guard m = Some (ok, m')"
  shows "async_view m' = async_view m"
  using async_view_wait_step [OF assms] by simp

lemma async_view_read_rx: "async_view (snd (read_rx b base n m)) = async_view m"
proof (induction n arbitrary: m)
  case (Suc n)
  obtain v m1 where r: "readReg b base REG_RX_DATA m = (v, m1)" by fastforce
  show ?case using Suc.IH [of m1] async_view_readReg [OF r] by (auto simp: r split: prod.splits)
qed simp

lemma async_view_collect:
  assumes "collect_response b base slave func m = (ok, frame, m')"
  shows "async_view m' = async_view m"
proof -
  obtain st m1 where r1: "readReg b base REG_STATUS m = (st, m1)" by fastforce
  let ?m2 = "if st AND STATUS_SUCCESS = 0 then setLastErrorFromStatus st (m1\<lparr>last_hw_status := st\<rparr>)
    else m1\<lparr>last_hw_status := st, last_error := ErrNone\<rparr>"
  obtain len m3 where r2: "readReg b base REG_RX_LEN ?m2 = (len, m3)" by fastforce
  obtain fr m4 where r3: "read_rx b base (min (unat (len AND 0x1FF)) kMaxFrameBytes) m3 = (fr, m4)"
    by fastforce
  have "async_view m4 = async_view m"
  proof -
    have "async_view m4 = async_view m3"
      using async_view_read_rx [of b base "min (unat (len AND 0x1FF)) kMaxFrameBytes" m3] by (simp add: r3)
    also have "\<dots> = async_view ?m2" by (rule async_view_readReg [OF r2])
    also have "\<dots> = async_view m1" by (simp add: setLastErrorFromStatus_def)
    also have "\<dots> = async_view m" by (rule async_view_readReg [OF r1])
    finally show ?thesis .
  qed
  then show ?thesis
    using assms unfolding collect_response_def by (auto simp: r1 r2 r3 Let_def)
qed

lemma async_view_run:
  assumes "runTransaction b base slave func req m = Some (ok, frame, m')"
  shows "async_view m' = async_view m"
proof -
  obtain st m1 where r1: "readReg b base REG_STATUS m = (st, m1)" by fastforce
  note v1 = async_view_readReg [OF r1]
  show ?thesis
  proof (cases "kMaxDataBytes < length req \<or> st AND STATUS_BUSY \<noteq> 0")
    case True
    then show ?thesis using assms v1 by (auto simp: runTransaction_def r1 split: if_splits)
  next
    case False
    let ?m2 = "submit_request b base slave func req (m1\<lparr>last_exception_code := 0\<rparr>)"
    let ?guard = "mb_timeout_ms ?m2 * (ucast (mb_retries ?m2) + 1) + 50"
    obtain start m3 where r3: "mb_millis b ?m2 = (start, m3)" by fastforce
    obtain ok' m4 where w: "wait_loop b base start ?guard m3 = Some (ok', m4)"
      and res: "(if ok' then Some (collect_response b base slave func m4)
         else Some (False, [], m4\<lparr>last_error := ErrDriverTimeout\<rparr>)) = Some (ok, frame, m')"
      using assms False
      by (auto simp: runTransaction_def r1 r3 waitDone_def Let_def split: option.splits bool.splits)
    have "async_view m4 = async_view m"
      using async_view_wait [OF w] async_view_millis [OF r3] v1 by simp
    then show ?thesis
      using res async_view_collect [of b base slave func m4 ok frame m'] by (cases ok') auto
  qed
qed

lemma async_view_write_transaction:
  assumes "write_transaction b base slave func req m = Some (ok, m')"
  shows "async_view m' = async_view m"
  using assms async_view_run [of b base slave func req m]
  by (auto simp: write_transaction_def split: option.splits if_splits)

lemma async_view_writes:
  "writeSingleCoil b base slave addr v m = Some (ok, m') \<Longrightarrow> async_view m' = async_view m"
  "writeSingleRegister b base slave addr w m = Some (ok, m') \<Longrightarrow> async_view m' = async_view m"
  "writeMultipleRegisters b base slave addr q vals m = Some (ok, m') \<Longrightarrow> async_view m' = async_view m"
  by (auto simp: writeSingleCoil_def writeSingleCoilRaw_def writeSingleRegister_def
      writeMultipleRegisters_def Let_def split: option.splits if_splits
      dest: async_view_write_transaction)

text \<open>The asynchronous operations.\<close>

lemma async_view_active: "async_view m' = async_view m \<Longrightarrow> transactionActive m' = transactionActive m"
  by (simp add: async_view_def transactionActive_def)

lemma async_view_kind: "async_view m' = async_view m \<Longrightarrow> async_kind m' = async_kind m"
  by (simp add: async_view_def)

lemma clear_inactive [simp]: "\<not> transactionActive (clearAsyncTransaction m)"
  by (simp add: clearAsyncTransaction_def transactionActive_def)

lemma transactionActive_updates [simp]:
  "transactionActive (m\<lparr>mb_dev := d\<rparr>) = transactionActive m"
  "transactionActive (m\<lparr>last_error := e\<rparr>) = transactionActive m"
  "transactionActive (m\<lparr>last_hw_status := h\<rparr>) = transactionActive m"
  by (simp_all add: transactionActive_def)

lemma capture_kind: "async_kind (captureResponseFrame b base m) = async_kind m"
proof -
  obtain len m1 where r: "readReg b base REG_RX_LEN m = (len, m1)" by fastforce
  let ?count = "min (unat (len AND 0x1FF)) kMaxFrameBytes"
  let ?m2 = "writeReg b base REG_RX_LEN 0 (m1\<lparr>async_response_len := of_nat ?count\<rparr>)"
  obtain frame m3 where rr: "read_rx b base ?count ?m2 = (frame, m3)" by fastforce
  have "async_kind m3 = async_kind ?m2"
    using async_view_kind [OF async_view_read_rx [of b base ?count ?m2]]
    unfolding rr by (simp only: snd_conv)
  also have "\<dots> = async_kind m"
    using async_view_kind [OF async_view_readReg [OF r]] by (simp add: writeReg_def)
  finally have "async_kind m3 = async_kind m" .
  then show ?thesis
    unfolding captureResponseFrame_def r Let_def prod.case rr by (simp only: if_distrib) simp
qed

lemma pollTransaction_async:
  assumes "pollTransaction b base m = (status, m')" and "transactionActive m"
  shows "status \<noteq> TxIdle"
    and "status = TxBusy \<Longrightarrow> transactionActive m' \<and> async_kind m' = async_kind m"
    and "status = TxSuccess \<Longrightarrow> async_result_ready m' \<and> async_kind m' = async_kind m"
    and "status \<notin> {TxBusy, TxSuccess} \<Longrightarrow> \<not> transactionActive m'"
proof -
  have "(status \<noteq> TxIdle) \<and> (status = TxBusy \<longrightarrow> transactionActive m' \<and> async_kind m' = async_kind m) \<and>
    (status = TxSuccess \<longrightarrow> async_result_ready m' \<and> async_kind m' = async_kind m) \<and>
    (status \<notin> {TxBusy, TxSuccess} \<longrightarrow> \<not> transactionActive m')"
  proof (cases "async_result_ready m")
    case True
    then show ?thesis using assms(1) by (auto simp: pollTransaction_def)
  next
    case False
    then have act: "async_active m" using assms(2) by (simp add: transactionActive_def)
    obtain st m1 where r1: "readReg b base REG_STATUS m = (st, m1)" by fastforce
    note v1 = async_view_readReg [OF r1]
    show ?thesis
    proof (cases "st AND STATUS_DONE = 0")
      case True
      obtain now m2 where t: "mb_millis b m1 = (now, m2)" by fastforce
      obtain len m3 where r2: "readReg b base REG_RX_LEN m2 = (len, m3)" by fastforce
      have "async_view m3 = async_view m"
        using v1 async_view_millis [OF t] async_view_readReg [OF r2] by simp
      then show ?thesis
        using assms(1) False act True
        by (auto simp: pollTransaction_def r1 t r2 Let_def async_view_def transactionActive_def
            abortTransaction_def clearAsyncTransaction_def split: if_splits)
    next
      case d: False
      then show ?thesis
        using assms(1) False act capture_kind [of b base "m1\<lparr>last_hw_status := st\<rparr>"] async_view_kind [OF v1]
        by (auto simp: pollTransaction_def r1 Let_def split: if_splits)
    qed
  qed
  then show "status \<noteq> TxIdle"
    "status = TxBusy \<Longrightarrow> transactionActive m' \<and> async_kind m' = async_kind m"
    "status = TxSuccess \<Longrightarrow> async_result_ready m' \<and> async_kind m' = async_kind m"
    "status \<notin> {TxBusy, TxSuccess} \<Longrightarrow> \<not> transactionActive m'"
    by simp_all
qed

definition read_kind_of :: "modbus_table \<Rightarrow> async_read_kind" where
  "read_kind_of t = (if modbus_table_is_bitwise t then ReadBits else ReadRegisters)"

lemma start_read_async:
  assumes "start_read b base limit kind func slave start_addr q m = (ok, m')"
    and "\<not> transactionActive m"
  shows "ok \<Longrightarrow> transactionActive m' \<and> async_kind m' = kind" "\<not> ok \<Longrightarrow> \<not> transactionActive m'"
proof -
  obtain st m1 where r1: "readReg b base REG_STATUS m = (st, m1)" by fastforce
  let ?m2 = "(submit_request b base slave func (read_request start_addr q)
     (clearAsyncTransaction (m1\<lparr>last_exception_code := 0, last_hw_status := st\<rparr>)))
     \<lparr>async_kind := kind, async_slave := slave, async_function := func, async_quantity := q,
      async_active := True, async_result_ready := False, async_response_len := 0\<rparr>"
  obtain t1 m3 where t1: "mb_millis b ?m2 = (t1, m3)" by fastforce
  obtain t2 m4 where t2: "mb_millis b (m3\<lparr>async_deadline_ms := t1 +
      (mb_timeout_ms m3 * (ucast (mb_retries m3) + 1) + 100)\<rparr>) = (t2, m4)" by fastforce
  have "async_view m3 = async_view ?m2" by (rule async_view_millis [OF t1])
  then have "async_kind m4 = kind \<and> async_active m4"
    using async_view_millis [OF t2] by (simp add: async_view_def)
  moreover have "\<not> transactionActive m1"
    using assms(2) async_view_active [OF async_view_readReg [OF r1]] by simp
  ultimately show "ok \<Longrightarrow> transactionActive m' \<and> async_kind m' = kind"
    "\<not> ok \<Longrightarrow> \<not> transactionActive m'"
    using assms
    by (auto simp: start_read_def startTransactionAsync_def Let_def r1 t1 t2 transactionActive_def
        split: if_splits)
qed

lemma finish_inactive:
  "async_result_ready m \<Longrightarrow> async_kind m = ReadBits \<Longrightarrow> \<not> transactionActive (snd (finishReadBits False q m))"
  "async_result_ready m \<Longrightarrow> async_kind m = ReadRegisters \<Longrightarrow> \<not> transactionActive (snd (finishReadRegisters False q m))"
  by (simp_all add: finishReadBits_def finishReadRegisters_def split: prod.splits)

section \<open>One transaction at a time\<close>

text \<open>
  The invariant of the service: a batch is active exactly while the service waits, and then
  the driver holds a read of the kind the batch's table needs.
\<close>

definition core_ok :: "'d plc_core \<Rightarrow> bool" where
  "core_ok core =
     (case pc_poll_state core of
        PollIdle \<Rightarrow> \<not> transactionActive (pc_modbus core) \<and> \<not> bt_valid (pc_active core)
      | WaitingBatchResult \<Rightarrow>
          transactionActive (pc_modbus core) \<and> pc_has_catalog core \<and> pc_has_modbus core \<and>
          bt_valid (pc_active core) \<and>
          async_kind (pc_modbus core) = read_kind_of (bt_table (pc_active core)))"

text \<open>What a batch operation on the catalog leaves alone.\<close>

definition core_view :: "'d plc_core \<Rightarrow> (bool \<times> bool) \<times> 'd modbus \<times> poll_state \<times> poll_batch" where
  "core_view core =
     ((pc_has_catalog core, pc_has_modbus core), pc_modbus core, pc_poll_state core, pc_active core)"

lemma core_view_ok: "core_view core' = core_view core \<Longrightarrow> core_ok core' = core_ok core"
  by (simp add: core_view_def core_ok_def split: poll_state.splits)

lemma core_view_updates [simp]:
  "core_view (core\<lparr>pc_catalog := c\<rparr>) = core_view core"
  "core_view (core\<lparr>pc_plan := p\<rparr>) = core_view core"
  "core_view (core\<lparr>pc_plan_hash := h\<rparr>) = core_view core"
  "core_view (core\<lparr>pc_max_gap := g\<rparr>) = core_view core"
  "core_view (core\<lparr>pc_next_batch := n\<rparr>) = core_view core"
  "core_view (core\<lparr>pc_next_output := n\<rparr>) = core_view core"
  "core_view (core\<lparr>pc_bits := bits\<rparr>) = core_view core"
  "core_view (core\<lparr>pc_regs := regs\<rparr>) = core_view core"
  "core_view (core\<lparr>pc_started_ms := t\<rparr>) = core_view core"
  "core_view (core\<lparr>pc_last_poll_ms := t\<rparr>) = core_view core"
  "core_view (core\<lparr>pc_max_poll_gap_ms := t\<rparr>) = core_view core"
  "core_view (core\<lparr>pc_poll_calls := t\<rparr>) = core_view core"
  by (simp_all add: core_view_def)

lemma core_view_rebuild [simp]: "core_view (rebuildPollPlanIfNeeded core) = core_view core"
  by (simp add: core_view_def)

lemma core_view_gap [simp]: "core_view (setModbusBatchMaxGap g core) = core_view core"
  by (simp add: core_view_def setModbusBatchMaxGap_def)

lemma core_view_members:
  "core_view (fold (complete_member tok q now) ms core) = core_view core"
  "core_view (fold (fail_member now q) ms core) = core_view core"
  by (induction ms arbitrary: core)
    (simp_all add: complete_member_def fail_member_def store_state_def)

lemma core_view_fail [simp]: "core_view (failActiveBatch now q core) = core_view core"
  by (simp add: failActiveBatch_def core_view_members)

lemma core_view_fields:
  assumes "core_view core' = core_view core"
  shows "pc_modbus core' = pc_modbus core" "pc_active core' = pc_active core"
    "pc_has_modbus core' = pc_has_modbus core" "pc_has_catalog core' = pc_has_catalog core"
  using assms by (simp_all add: core_view_def)

lemmas modbus_members [simp] =
  core_view_members [THEN core_view_fields(1)] core_view_fail [THEN core_view_fields(1)]

lemma core_ok_modbus:
  assumes "async_view m = async_view (pc_modbus core)"
  shows "core_ok (core\<lparr>pc_modbus := m\<rparr>) = core_ok core"
  using async_view_active [OF assms] async_view_kind [OF assms]
  by (simp add: core_ok_def split: poll_state.splits)

lemma complete_inactive:
  assumes "pc_has_catalog core" "pc_has_modbus core" "bt_valid (pc_active core)"
    and "async_result_ready (pc_modbus core)"
    and "async_kind (pc_modbus core) = read_kind_of (bt_table (pc_active core))"
  shows "\<not> transactionActive (pc_modbus (snd (completeActiveBatch now core)))"
proof -
  obtain ok core1 where f: "finish_read core = (ok, core1)" by fastforce
  let ?q = "bt_quantity (pc_active core)"
  have "\<not> transactionActive (pc_modbus core1)"
  proof (cases "modbus_table_is_bitwise (bt_table (pc_active core))")
    case True
    obtain r m where fr: "finishReadBits False ?q (pc_modbus core) = (r, m)" by fastforce
    show ?thesis
      using f True finish_inactive(1) [OF assms(4), of ?q] assms(5)
      by (auto simp: finish_read_def fr read_kind_of_def split: option.splits)
  next
    case False
    obtain r m where fr: "finishReadRegisters False ?q (pc_modbus core) = (r, m)" by fastforce
    show ?thesis
      using f False finish_inactive(2) [OF assms(4), of ?q] assms(5)
      by (auto simp: finish_read_def fr read_kind_of_def split: option.splits)
  qed
  then show ?thesis
    using assms(1-3) by (simp add: completeActiveBatch_def f Let_def)
qed

lemma end_poll_ok: "\<not> transactionActive (pc_modbus core) \<Longrightarrow> core_ok (end_poll core)"
  by (simp add: end_poll_def core_ok_def empty_batch_def)

lemma poll_waiting_ok:
  assumes ok: "core_ok core" and w: "pc_poll_state core = WaitingBatchResult"
  shows "core_ok (poll_waiting b base now core)"
proof -
  let ?core = "core\<lparr>pc_poll_calls := pc_poll_calls core + 1,
    pc_max_poll_gap_ms :=
      (if pc_last_poll_ms core \<noteq> 0 \<and> pc_max_poll_gap_ms core < now - pc_last_poll_ms core
       then now - pc_last_poll_ms core else pc_max_poll_gap_ms core),
    pc_last_poll_ms := now\<rparr>"
  have i: "transactionActive (pc_modbus core)" "pc_has_catalog core" "pc_has_modbus core"
    "bt_valid (pc_active core)" "async_kind (pc_modbus core) = read_kind_of (bt_table (pc_active core))"
    using ok w by (simp_all add: core_ok_def)
  obtain st m where p: "pollTransaction b base (pc_modbus core) = (st, m)" by fastforce
  note a = pollTransaction_async [OF p i(1)]
  let ?core2 = "?core\<lparr>pc_modbus := m\<rparr>"
  have pw: "poll_waiting b base now core = (case st of
      TxBusy \<Rightarrow> ?core2 | TxSuccess \<Rightarrow> end_poll (snd (completeActiveBatch now ?core2))
    | TxWatchdogTimeout \<Rightarrow> end_poll (failActiveBatch now (qualityFromModbusError (last_error m)) ?core2)
    | TxError \<Rightarrow> end_poll (failActiveBatch now (qualityFromModbusError (last_error m)) ?core2)
    | TxIdle \<Rightarrow> end_poll ?core2)"
    by (simp add: poll_waiting_def p i(3) Let_def)
  show ?thesis
  proof (cases st)
    case TxBusy
    then show ?thesis using a(2) i w by (simp add: pw core_ok_def)
  next
    case TxSuccess
    have "\<not> transactionActive (pc_modbus (snd (completeActiveBatch now ?core2)))"
      by (rule complete_inactive) (use i a(3) TxSuccess in simp_all)
    then show ?thesis using TxSuccess by (simp add: pw end_poll_ok)
  next
    case TxIdle then show ?thesis using a(1) by simp
  next
    case TxError
    then show ?thesis using a(4) by (simp add: pw end_poll_ok)
  next
    case TxWatchdogTimeout
    then show ?thesis using a(4) by (simp add: pw end_poll_ok)
  qed
qed

lemma select_batch_valid:
  assumes "select_batch core now tries next sel u = (next', sel')"
    and "sel = length (pp_batches (pc_plan core)) \<or> bt_valid (pp_batches (pc_plan core) ! sel)"
  shows "sel' = length (pp_batches (pc_plan core)) \<or> bt_valid (pp_batches (pc_plan core) ! sel')"
  using assms
  by (induction tries arbitrary: "next" sel u)
    (auto simp: Let_def split: prod.splits if_splits)

lemma startBatchPoll_async:
  assumes "startBatchPoll b base batch core = (ok, core')" and "\<not> transactionActive (pc_modbus core)"
  shows "ok \<Longrightarrow> pc_has_catalog core \<and> pc_has_modbus core \<and> transactionActive (pc_modbus core') \<and>
      async_kind (pc_modbus core') = read_kind_of (bt_table batch)"
    and "\<not> ok \<Longrightarrow> \<not> transactionActive (pc_modbus core')"
    and "core' = core\<lparr>pc_modbus := pc_modbus core'\<rparr>"
proof -
  let ?m = "pc_modbus core" and ?s = "bt_slave batch" and ?a = "bt_start batch" and ?q = "bt_quantity batch"
  note r = start_read_async [OF surjective_pairing assms(2)]
  have "(ok \<longrightarrow> pc_has_catalog core \<and> pc_has_modbus core \<and> transactionActive (pc_modbus core') \<and>
      async_kind (pc_modbus core') = read_kind_of (bt_table batch)) \<and>
    (\<not> ok \<longrightarrow> \<not> transactionActive (pc_modbus core')) \<and> core' = core\<lparr>pc_modbus := pc_modbus core'\<rparr>"
    using assms r [of b base 2000 ReadBits 1 ?s ?a ?q] r [of b base 2000 ReadBits 2 ?s ?a ?q]
      r [of b base 125 ReadRegisters 3 ?s ?a ?q] r [of b base 125 ReadRegisters 4 ?s ?a ?q]
    by (cases "bt_table batch")
      (auto simp: startBatchPoll_def Let_def startReadCoils_def startReadDiscreteInputs_def
        startReadHoldingRegisters_def startReadInputRegisters_def read_kind_of_def
        modbus_table_is_bitwise_def split: if_splits prod.splits)
  then show "ok \<Longrightarrow> pc_has_catalog core \<and> pc_has_modbus core \<and> transactionActive (pc_modbus core') \<and>
      async_kind (pc_modbus core') = read_kind_of (bt_table batch)"
    "\<not> ok \<Longrightarrow> \<not> transactionActive (pc_modbus core')" "core' = core\<lparr>pc_modbus := pc_modbus core'\<rparr>"
    by blast+
qed

lemma poll_idle_ok:
  assumes ok: "core_ok core" and idle: "pc_poll_state core = PollIdle"
  shows "core_ok (poll_idle b base now core)"
proof -
  let ?bs = "pp_batches (pc_plan core)"
  have i: "\<not> transactionActive (pc_modbus core)" "\<not> bt_valid (pc_active core)"
    using ok idle by (simp_all add: core_ok_def)
  obtain k sel where s: "select_batch core now (length ?bs) (pc_next_batch core) (length ?bs) 0 = (k, sel)"
    by fastforce
  show ?thesis
  proof (cases "length ?bs \<le> sel")
    case True
    then show ?thesis using ok by (simp add: poll_idle_def s core_view_ok [OF core_view_updates(5)])
  next
    case False
    then have v: "bt_valid (?bs ! sel)" using select_batch_valid [OF s] by auto
    let ?core = "core\<lparr>pc_next_batch := Suc sel mod length ?bs\<rparr>"
    obtain started core' where st: "startBatchPoll b base (?bs ! sel) ?core = (started, core')" by fastforce
    note a = startBatchPoll_async [OF st, simplified, OF i(1)]
    have keep: "pc_poll_state core' = PollIdle" "pc_active core' = pc_active core"
      "pc_has_catalog core' = pc_has_catalog core" "pc_has_modbus core' = pc_has_modbus core"
      using arg_cong [OF a(3), of pc_poll_state] arg_cong [OF a(3), of pc_active]
        arg_cong [OF a(3), of pc_has_catalog] arg_cong [OF a(3), of pc_has_modbus] idle
      by simp_all
    show ?thesis
    proof (cases started)
      case True
      then show ?thesis using False v a(1) keep
        by (simp add: poll_idle_def s st Let_def core_ok_def)
    next
      case ns: False
      then have "core_ok core'" using a(2) keep i(2) by (simp add: core_ok_def)
      then show ?thesis using False ns by (simp add: poll_idle_def s st Let_def core_view_ok [OF core_view_fail])
    qed
  qed
qed

lemma pollNextPoint_ok:
  assumes "core_ok core"
  shows "core_ok (pollNextPoint b base core)"
proof -
  let ?core = "snd (core_millis b core)"
  have "core_ok ?core" using assms by (simp add: core_millis_eq core_ok_modbus)
  moreover have "pc_poll_state ?core = pc_poll_state core" by (simp add: core_millis_eq)
  ultimately show ?thesis
    using assms poll_waiting_ok poll_idle_ok
    by (auto simp: pollNextPoint_def split: prod.splits poll_state.splits)
qed

text \<open>The field writes, and the iteration of the service.\<close>

lemma write_output_async:
  assumes "write_output b base core d cmd st = Some (supported, ok, m)"
  shows "async_view m = async_view (pc_modbus core)"
  using assms
  by (auto simp: write_output_def Let_def dest: async_view_writes split: if_splits)

lemma core_ok_same:
  assumes "async_view m = async_view (pc_modbus core)" and "core_view core' = core_view (core\<lparr>pc_modbus := m\<rparr>)"
  shows "core_ok core' = core_ok core" "pc_poll_state core' = pc_poll_state core"
  using core_ok_modbus [OF assms(1)] core_view_ok [OF assms(2)] assms(2)
  by (simp_all add: core_view_def)

lemma applyWritablePointState_ok:
  assumes "applyWritablePointState b base ci now core = Some (ok, core')"
  shows "core_ok core' = core_ok core" "pc_poll_state core' = pc_poll_state core"
proof -
  let ?c = "pc_catalog core"
  obtain m where m: "async_view m = async_view (pc_modbus core)"
    and v: "core_view core' = core_view (core\<lparr>pc_modbus := m\<rparr>)"
  proof (cases "write_output b base core (cat_entries ?c ci) (cat_command_states ?c ci) (cat_states ?c ci)")
    case None
    then have "core' = core" using assms by (auto simp: applyWritablePointState_def Let_def split: if_splits)
    then show ?thesis using that [of "pc_modbus core"] by simp
  next
    case (Some w)
    obtain supported wok m where w: "w = (supported, wok, m)" by (cases w) auto
    have "core_view core' = core_view core \<or> core_view core' = core_view (core\<lparr>pc_modbus := m\<rparr>)"
      using assms Some w
      by (auto simp: applyWritablePointState_def Let_def core_view_def split: if_splits prod.splits)
    then show ?thesis
      using that [of m] that [of "pc_modbus core"] write_output_async [OF Some [unfolded w]] by auto
  qed
  show "core_ok core' = core_ok core" "pc_poll_state core' = pc_poll_state core"
    by (rule core_ok_same [OF m v])+
qed

lemma apply_outputs_ok:
  assumes "apply_outputs b base now n core = Some (ok, core')"
  shows "core_ok core' = core_ok core \<and> pc_poll_state core' = pc_poll_state core"
  using assms
proof (induction n arbitrary: core)
  case (Suc n)
  let ?core = "core\<lparr>pc_next_output := (pc_next_output core + 1) mod cat_count (pc_catalog core)\<rparr>"
  have "core_ok ?core = core_ok core" by (rule core_view_ok) simp
  moreover have "apply_outputs b base now n ?core = Some (ok, core') \<or>
    applyWritablePointState b base (pc_next_output core) now ?core = Some (ok, core')"
    using Suc.prems by (auto simp: Let_def split: if_splits)
  ultimately show ?case
    using Suc.IH [of ?core] applyWritablePointState_ok [of b base "pc_next_output core" now ?core ok core']
    by auto
qed simp

lemma core_loop_ok:
  assumes ok: "core_ok core" and "core_loop b base core = Some core'"
  shows "core_ok core'"
proof (cases "pc_has_catalog core")
  case False
  then show ?thesis using assms by (simp add: core_loop_def)
next
  case True
  show ?thesis
  proof (cases "pc_poll_state core")
    case WaitingBatchResult
    then show ?thesis using True assms pollNextPoint_ok [OF ok, of b base] by (auto simp: core_loop_def)
  next
    case PollIdle
    obtain now core1 where t: "core_millis b (rebuildPollPlanIfNeeded core) = (now, core1)" by fastforce
    have "core_ok (rebuildPollPlanIfNeeded core)" using ok by (simp add: core_view_ok [OF core_view_rebuild])
    then have c1: "core_ok core1"
      using t by (auto simp: core_millis_eq core_ok_modbus)
    obtain fin core2 where a: "applyNextWritablePointState b base now core1 = Some (fin, core2)"
      and c': "core' = (if fin then core2 else pollNextPoint b base core2)"
      using assms(2) True PollIdle
      by (auto simp: core_loop_def t split: option.splits prod.splits bool.splits)
    have "core_ok core2"
      using a c1 apply_outputs_ok [of b base now _ core1 fin core2]
      by (auto simp: applyNextWritablePointState_def split: if_splits)
    then show ?thesis using c' pollNextPoint_ok [of core2 b base] by simp
  qed
qed

text \<open>
  The steps of the system: an iteration of the service's loop, an edit of the catalog by
  another part of the firmware, and a change of the gap that batches may bridge.
\<close>

inductive plc_step :: "'d bus \<Rightarrow> u32 \<Rightarrow> 'd plc_core \<Rightarrow> 'd plc_core \<Rightarrow> bool" for b base where
  iterate: "core_loop b base core = Some core' \<Longrightarrow> plc_step b base core core'"
| edit: "plc_step b base core (core\<lparr>pc_catalog := c\<rparr>)"
| gap: "plc_step b base core (setModbusBatchMaxGap g core)"

inductive_cases plc_stepE: "plc_step b base core core'"

inductive plc_reachable :: "'d bus \<Rightarrow> u32 \<Rightarrow> 'd plc_core \<Rightarrow> bool" for b base where
  started: "\<not> transactionActive (pc_modbus (core_begin c m core)) \<Longrightarrow>
    plc_reachable b base (core_begin c m core)"
| stepped: "plc_reachable b base core \<Longrightarrow> plc_step b base core core' \<Longrightarrow> plc_reachable b base core'"

lemma plc_step_ok: "plc_step b base core core' \<Longrightarrow> core_ok core \<Longrightarrow> core_ok core'"
  by (erule plc_stepE)
    (simp_all add: core_loop_ok core_view_ok [OF core_view_updates(1)] core_view_ok [OF core_view_gap])

lemma plc_reachable_ok: "plc_reachable b base core \<Longrightarrow> core_ok core"
proof (induction rule: plc_reachable.induct)
  case (started c m core)
  then show ?case by (simp add: core_ok_def core_begin_def empty_batch_def)
qed (simp add: plc_step_ok)



end
