(* ===== verification/PlcBatch.thy ===== *)
theory PlcBatch
  imports PlcCoreProps
begin

unbundle bit_operations_syntax

text \<open>
  What the PLC service stores: the poll plan is consistent and complete, a completed batch
  stores the decoded value of every member and nothing else, integers pass through the
  scaling exactly up to 24 bits, and the hash that guards the plan does not see where the
  rows of the catalog are.
\<close>

section \<open>The completion of a batch\<close>

lemma updateState_frame:
  "cat_entries (snd (updateState c pid st)) = cat_entries c"
  "cat_count (snd (updateState c pid st)) = cat_count c"
  "cat_states (snd (updateState c pid st)) =
     (if lookupIndex c pid < cat_count c then (cat_states c)(lookupIndex c pid := st) else cat_states c)"
  by (simp_all add: updateState_def Let_def markStateDirty_frame)

lemma store_state_frame [simp]:
  "cat_entries (pc_catalog (store_state m st core)) = cat_entries (pc_catalog core)"
  "cat_count (pc_catalog (store_state m st core)) = cat_count (pc_catalog core)"
  "pc_active (store_state m st core) = pc_active core"
  "pc_bits (store_state m st core) = pc_bits core"
  "pc_regs (store_state m st core) = pc_regs core"
  by (simp_all add: store_state_def updateState_frame)

lemma complete_member_frame:
  "cat_entries (pc_catalog (complete_member tok q now m core)) = cat_entries (pc_catalog core)"
  "cat_count (pc_catalog (complete_member tok q now m core)) = cat_count (pc_catalog core)"
  "pc_active (complete_member tok q now m core) = pc_active core"
  "pc_bits (complete_member tok q now m core) = pc_bits core"
  "pc_regs (complete_member tok q now m core) = pc_regs core"
  by (simp_all add: complete_member_def)

lemma complete_member_wf:
  "catalog_wf (pc_catalog core) \<Longrightarrow> catalog_wf (pc_catalog (complete_member tok q now m core))"
  by (simp add: complete_member_def store_state_def updateState_wf)

lemma member_matches_frame:
  assumes "cat_entries (pc_catalog core') = cat_entries (pc_catalog core)"
    and "cat_count (pc_catalog core') = cat_count (pc_catalog core)" "pc_active core' = pc_active core"
  shows "member_matches core' m = member_matches core m"
  by (simp add: member_matches_def assms)

lemma read_state_frame:
  assumes "cat_entries (pc_catalog core') = cat_entries (pc_catalog core)" "pc_active core' = pc_active core"
    and "pc_bits core' = pc_bits core" "pc_regs core' = pc_regs core"
    and "cat_states (pc_catalog core') (unat (bm_index m)) = cat_states (pc_catalog core) (unat (bm_index m))"
  shows "read_state core' tok q now m = read_state core tok q now m"
  by (simp only: read_state_def assms)

lemma linear_find_cong:
  assumes "cat_entries c' = cat_entries c" "cat_count c' = cat_count c"
  shows "linear_find c' pid = linear_find c pid"
proof -
  have "last_match_upto c' pid n = last_match_upto c pid n" for n
    by (induction n) (simp_all add: assms)
  then show ?thesis unfolding linear_find_def assms(2) by simp
qed

text \<open>The identity of a row is found at the row itself.\<close>

definition own_row :: "point_catalog \<Rightarrow> nat \<Rightarrow> bool" where
  "own_row c i = (linear_find c (pd_id (cat_entries c i)) = i)"

lemma complete_member_states:
  assumes "catalog_wf (pc_catalog core)"
    and "member_matches core m \<Longrightarrow> own_row (pc_catalog core) (unat (bm_index m))"
  shows "cat_states (pc_catalog (complete_member tok q now m core)) =
    (if member_matches core m
     then (cat_states (pc_catalog core))(unat (bm_index m) := read_state core tok q now m)
     else cat_states (pc_catalog core))"
proof (cases "member_matches core m")
  case True
  let ?c = "pc_catalog core"
  have "lookupIndex ?c (pd_id (cat_entries ?c (unat (bm_index m)))) = unat (bm_index m)"
    using assms True lookupIndex_eq_linear by (metis catalog_wf_def own_row_def)
  moreover have "unat (bm_index m) < cat_count ?c" using True by (simp add: member_matches_def Let_def)
  ultimately show ?thesis
    using True by (simp add: complete_member_def store_state_def updateState_frame)
qed (simp add: complete_member_def)

lemma complete_members:
  assumes "catalog_wf (pc_catalog core)" and "distinct (map (\<lambda>m. unat (bm_index m)) ms)"
    and "\<forall>m \<in> set ms. member_matches core m \<longrightarrow> own_row (pc_catalog core) (unat (bm_index m))"
  shows "m \<in> set ms \<Longrightarrow> member_matches core m \<Longrightarrow>
      cat_states (pc_catalog (fold (complete_member tok q now) ms core)) (unat (bm_index m)) =
      read_state core tok q now m"
    and "\<forall>m \<in> set ms. member_matches core m \<longrightarrow> unat (bm_index m) \<noteq> i \<Longrightarrow>
      cat_states (pc_catalog (fold (complete_member tok q now) ms core)) i = cat_states (pc_catalog core) i"
proof -
  have "(\<forall>m \<in> set ms. member_matches core m \<longrightarrow>
      cat_states (pc_catalog (fold (complete_member tok q now) ms core)) (unat (bm_index m)) =
      read_state core tok q now m) \<and>
    (\<forall>i. (\<forall>m \<in> set ms. member_matches core m \<longrightarrow> unat (bm_index m) \<noteq> i) \<longrightarrow>
      cat_states (pc_catalog (fold (complete_member tok q now) ms core)) i = cat_states (pc_catalog core) i)"
    using assms
  proof (induction ms arbitrary: core)
    case (Cons a ms)
    let ?core = "complete_member tok q now a core"
    let ?res = "cat_states (pc_catalog (fold (complete_member tok q now) ms ?core))"
    note fr = complete_member_frame [of tok q now a core]
    note mm = member_matches_frame [OF fr(1-3)]
    have own: "own_row (pc_catalog ?core) i = own_row (pc_catalog core) i" for i
      unfolding own_row_def by (simp only: linear_find_cong [OF fr(1,2)] fr)
    have st: "cat_states (pc_catalog ?core) =
      (if member_matches core a
       then (cat_states (pc_catalog core))(unat (bm_index a) := read_state core tok q now a)
       else cat_states (pc_catalog core))"
      using Cons.prems(1,3) by (intro complete_member_states) simp_all
    have ih: "\<forall>m \<in> set ms. member_matches core m \<longrightarrow> ?res (unat (bm_index m)) = read_state ?core tok q now m"
      "\<forall>i. (\<forall>m \<in> set ms. member_matches core m \<longrightarrow> unat (bm_index m) \<noteq> i) \<longrightarrow>
        ?res i = cat_states (pc_catalog ?core) i"
      using Cons.IH [of ?core] Cons.prems complete_member_wf [of core tok q now a]
      by (simp_all add: mm own)
    have ne: "unat (bm_index m) \<noteq> unat (bm_index a)" if "m \<in> set ms" for m
      using imageI [OF that, of "\<lambda>m. unat (bm_index m)"] Cons.prems(2) by auto
    have rs: "read_state ?core tok q now m = read_state core tok q now m" if "m \<in> set ms" for m
      by (rule read_state_frame [OF fr(1,3-5)]) (simp add: st ne [OF that])
    have "?res (unat (bm_index a)) = cat_states (pc_catalog ?core) (unat (bm_index a))"
      using ih(2) ne by blast
    then have "?res (unat (bm_index a)) = read_state core tok q now a" if "member_matches core a"
      using that by (simp add: st)
    then show ?case using ih rs by (auto simp: st)
  qed simp
  then show "m \<in> set ms \<Longrightarrow> member_matches core m \<Longrightarrow>
      cat_states (pc_catalog (fold (complete_member tok q now) ms core)) (unat (bm_index m)) =
      read_state core tok q now m"
    "\<forall>m \<in> set ms. member_matches core m \<longrightarrow> unat (bm_index m) \<noteq> i \<Longrightarrow>
      cat_states (pc_catalog (fold (complete_member tok q now) ms core)) i = cat_states (pc_catalog core) i"
    by blast+
qed

text \<open>The members of a batch of the current plan still match it.\<close>

lemma batch_members_match:
  assumes "plan_current core" and "b \<in> set (pp_batches (pc_plan core))" and "pc_active core = b"
    and "m \<in> set (members_of (pc_plan core) b)"
  shows "unat (bm_index m) \<in> set (planned_points (pc_catalog core))" "member_matches core m"
    "unat (bm_offset m) = unat (ref_address (cat_entries (pc_catalog core) (unat (bm_index m)))) - unat (bt_start b)"
    "unat (bm_offset m) < unat (bt_quantity b)"
proof -
  let ?c = "pc_catalog core" let ?d = "cat_entries ?c (unat (bm_index m))"
  have "plan_ok (cat_entries ?c) (planned_points ?c) (pc_plan core)"
    using assms(1) poll_plan_ok by (auto simp: plan_current_def)
  from members_of_batch(3) [OF this assms(2)] assms(4)
  have i: "unat (bm_index m) \<in> set (planned_points ?c)" and ok: "member_ok (cat_entries ?c) b m" by auto
  then have p: "polled_point ?d" "modbus_point_span ?d \<noteq> 0" "unat (bm_index m) < cat_count ?c"
    by (simp_all add: planned_points_def)
  have a: "unat (ref_address ?d) = unat (bt_start b) + unat (bm_offset m)"
    using ok by (simp add: member_ok_def Let_def)
  then have le: "bt_start b \<le> ref_address ?d" by (simp add: word_le_nat_alt)
  then have "unat (ref_address ?d - bt_start b) = unat (bm_offset m)" using a by (simp add: unat_sub word_le_nat_alt)
  then have "ref_address ?d - bt_start b = bm_offset m" by (simp add: word_unat_eq_iff)
  then show "member_matches core m"
    using ok p le assms(3) by (simp add: member_matches_def member_ok_def polled_point_def Let_def)
  show "unat (bm_index m) \<in> set (planned_points ?c)" by (rule i)
  show "unat (bm_offset m) = unat (ref_address ?d) - unat (bt_start b)" using a by simp
  have "0 < unat (modbus_point_span ?d)" using p(2) by (simp add: unat_gt_0)
  then show "unat (bm_offset m) < unat (bt_quantity b)"
    using ok by (simp add: member_ok_def Let_def)
qed

lemma batch_rows_distinct:
  assumes "plan_current core" and "b \<in> set (pp_batches (pc_plan core))"
  shows "distinct (map (\<lambda>m. unat (bm_index m)) (members_of (pc_plan core) b))"
proof -
  let ?c = "pc_catalog core"
  have p: "plan_ok (cat_entries ?c) (planned_points ?c) (pc_plan core)"
    using assms(1) poll_plan_ok by (auto simp: plan_current_def)
  have "distinct (planned_points ?c)" by (simp add: planned_points_def)
  then have "distinct (map (\<lambda>m. unat (bm_index m)) (pp_members (pc_plan core)))"
    using p by (simp add: plan_ok_def)
  then show ?thesis
    unfolding members_of_batch(1) [OF p assms(2)] batch_members_def
    by (simp add: take_map drop_map flip: take_map drop_map)
qed

text \<open>A decoding looks only at the registers that are available.\<close>

lemma decodeRegisterState_cong:
  assumes "\<And>k. k < unat available \<Longrightarrow> f k = g k"
  shows "decodeRegisterState d f available st = decodeRegisterState d g available st"
proof -
  have z: "f 0 = g 0" if "available \<noteq> 0" using that assms [of 0] by (simp add: unat_gt_0)
  have o: "f 1 = g 1" if "2 \<le> available" using that assms [of 1] by (simp add: word_le_nat_alt)
  show ?thesis
  proof (cases "available = 0")
    case True
    then show ?thesis by (simp add: decodeRegisterState_def Let_def)
  next
    case False
    show ?thesis
    proof (cases "2 \<le> available")
      case True
      show ?thesis
        using z [OF False] o [OF True] by (cases "value_type d") (simp_all add: decodeRegisterState_def)
    next
      case n: False
      then have "available < 2" by simp
      then show ?thesis
        using z [OF False] n by (cases "value_type d") (simp_all add: decodeRegisterState_def)
    qed
  qed
qed

text \<open>The state of a point after a decoding, with the times the service stamps it with.\<close>

definition stamped :: "u32 \<Rightarrow> bool \<times> point_state \<Rightarrow> point_state" where
  "stamped now r =
     (let st = (snd r)\<lparr>last_update_ms := now\<rparr> in if fst r then st\<lparr>last_good_update_ms := now\<rparr> else st)"

definition batch_rows :: "'d plc_core \<Rightarrow> poll_batch \<Rightarrow> nat set" where
  "batch_rows core b = (\<lambda>m. unat (bm_index m)) ` set (members_of (pc_plan core) b)"

text \<open>Whatever the driver's result is, every member gets its new state and no other row changes.\<close>

lemma complete_batch:
  assumes wf: "catalog_wf (pc_catalog core)" and cur: "plan_current core" and has: "pc_has_modbus core"
    and b: "b \<in> set (pp_batches (pc_plan core))" and act: "pc_active core = b" and v: "bt_valid b"
    and own: "\<forall>i \<in> set (planned_points (pc_catalog core)). own_row (pc_catalog core) i"
    and fin: "finish_read core = (tok, core1)"
    and same: "pc_catalog core1 = pc_catalog core" "pc_plan core1 = pc_plan core"
      "pc_active core1 = pc_active core"
  obtains q core' where "completeActiveBatch now core = (tok, core')"
    "\<And>m. m \<in> set (members_of (pc_plan core) b) \<Longrightarrow>
       cat_states (pc_catalog core') (unat (bm_index m)) = read_state core1 tok q now m"
    "\<And>i. i \<notin> batch_rows core b \<Longrightarrow>
       cat_states (pc_catalog core') i = cat_states (pc_catalog core) i"
proof -
  let ?ms = "members_of (pc_plan core) b"
  let ?q = "if tok then QBadConfigError else qualityFromModbusError (last_error (pc_modbus core1))"
  let ?core' = "fold (complete_member tok ?q now) ?ms core1"
  have "completeActiveBatch now core = (tok, ?core')"
    using cur has v act fin same by (simp add: completeActiveBatch_def plan_current_def)
  moreover note match = batch_members_match [OF cur b act]
  have mm: "member_matches core1 m = member_matches core m" for m
    by (rule member_matches_frame) (simp_all add: same)
  have ownm: "\<forall>m \<in> set ?ms. member_matches core1 m \<longrightarrow> own_row (pc_catalog core1) (unat (bm_index m))"
    using own match(1) by (simp add: same)
  have wf1: "catalog_wf (pc_catalog core1)" using wf by (simp add: same)
  note cm = complete_members [OF wf1 batch_rows_distinct [OF cur b] ownm, of _ tok ?q now]
  have "cat_states (pc_catalog ?core') (unat (bm_index m)) = read_state core1 tok ?q now m"
    if "m \<in> set ?ms" for m
    using cm(1) [OF that] match(2) [OF that] mm by simp
  moreover have "cat_states (pc_catalog ?core') i = cat_states (pc_catalog core) i"
    if "i \<notin> batch_rows core b" for i
  proof -
    have "\<forall>m \<in> set ?ms. member_matches core1 m \<longrightarrow> unat (bm_index m) \<noteq> i"
      using that by (auto simp: batch_rows_def)
    then show ?thesis
      using complete_members(2) [OF wf1 batch_rows_distinct [OF cur b] ownm, of i tok ?q now]
      by (simp add: same)
  qed
  ultimately show ?thesis by (rule that)
qed

lemma read_state_register:
  assumes reg: "\<not> modbus_table_is_bitwise (bt_table (pc_active core))"
    and q: "unat (bt_quantity (pc_active core)) = length vals"
    and off: "unat (bm_offset m) < length vals" and i: "i = unat (bm_index m)"
  shows "read_state (core\<lparr>pc_modbus := x, pc_regs := overwrite vals regs\<rparr>) True e now m =
    stamped now (decodeRegisterState (cat_entries (pc_catalog core) i)
      (\<lambda>k. vals ! (unat (bm_offset m) + k)) (of_nat (length vals - unat (bm_offset m)))
      (cat_states (pc_catalog core) i))"
proof -
  let ?b = "pc_active core" and ?d = "cat_entries (pc_catalog core) i" and ?off = "unat (bm_offset m)"
  let ?core = "core\<lparr>pc_modbus := x, pc_regs := overwrite vals regs\<rparr>"
  have "length vals - ?off < 2 ^ 16" using q unsigned_less [of "bt_quantity ?b", where 'a = nat] by simp
  then have ua: "unat (of_nat (length vals - ?off) :: u16) = length vals - ?off"
    by (simp add: unat_of_nat)
  have "bm_offset m \<le> bt_quantity ?b" using off q by (simp add: word_le_nat_alt)
  then have "unat (bt_quantity ?b - bm_offset m) = length vals - ?off" using q by (simp add: unat_sub)
  then have av: "bt_quantity ?b - bm_offset m = of_nat (length vals - ?off)"
    by (simp add: word_unat_eq_iff ua)
  have "decodeRegisterState ?d (\<lambda>k. pc_regs ?core (?off + k)) (bt_quantity ?b - bm_offset m)
      (cat_states (pc_catalog core) i) =
    decodeRegisterState ?d (\<lambda>k. vals ! (?off + k)) (of_nat (length vals - ?off))
      (cat_states (pc_catalog core) i)"
    unfolding av by (rule decodeRegisterState_cong) (auto simp: ua overwrite_def less_diff_conv add.commute)
  then show ?thesis
    using i reg by (simp add: read_state_def stamped_def Let_def split: prod.splits)
qed

lemma read_state_bit:
  assumes "modbus_table_is_bitwise (bt_table (pc_active core))"
    and "unat (bt_quantity (pc_active core)) = length bits"
    and "unat (bm_offset m) < length bits" and "i = unat (bm_index m)"
  shows "read_state (core\<lparr>pc_modbus := x, pc_bits := overwrite bits bs\<rparr>) True e now m =
    stamped now (decodeBitState (cat_entries (pc_catalog core) i) (bits ! unat (bm_offset m))
      (cat_states (pc_catalog core) i))"
  using assms
  by (simp add: read_state_def stamped_def overwrite_def decodeBitState_def word_le_nat_alt Let_def)

text \<open>The driver holds the slave's answer to the read of a batch.\<close>

definition answered :: "'d plc_core \<Rightarrow> poll_batch \<Rightarrow> u16 list \<Rightarrow> bool" where
  "answered core b vals =
     (let m = pc_modbus core; frame = register_reply (bt_slave b) (async_function m) vals in
      async_result_ready m \<and> async_kind m = ReadRegisters \<and> \<not> bit (async_function m) 7 \<and>
      take (length frame) (async_response m) = frame \<and>
      async_response_len m = of_nat (5 + 2 * length vals) \<and>
      unat (bt_quantity b) = length vals \<and> vals \<noteq> [] \<and> length vals \<le> 125)"

lemma answered_finish:
  assumes "answered core b vals"
  shows "\<exists>m. finishReadRegisters False (bt_quantity b) (pc_modbus core) = (Some vals, m)"
proof -
  let ?m = "pc_modbus core"
  let ?frame = "register_reply (bt_slave b) (async_function ?m) vals"
  have a: "async_response ?m = ?frame @ drop (length ?frame) (async_response ?m)"
    using assms by (metis answered_def append_take_drop_id)
  have q: "bt_quantity b = of_nat (length vals)"
    using assms by (simp add: answered_def word_unat_eq_iff unat_of_nat Let_def)
  have "decodeRegisterResponse (async_function ?m) (of_nat (length vals)) (async_response ?m)
      (async_response_len ?m) False ?m = (Some vals, ?m\<lparr>last_error := ErrNone\<rparr>)"
    using assms by (intro decode_register_reply [OF _ _ _ a]) (simp_all add: answered_def Let_def)
  then show ?thesis
    using assms by (simp add: finishReadRegisters_def q answered_def Let_def)
qed

text \<open>The answer to a read of coils or discrete inputs: eight of them to a byte, low bit first.\<close>

definition bit_reply :: "u8 \<Rightarrow> u8 \<Rightarrow> bool list \<Rightarrow> u8 list" where
  "bit_reply slave func bits =
     (let n = (length bits + 7) div 8
      in crc_frame ([slave, func, of_nat n] @
           map (\<lambda>j. horner_sum of_bool 2 (take 8 (drop (8 * j) bits))) [0..<n]))"

definition answered_bits :: "'d plc_core \<Rightarrow> poll_batch \<Rightarrow> bool list \<Rightarrow> bool" where
  "answered_bits core b bits =
     (let m = pc_modbus core; frame = bit_reply (bt_slave b) (async_function m) bits in
      async_result_ready m \<and> async_kind m = ReadBits \<and> \<not> bit (async_function m) 7 \<and>
      take (length frame) (async_response m) = frame \<and>
      async_response_len m = of_nat (length frame) \<and>
      unat (bt_quantity b) = length bits \<and> bits \<noteq> [] \<and> length bits \<le> 2000)"

lemma decode_bit_reply:
  assumes n: "bits \<noteq> []" "length bits \<le> 2000" and func: "\<not> bit func 7"
    and resp: "resp = bit_reply slave func bits @ rest"
    and len: "len = of_nat (length (bit_reply slave func bits))"
  shows "decodeBitResponse func (of_nat (length bits)) resp len False m =
    (Some bits, m\<lparr>last_error := ErrNone\<rparr>)"
proof -
  let ?n = "length bits" let ?k = "(?n + 7) div 8"
  let ?bytes = "map (\<lambda>j. horner_sum of_bool 2 (take 8 (drop (8 * j) bits)) :: u8) [0..<?k]"
  have l: "length (bit_reply slave func bits) = 5 + ?k"
    by (simp add: bit_reply_def crc_frame_def Let_def)
  have q: "unat (of_nat ?n :: u16) = ?n" using n by (simp add: unat_of_nat)
  have ql: "unat len = 5 + ?k"
    unfolding len l by (rule unat_u16_of_nat) (use n in linarith)
  have q0: "(of_nat ?n :: u16) \<noteq> 0" "\<not> 2000 < (of_nat ?n :: u16)"
    using n q by (auto simp: word_less_nat_alt unat_eq_0 [symmetric])
  have r: "resp = slave # func # of_nat ?k # ?bytes @ (le16 (crc16 (slave # func # of_nat ?k # ?bytes)) @ rest)"
    by (simp add: resp bit_reply_def crc_frame_def Let_def)
  have i: "resp ! 1 = func" "resp ! 2 = of_nat ?k" by (simp_all add: r)
  have "map (\<lambda>i. resp ! (3 + i div 8) AND push_bit (i mod 8) 1 \<noteq> 0) [0..<?n] = map (\<lambda>i. bits ! i) [0..<?n]"
  proof (rule map_cong [OF refl])
    fix i assume "i \<in> set [0..<?n]"
    then have i: "i < ?n" "i div 8 < ?k" by auto
    then have "resp ! (3 + i div 8) = ?bytes ! (i div 8)"
      by (simp add: r numeral_3_eq_3 nth_append)
    moreover have "(w AND push_bit (i mod 8) 1 \<noteq> 0) = bit w (i mod 8)" for w :: u8
      using and_exp_eq_0_iff_not_bit [of w "i mod 8"] by simp
    moreover have "bit (?bytes ! (i div 8)) (i mod 8) = bits ! i"
    proof -
      have "i mod 8 < ?n - 8 * (i div 8)" using i mult_div_mod_eq [of 8 i] by linarith
      then show ?thesis using i by (simp add: bit_horner_sum_bit_word_iff)
    qed
    ultimately show "(resp ! (3 + i div 8) AND push_bit (i mod 8) 1 \<noteq> 0) = bits ! i" by simp
  qed
  also have "\<dots> = bits" by (rule map_nth)
  finally show ?thesis
    using q ql q0 i function_code_bits(1) [OF func]
    by (simp add: decodeBitResponse_def Let_def)
qed

lemma answered_bits_finish:
  assumes "answered_bits core b bits"
  shows "\<exists>m. finishReadBits False (bt_quantity b) (pc_modbus core) = (Some bits, m)"
proof -
  let ?m = "pc_modbus core"
  let ?frame = "bit_reply (bt_slave b) (async_function ?m) bits"
  have a: "async_response ?m = ?frame @ drop (length ?frame) (async_response ?m)"
    using assms by (metis answered_bits_def append_take_drop_id)
  have q: "bt_quantity b = of_nat (length bits)"
    using assms by (simp add: answered_bits_def word_unat_eq_iff unat_of_nat Let_def)
  have "decodeBitResponse (async_function ?m) (of_nat (length bits)) (async_response ?m)
      (async_response_len ?m) False ?m = (Some bits, ?m\<lparr>last_error := ErrNone\<rparr>)"
    using assms by (intro decode_bit_reply [OF _ _ _ a]) (simp_all add: answered_bits_def Let_def)
  then show ?thesis
    using assms by (simp add: finishReadBits_def q answered_bits_def Let_def)
qed

text \<open>
  C20: Completing a batch with the slave's answer stores in every point of the batch the value
  decoded at the point's own address, from the registers of a register table or from the bit
  of a coil or discrete-input table, whatever other points share the request, stamps it with
  the time, and leaves the states of all other rows alone. The plan must be current and the
  identities of the planned points must be those of their own rows.
\<close>
theorem batch_completion:
  assumes "catalog_wf (pc_catalog core)" and "plan_current core" and "pc_has_modbus core"
    and "b \<in> set (pp_batches (pc_plan core))" and "pc_active core = b" and "bt_valid b"
    and "\<forall>i \<in> set (planned_points (pc_catalog core)). own_row (pc_catalog core) i"
    and "if modbus_table_is_bitwise (bt_table b) then answered_bits core b bits else answered core b vals"
  shows "let (ok, core') = completeActiveBatch now core in
    ok \<and> (\<forall>i. cat_states (pc_catalog core') i =
      (if i \<in> batch_rows core b
       then let d = cat_entries (pc_catalog core) i; st = cat_states (pc_catalog core) i;
                off = unat (ref_address d) - unat (bt_start b)
            in stamped now
                 (if modbus_table_is_bitwise (bt_table b) then decodeBitState d (bits ! off) st
                  else decodeRegisterState d (\<lambda>k. vals ! (off + k)) (of_nat (length vals - off)) st)
       else cat_states (pc_catalog core) i))"
proof (cases "modbus_table_is_bitwise (bt_table b)")
  case True
  then have ans: "answered_bits core b bits" using assms(8) by simp
  obtain x where "finishReadBits False (bt_quantity b) (pc_modbus core) = (Some bits, x)"
    using answered_bits_finish [OF ans] by blast
  then have "finish_read core = (True, core\<lparr>pc_modbus := x, pc_bits := overwrite bits (pc_bits core)\<rparr>)"
    using True assms(5) by (simp add: finish_read_def)
  then obtain q core' where r: "completeActiveBatch now core = (True, core')"
    "\<And>m. m \<in> set (members_of (pc_plan core) b) \<Longrightarrow> cat_states (pc_catalog core') (unat (bm_index m)) =
       read_state (core\<lparr>pc_modbus := x, pc_bits := overwrite bits (pc_bits core)\<rparr>) True q now m"
    "\<And>i. i \<notin> batch_rows core b \<Longrightarrow> cat_states (pc_catalog core') i = cat_states (pc_catalog core) i"
    by (rule complete_batch [OF assms(1-7), where now = now]) simp_all
  have q: "unat (bt_quantity b) = length bits" using ans by (simp add: answered_bits_def Let_def)
  have "cat_states (pc_catalog core') i = stamped now (decodeBitState (cat_entries (pc_catalog core) i)
      (bits ! (unat (ref_address (cat_entries (pc_catalog core) i)) - unat (bt_start b)))
      (cat_states (pc_catalog core) i))" if i: "i \<in> batch_rows core b" for i
  proof -
    obtain m where m: "m \<in> set (members_of (pc_plan core) b)" "i = unat (bm_index m)"
      using i by (auto simp: batch_rows_def)
    note match = batch_members_match(3,4) [OF assms(2,4,5) m(1)]
    show ?thesis
      unfolding m(2) r(2) [OF m(1)] match(1) [symmetric]
      by (rule read_state_bit) (use match(2) q True assms(5) in simp_all)
  qed
  then show ?thesis using r(1,3) True by (simp add: Let_def)
next
  case False
  then have ans: "answered core b vals" using assms(8) by simp
  obtain x where "finishReadRegisters False (bt_quantity b) (pc_modbus core) = (Some vals, x)"
    using answered_finish [OF ans] by blast
  then have "finish_read core = (True, core\<lparr>pc_modbus := x, pc_regs := overwrite vals (pc_regs core)\<rparr>)"
    using False assms(5) by (simp add: finish_read_def)
  then obtain q core' where r: "completeActiveBatch now core = (True, core')"
    "\<And>m. m \<in> set (members_of (pc_plan core) b) \<Longrightarrow> cat_states (pc_catalog core') (unat (bm_index m)) =
       read_state (core\<lparr>pc_modbus := x, pc_regs := overwrite vals (pc_regs core)\<rparr>) True q now m"
    "\<And>i. i \<notin> batch_rows core b \<Longrightarrow> cat_states (pc_catalog core') i = cat_states (pc_catalog core) i"
    by (rule complete_batch [OF assms(1-7), where now = now]) simp_all
  have q: "unat (bt_quantity b) = length vals" using ans by (simp add: answered_def Let_def)
  have "cat_states (pc_catalog core') i =
      (let d = cat_entries (pc_catalog core) i; off = unat (ref_address d) - unat (bt_start b)
       in stamped now (decodeRegisterState d (\<lambda>k. vals ! (off + k)) (of_nat (length vals - off))
            (cat_states (pc_catalog core) i)))" if i: "i \<in> batch_rows core b" for i
  proof -
    obtain m where m: "m \<in> set (members_of (pc_plan core) b)" "i = unat (bm_index m)"
      using i by (auto simp: batch_rows_def)
    note match = batch_members_match(3,4) [OF assms(2,4,5) m(1)]
    show ?thesis
      unfolding m(2) r(2) [OF m(1)] match(1) [symmetric] Let_def
      by (rule read_state_register) (use match(2) q False assms(5) in simp_all)
  qed
  then show ?thesis using r(1,3) False by (simp add: Let_def)
qed

text \<open>Two neighbouring registers of one slave, read by one request.\<close>

definition served_catalog :: point_catalog where
  "served_catalog = commit_definitions (sample_rows
     [modbus_point ''temp'' TyBool 0 17 1 1000, modbus_point ''level'' TyEnum 0 16 1 1000])"

lemma served_catalog_rows:
  "cat_count served_catalog = 2"
  "cat_entries served_catalog 0 = modbus_point ''temp'' TyBool 0 17 1 1000"
  "cat_entries served_catalog 1 = modbus_point ''level'' TyEnum 0 16 1 1000"
  "cat_states served_catalog = (\<lambda>_. empty_state)"
  by (simp_all add: served_catalog_def commit_definitions_fields sample_rows_def new_PointCatalog_def
      resetIndex_def)

lemma served_catalog_wf: "catalog_wf served_catalog"
  unfolding served_catalog_def
  by (rule commit_wf)
    (auto simp: kMaxPoints_def rows_def row_ok_def row_at_def classifyPlcPointMeta_def
      sample_rows_def new_PointCatalog_def resetIndex_def empty_meta_def nth_Cons' Let_def)

definition served_core :: "u16 list \<Rightarrow> modbus_ctl plc_core" where
  "served_core vals =
     (let core = rebuildPollPlan (core_begin (Some served_catalog)
        (Some ((new_ModbusMaster deaf_controller 25000000)
           \<lparr>async_kind := ReadRegisters, async_function := 0x03, async_result_ready := True,
            async_response := register_reply 7 0x03 vals,
            async_response_len := of_nat (5 + 2 * length vals)\<rparr>))
        (new_PlcCore (new_ModbusMaster deaf_controller 25000000) served_catalog))
      in core\<lparr>pc_poll_state := WaitingBatchResult, pc_active := hd (pp_batches (pc_plan core))\<rparr>)"

definition served_batch :: poll_batch where
  "served_batch =
     \<lparr>bt_valid = True, bt_port = 0, bt_slave = 7, bt_table = TableHoldingRegisters, bt_start = 16,
      bt_quantity = 2, bt_member_start = 0, bt_member_count = 2\<rparr>"

lemma served_plan:
  "poll_plan_of 6 served_catalog =
     \<lparr>pp_batches = [served_batch], pp_members = [\<lparr>bm_index = 1, bm_offset = 0\<rparr>, \<lparr>bm_index = 0, bm_offset = 1\<rparr>]\<rparr>"
proof -
  have u: "[0..<2] = [0, Suc 0]" by (simp add: upt_rec)
  show ?thesis
    using served_catalog_rows(1-3)
    by (simp add: poll_plan_of_def sort_polled_def u polled_point_def modbus_poll_sort_before_def
       plan_point_def Let_def modbus_point_span_def modbus_table_is_bitwise_def writable_access_def
       merged_quantity_def add_member_def kMaxModbusPollBatches_def kMaxModbusBatchMembers_def
       kMaxPoints_def batch_limit_def kMaxModbusBatchRegisters_def served_batch_def)
qed

lemma served_core_fields:
  "pc_has_catalog (served_core vals)" "pc_catalog (served_core vals) = served_catalog"
  "pc_has_modbus (served_core vals)" "pc_max_gap (served_core vals) = 6"
  "pc_plan (served_core vals) = poll_plan_of 6 served_catalog"
  "pc_active (served_core vals) = served_batch"
  by (simp_all add: served_core_def rebuildPollPlan_def core_begin_def new_PlcCore_def served_plan Let_def)

lemma served_current: "plan_current (served_core vals)"
  by (simp add: plan_current_def served_core_fields served_catalog_rows kMaxPoints_def)

lemma served_own_rows: "\<forall>i \<in> set (planned_points served_catalog). own_row served_catalog i"
proof
  fix i assume "i \<in> set (planned_points served_catalog)"
  then have "i = 0 \<or> i = 1" using planned_points_bound served_catalog_rows(1) by fastforce
  moreover have "\<not> identitiesEqual (pd_id (modbus_point ''level'' TyEnum 0 16 1 1000))
      (pd_id (modbus_point ''temp'' TyBool 0 17 1 1000))"
    by (simp add: identitiesEqual_def strcmp_eq_def modbus_point_def sample_point_def buf_of_def
        lit_def cstr_def)
  ultimately show "own_row served_catalog i"
    using served_catalog_rows(1-3)
    by (auto simp: own_row_def linear_find_def numeral_2_eq_2)
qed

lemma served_answered:
  "answered (served_core [0xFFFE, 1]) served_batch [0xFFFE, 1]"
  by (simp add: answered_def served_core_def core_begin_def rebuildPollPlan_def served_batch_def Let_def)

lemma batch_completion_witness:
  "let (ok, core') = completeActiveBatch 5000 (served_core [0xFFFE, 1]) in
     ok \<and> ps_value (cat_states (pc_catalog core') 1) = 0xFFFFFFFE \<and>
     last_good_update_ms (cat_states (pc_catalog core') 0) = 5000 \<and>
     cat_states (pc_catalog core') 2 = empty_state"
proof -
  let ?core = "served_core [0xFFFE, 1]"
  obtain ok core' where e: "completeActiveBatch 5000 ?core = (ok, core')" by fastforce
  have rows: "batch_rows ?core served_batch = {0, 1}"
    by (auto simp: batch_rows_def served_core_fields served_plan members_of_def plan_member_def
        served_batch_def upt_rec)
  have "let (ok, core') = completeActiveBatch 5000 ?core in
    ok \<and> (\<forall>i. cat_states (pc_catalog core') i =
      (if i \<in> batch_rows ?core served_batch
       then let d = cat_entries (pc_catalog ?core) i; st = cat_states (pc_catalog ?core) i;
                off = unat (ref_address d) - unat (bt_start served_batch)
            in stamped 5000
                 (if modbus_table_is_bitwise (bt_table served_batch) then decodeBitState d ([] ! off) st
                  else decodeRegisterState d (\<lambda>k. [0xFFFE, 1] ! (off + k))
                    (of_nat (length [0xFFFE, 1 :: u16] - off)) st)
       else cat_states (pc_catalog ?core) i))"
    by (rule batch_completion)
      (use served_catalog_wf served_current served_own_rows served_answered in
        \<open>simp_all add: served_core_fields served_plan served_batch_def modbus_table_is_bitwise_def\<close>)
  then show ?thesis
    using served_catalog_rows(2-4)
    by (simp add: e rows [unfolded served_batch_def] served_core_fields served_batch_def stamped_def Let_def
        modbus_table_is_bitwise_def decodeRegisterState_def regsToI16_def regsToU16_def)
qed

section \<open>The poll plan\<close>

text \<open>
  C19: The poll plan covers exactly the polled Modbus points with a nonzero span, each once,
  ordered by port, slave, table, address and row; every batch is one contiguous range of
  members of one device and table whose registers lie inside the request, and only a single
  point that is by itself too large makes a request larger than the limit of its table.
\<close>
theorem poll_plan_correct:
  assumes "cat_count c \<le> kMaxPoints"
  shows "plan_ok (cat_entries c) (planned_points c) (poll_plan_of max_gap c)"
  by (rule poll_plan_ok [OF assms])

lemma poll_plan_correct_witness:
  "plan_ok (cat_entries served_catalog) (planned_points served_catalog) (poll_plan_of 6 served_catalog) \<and>
   planned_points served_catalog = [1, 0]"
proof -
  have "cat_count served_catalog \<le> kMaxPoints" by (simp add: served_catalog_rows kMaxPoints_def)
  from poll_plan_correct [OF this, of 6] show ?thesis by (simp add: plan_ok_def served_plan)
qed

section \<open>Integers through the scaling\<close>

text \<open>
  C35: With a scale of one, 16-bit registers are stored unchanged, and so are 32-bit values
  below \<open>2 ^ 24\<close> in magnitude, although every integer passes through a \<open>float\<close>.
\<close>
theorem unscaled_integers_exact:
  assumes "scale d = f32_one" and "available \<noteq> 0"
  shows "(value_type d \<in> {TyUint16, TyInt16} \<longrightarrow>
      decodeRegisterState d regs available st =
        (True, st\<lparr>ps_value := pv_set_u16 (regs 0) (ps_value st), quality := QGood\<rparr>)) \<and>
    (value_type d \<in> {TyUint32, TyInt32} \<and> 2 \<le> ref_register_count d \<and> 2 \<le> available \<and>
     \<bar>if value_type d = TyInt32 then sint (regsToU32 (regs 0) (regs 1))
      else uint (regsToU32 (regs 0) (regs 1))\<bar> < 2 ^ 24 \<longrightarrow>
      decodeRegisterState d regs available st =
        (True, st\<lparr>ps_value := regsToU32 (regs 0) (regs 1), quality := QGood\<rparr>))"
proof -
  have "uint (regs 0) < 2 ^ 16" "0 \<le> uint (regs 0)" using uint_lt2p [of "regs 0"] by simp_all
  then have u: "\<bar>uint (regs 0)\<bar> < 2 ^ 24" by simp
  have "sint (regs 0) < 2 ^ 15" "- (2 ^ 15) \<le> sint (regs 0)"
    using sint_lt [of "regs 0"] sint_ge [of "regs 0"] by simp_all
  then have s: "\<bar>sint (regs 0)\<bar> < 2 ^ 24" by simp
  show ?thesis
    using assms scale_one_exact [OF u] scale_one_exact [OF s]
      scale_one_exact [of "uint (regsToU32 (regs 0) (regs 1))"]
      scale_one_exact [of "sint (regsToU32 (regs 0) (regs 1))"]
    by (auto simp: decodeRegisterState_def Let_def apply_numeric_scale_def regsToU16_def regsToI16_def
        regsToI32_def)
qed

lemma unscaled_integers_exact_witness:
  "decodeRegisterState (modbus_point ''n'' TyUint32 0 16 2 1000) ((!) [0x0001, 0x2345]) 2 empty_state =
     (True, empty_state\<lparr>ps_value := 0x00012345, quality := QGood\<rparr>)"
proof -
  let ?d = "modbus_point ''n'' TyUint32 0 16 2 1000" and ?regs = "(!) [0x0001, 0x2345 :: u16]"
  have sc: "scale ?d = f32_one" by (simp add: modbus_point_def sample_point_def empty_definition_def)
  have av: "(2 :: u16) \<noteq> 0" by simp
  have v: "regsToU32 (?regs 0) (?regs 1) = 0x00012345" by (simp add: regsToU32_def)
  from unscaled_integers_exact [OF sc av, of ?regs empty_state] show ?thesis
    unfolding v by simp
qed

text \<open>Beyond \<open>2 ^ 24\<close> a counter loses its low bits: \<open>0x01000001\<close> is stored as \<open>0x01000000\<close>.\<close>

lemma uint32_precision_lost:
  "decodeRegisterState (modbus_point ''n'' TyUint32 0 16 2 1000) ((!) [0x0100, 0x0001]) 2 empty_state =
     (True, empty_state\<lparr>ps_value := 0x01000000, quality := QGood\<rparr>)"
proof -
  have b: "bit_length 0x01000001 = 25" by (rule bit_length_unique [where k = 24, simplified]) simp_all
  have r: "f32_of_int 0x01000001 = 0x4B800000"
    by (simp add: f32_of_int_def f32_round_def b round_shift_def f32_signed_def Let_def)
  have m: "f32_mul 0x4B800000 f32_one = 0x4B800000"
  proof -
    have u: "f32_unpack 0x4B800000 = F32Fin False (2 ^ 23) 1" by (simp add: f32_unpack_def)
    have b: "bit_length (2 ^ 46) = 47" by (rule bit_length_unique [where k = 46, simplified]) simp_all
    show ?thesis
      using b by (simp add: f32_mul_def u unpack_one f32_round_def round_shift_def f32_signed_def Let_def)
  qed
  have t: "f32_to_int 0x4B800000 = 0x01000000" by (simp add: f32_to_int_def f32_unpack_def)
  have "scale (modbus_point ''n'' TyUint32 0 16 2 1000) = f32_one"
    by (simp add: modbus_point_def sample_point_def empty_definition_def)
  then show ?thesis
    by (simp add: decodeRegisterState_def Let_def apply_numeric_scale_def regsToU32_def r m t)
qed

section \<open>A plan that is not rebuilt\<close>

lemma slot_variables_local: "row_ok r \<Longrightarrow> row_is_variable slot r \<Longrightarrow> backend (fst r) = BackendLocal"
  by (auto simp: row_ok_def row_is_variable_def is_slot_variable_point_def classifyPlcPointMeta_def
      empty_meta_def Let_def split: if_splits)

lemma modbus_rows_kept:
  "\<forall>r \<in> set rs. row_ok r \<Longrightarrow> modbus_rows (kept_rows slot rs) = modbus_rows rs"
  by (induction rs) (auto simp: modbus_rows_def kept_rows_def dest: slot_variables_local)

lemma modbus_rows_append: "modbus_rows (xs @ ys) = modbus_rows xs @ modbus_rows ys"
  by (simp add: modbus_rows_def)

lemma modbus_rows_fresh:
  "\<forall>d \<in> set ds. backend d \<noteq> BackendModbus \<Longrightarrow> modbus_rows (map fresh_row ds) = []"
  by (simp add: modbus_rows_def fresh_row_def filter_empty_conv)

lemma modbus_rows_insert:
  "modbus_rows new = [] \<Longrightarrow> modbus_rows (insert_rows slot new rs) = modbus_rows rs"
proof -
  assume "modbus_rows new = []"
  then have "modbus_rows (take n rs @ new @ drop n rs) = modbus_rows (take n rs @ drop n rs)" for n
    by (simp only: modbus_rows_append) simp
  then show ?thesis by (simp add: insert_rows_def Let_def)
qed

lemma replace_keeps_hash:
  assumes "catalog_wf c" and "\<forall>d \<in> set ds. backend d \<noteq> BackendModbus"
    and "replaceSlotVariableDefinitions c slot (Some ds) = (ok, changed, c')"
  shows "computeModbusPlanHash g c' = computeModbusPlanHash g c"
proof -
  have "\<forall>r \<in> set (rows c). row_ok r" using assms(1) by (simp add: catalog_wf_def meta_ok_rows)
  then have "modbus_rows (rows (replace_prepared c slot ds)) = modbus_rows (rows c)"
    using assms(2) by (simp add: replace_prepared_rows modbus_rows_insert modbus_rows_fresh modbus_rows_kept)
  moreover have "c' = c \<or> c' = commit_definitions (replace_prepared c slot ds)"
    using assms(3) by (auto simp: replaceSlotVariableDefinitions_eq split: if_splits)
  ultimately show ?thesis by (auto simp: plan_hash_rows)
qed

text \<open>
  C37: The service rebuilds its poll plan only when the plan hash changes, and the hash does
  not see where the Modbus points are: when a program's slot variables are replaced, so
  that rows move, the service keeps the plan made for the rows as they were.
\<close>
theorem slot_variables_leave_plan_stale:
  assumes "catalog_wf (pc_catalog core)" and "pc_has_catalog core"
    and "pc_plan_hash core = core_plan_hash core"
    and "\<forall>d \<in> set ds. backend d \<noteq> BackendModbus"
    and "replaceSlotVariableDefinitions (pc_catalog core) slot (Some ds) = (ok, changed, c')"
  shows "rebuildPollPlanIfNeeded (core\<lparr>pc_catalog := c'\<rparr>) = core\<lparr>pc_catalog := c'\<rparr>"
  using assms(2,3) replace_keeps_hash [OF assms(1,4,5)]
  by (simp add: rebuildPollPlanIfNeeded_def core_plan_hash_def Let_def)

text \<open>A variable of slot 5, then a Modbus point; then slot 3 gets a variable.\<close>

definition moving_catalog :: point_catalog where
  "moving_catalog =
     (let ds = [sample_point ''plc'' ''plc.slot5'' ''loaded'', modbus_point ''level'' TyEnum 0 16 1 1000]
      in commit_definitions ((sample_rows ds)\<lparr>cat_meta := (\<lambda>i. classifyPlcPointMeta (ds ! i))\<rparr>))"

definition moved :: "bool \<times> bool \<times> point_catalog" where
  "moved = replaceSlotVariableDefinitions moving_catalog 3 (Some [sample_point ''plc'' ''plc.slot3'' ''x''])"

definition moving_core :: "modbus_ctl plc_core" where
  "moving_core =
     (let core = (new_PlcCore (new_ModbusMaster deaf_controller 25000000) moving_catalog)\<lparr>pc_has_catalog := True\<rparr>
      in (rebuildPollPlan core)\<lparr>pc_plan_hash := core_plan_hash core\<rparr>)"

lemma moving_rows:
  "rows moving_catalog = [fresh_row (sample_point ''plc'' ''plc.slot5'' ''loaded''),
     fresh_row (modbus_point ''level'' TyEnum 0 16 1 1000)]"
  by (simp add: moving_catalog_def rows_def row_at_def fresh_row_def sample_rows_def new_PointCatalog_def
      resetIndex_def Let_def upt_rec commit_definitions_fields)

lemma moved_rows:
  "rows (snd (snd moved)) = fresh_row (sample_point ''plc'' ''plc.slot3'' ''x'') # rows moving_catalog"
proof -
  let ?a = "sample_point ''plc'' ''plc.slot5'' ''loaded''"
  have m: "classifyPlcPointMeta ?a = \<lparr>is_local = True, has_slot = True, meta_slot_id = 5, point_kind = SlotOther\<rparr>"
    by (simp add: classifyPlcPointMeta_def sample_point_def empty_definition_def empty_meta_def Let_def
       strcmp_eq_def buf_of_def lit_def cstr_def parse_slot_feature_suffix_def
       starts_with_def slot_prefix_def is_ascii_digit_def strncmp_eq_def)
  have b: "classifyPlcPointMeta (modbus_point ''level'' TyEnum 0 16 1 1000) = empty_meta"
    by (simp add: classifyPlcPointMeta_def empty_meta_def Let_def)
  have kept: "kept_rows 3 (rows moving_catalog) = rows moving_catalog"
    by (simp add: moving_rows kept_rows_def row_is_variable_def fresh_row_def m b
        is_slot_variable_point_def empty_meta_def)
  have vars: "variable_rows 3 (rows moving_catalog) = []"
    by (simp add: moving_rows variable_rows_def row_is_variable_def fresh_row_def m b
        is_slot_variable_point_def empty_meta_def)
  have "moved = (True, True, commit_definitions
      (replace_prepared moving_catalog 3 [sample_point ''plc'' ''plc.slot3'' ''x'']))"
    unfolding moved_def replaceSlotVariableDefinitions_eq kept vars
    by (simp add: moving_rows same_layout_def kMaxPoints_def)
  note mv = this
  have ins: "insert_rows 3 [fresh_row (sample_point ''plc'' ''plc.slot3'' ''x'')] (rows moving_catalog) =
      fresh_row (sample_point ''plc'' ''plc.slot3'' ''x'') # rows moving_catalog"
    by (simp add: insert_rows_def moving_rows row_after_slot_def fresh_row_def m Let_def)
  show ?thesis
    unfolding mv snd_conv rows_commit replace_prepared_rows kept list.map ins by (rule refl)
qed

lemma moving_catalog_entries:
  "cat_count moving_catalog = 2"
  "cat_entries moving_catalog 0 = sample_point ''plc'' ''plc.slot5'' ''loaded''"
  "cat_entries moving_catalog 1 = modbus_point ''level'' TyEnum 0 16 1 1000"
  by (simp_all add: moving_catalog_def commit_definitions_fields sample_rows_def new_PointCatalog_def
      resetIndex_def Let_def)

lemma moving_plan: "pp_members (pc_plan moving_core) = [\<lparr>bm_index = 1, bm_offset = 0\<rparr>]"
proof -
  have u: "[0..<2] = [0, Suc 0]" by (simp add: upt_rec)
  have "pp_members (poll_plan_of 6 moving_catalog) = [\<lparr>bm_index = 1, bm_offset = 0\<rparr>]"
    using moving_catalog_entries
    by (simp add: poll_plan_of_def sort_polled_def u polled_point_def sample_point_def empty_definition_def
       plan_point_def Let_def modbus_point_span_def modbus_table_is_bitwise_def writable_access_def
       merged_quantity_def add_member_def kMaxModbusPollBatches_def kMaxModbusBatchMembers_def kMaxPoints_def)
  then show ?thesis
    by (simp add: moving_core_def rebuildPollPlan_def new_PlcCore_def Let_def)
qed

lemma slot_variables_leave_plan_stale_witness:
  "let core' = moving_core\<lparr>pc_catalog := snd (snd moved)\<rparr> in
     rebuildPollPlanIfNeeded core' = core' \<and>
     pp_members (pc_plan core') = [\<lparr>bm_index = 1, bm_offset = 0\<rparr>] \<and>
     backend (cat_entries (pc_catalog core') 1) = BackendLocal \<and>
     cat_entries (pc_catalog core') 2 = modbus_point ''level'' TyEnum 0 16 1 1000"
proof -
  have wf: "catalog_wf moving_catalog"
    unfolding moving_catalog_def Let_def
    by (rule commit_wf)
      (auto simp: kMaxPoints_def rows_def row_ok_def row_at_def sample_rows_def new_PointCatalog_def
        resetIndex_def)
  have core: "pc_catalog moving_core = moving_catalog" "pc_has_catalog moving_core"
    "pc_plan_hash moving_core = core_plan_hash moving_core"
    by (simp_all add: moving_core_def rebuildPollPlan_def new_PlcCore_def core_plan_hash_def Let_def)
  obtain ok ch c' where m: "moved = (ok, ch, c')" by (cases moved) auto
  have "rebuildPollPlanIfNeeded (moving_core\<lparr>pc_catalog := c'\<rparr>) = moving_core\<lparr>pc_catalog := c'\<rparr>"
    by (rule slot_variables_leave_plan_stale [OF _ core(2,3) _ m [unfolded moved_def, folded core(1)]])
      (use wf in \<open>simp_all add: core(1) sample_point_def empty_definition_def\<close>)
  moreover have "rows c' ! 1 = fresh_row (sample_point ''plc'' ''plc.slot5'' ''loaded'')"
    "rows c' ! 2 = fresh_row (modbus_point ''level'' TyEnum 0 16 1 1000)" "length (rows c') = 3"
    using moved_rows by (simp_all add: m moving_rows)
  then have "cat_entries c' 1 = sample_point ''plc'' ''plc.slot5'' ''loaded''"
    "cat_entries c' 2 = modbus_point ''level'' TyEnum 0 16 1 1000"
    by (simp_all add: row_at_def fresh_row_def)
  ultimately show ?thesis
    using moving_plan by (simp add: m sample_point_def empty_definition_def)
qed

end
