(* ===== verification/TextCodec.thy ===== *)
theory TextCodec
  imports PlcTypes
begin

text \<open>
  The text helpers of \<open>nodenetCore.cpp\<close>: the hexadecimal and base64 codecs that carry PLC
  objects in JSON messages, and the dotted paths that name points. Pointers are not null
  here; a decoder that fails leaves its output buffer in a state no caller reads, so its
  result is the bytes of a success.
\<close>

section \<open>Hexadecimal\<close>

definition hex_nibble_value :: "u8 \<Rightarrow> int" where
  "hex_nibble_value c =
     (if c \<ge> 48 \<and> c \<le> 57 then uint c - 48
      else if c \<ge> 65 \<and> c \<le> 70 then 10 + (uint c - 65)
      else if c \<ge> 97 \<and> c \<le> 102 then 10 + (uint c - 97)
      else -1)"

fun hex_bytes :: "u8 list \<Rightarrow> u8 list option" where
  "hex_bytes (a # b # rest) =
     (let hi = hex_nibble_value a; lo = hex_nibble_value b in
      if hi < 0 \<or> lo < 0 then None
      else
        (case hex_bytes rest of
           None \<Rightarrow> None
         | Some bs \<Rightarrow> Some (word_of_int (push_bit 4 hi OR lo) # bs)))"
| "hex_bytes _ = Some []"

definition decode_hex_bytes :: "u8 list \<Rightarrow> nat \<Rightarrow> u8 list option" where
  "decode_hex_bytes text out_capacity =
     (let text_len = length (cstr text); byte_count = text_len div 2 in
      if odd text_len then None
      else if byte_count = 0 \<or> byte_count > out_capacity then None
      else hex_bytes (cstr text))"

section \<open>Base64\<close>

definition kBase64Alphabet :: "u8 list" where
  "kBase64Alphabet = lit ''ABCDEFGHIJKLMNOPQRSTUVWXYZabcdefghijklmnopqrstuvwxyz0123456789+/''"

definition base64_value :: "u8 \<Rightarrow> int" where
  "base64_value c =
     (if c \<ge> 65 \<and> c \<le> 90 then uint c - 65
      else if c \<ge> 97 \<and> c \<le> 122 then 26 + (uint c - 97)
      else if c \<ge> 48 \<and> c \<le> 57 then 52 + (uint c - 48)
      else if c = 43 then 62
      else if c = 47 then 63
      else if c = 61 then -2
      else -1)"

definition base64_quartet :: "int \<Rightarrow> int \<Rightarrow> int \<Rightarrow> int \<Rightarrow> u32" where
  "base64_quartet a b c d =
     push_bit 18 (word_of_int a) OR push_bit 12 (word_of_int b) OR
     push_bit 6 (word_of_int (if c < 0 then 0 else c)) OR word_of_int (if d < 0 then 0 else d)"

text \<open>
  The loop over the quartets; \<open>out\<close> holds the bytes written so far and \<open>rest = []\<close> is
  the test \<open>index + 4 == text_len\<close>.
\<close>

fun base64_loop :: "nat \<Rightarrow> u8 list \<Rightarrow> u8 list \<Rightarrow> u8 list option" where
  "base64_loop out_capacity out (ta # tb # tc # td # rest) =
     (let a = base64_value ta; b = base64_value tb; c = base64_value tc; d = base64_value td in
      if a < 0 \<or> b < 0 \<or> c = -1 \<or> d = -1 then None
      else
        (let quartet = base64_quartet a b c d in
         if length out \<ge> out_capacity then None
         else
           (let out = out @ [ucast (drop_bit 16 quartet AND 0xFF)] in
            if c = -2 then (if d \<noteq> -2 \<or> rest \<noteq> [] then None else Some out)
            else if length out \<ge> out_capacity then None
            else
              (let out = out @ [ucast (drop_bit 8 quartet AND 0xFF)] in
               if d = -2 then (if rest \<noteq> [] then None else Some out)
               else if length out \<ge> out_capacity then None
               else base64_loop out_capacity (out @ [ucast (quartet AND 0xFF)]) rest))))"
| "base64_loop out_capacity out _ = Some out"

definition decode_base64_bytes :: "u8 list \<Rightarrow> nat \<Rightarrow> u8 list option" where
  "decode_base64_bytes text out_capacity =
     (let text_len = length (cstr text) in
      if text_len = 0 \<or> text_len mod 4 \<noteq> 0 then None
      else
        (case base64_loop out_capacity [] (cstr text) of
           None \<Rightarrow> None
         | Some out \<Rightarrow> if out \<noteq> [] then Some out else None))"

definition base64_quad :: "u8 \<Rightarrow> u8 option \<Rightarrow> u8 option \<Rightarrow> u8 list" where
  "base64_quad a b c =
     (let byte = (\<lambda>x. case x of Some v \<Rightarrow> ucast v | None \<Rightarrow> 0);
          triple = (push_bit 16 (ucast a) OR push_bit 8 (byte b) OR byte c :: u32);
          sextet = (\<lambda>n. kBase64Alphabet ! unat (drop_bit n triple AND 0x3F))
      in [sextet 18, sextet 12, if b \<noteq> None then sextet 6 else 61,
          if c \<noteq> None then sextet 0 else 61])"

fun base64_text :: "u8 list \<Rightarrow> u8 list" where
  "base64_text [] = []"
| "base64_text [a] = base64_quad a None None"
| "base64_text [a, b] = base64_quad a (Some b) None"
| "base64_text (a # b # c # rest) = base64_quad a (Some b) (Some c) @ base64_text rest"

text \<open>What is written to the output, with the terminating NUL.\<close>

definition encode_base64_bytes :: "u8 list \<Rightarrow> nat \<Rightarrow> u8 list option" where
  "encode_base64_bytes data out_capacity =
     (if out_capacity = 0 then None
      else if data = [] then Some [0]
      else
        (let encoded_size = (length data + 2) div 3 * 4 in
         if encoded_size + 1 > out_capacity then None else Some (base64_text data @ [0])))"

section \<open>The codecs are inverse\<close>

lemma alphabet_eq:
  "kBase64Alphabet = [65, 66, 67, 68, 69, 70, 71, 72, 73, 74, 75, 76, 77, 78, 79, 80, 81, 82, 83, 84, 85, 86, 87, 88, 89, 90, 97, 98, 99, 100, 101, 102, 103, 104, 105, 106, 107, 108, 109, 110, 111, 112, 113, 114, 115, 116, 117, 118, 119, 120, 121, 122, 48, 49, 50, 51, 52, 53, 54, 55, 56, 57, 43, 47]"
  by (simp add: kBase64Alphabet_def lit_def)

lemma value_table:
  "map base64_value [65, 66, 67, 68, 69, 70, 71, 72, 73, 74, 75, 76, 77, 78, 79, 80, 81, 82, 83, 84, 85, 86, 87, 88, 89, 90, 97, 98, 99, 100, 101, 102, 103, 104, 105, 106, 107, 108, 109, 110, 111, 112, 113, 114, 115, 116, 117, 118, 119, 120, 121, 122, 48, 49, 50, 51, 52, 53, 54, 55, 56, 57, 43, 47] = map int [0..<64]"
  by (simp add: base64_value_def upt_conv_Cons)

lemma alphabet_values:
  assumes "k < 64"
  shows "base64_value (kBase64Alphabet ! k) = int k" "kBase64Alphabet ! k \<noteq> 0"
    "kBase64Alphabet ! k \<noteq> 61"
proof -
  have l: "length kBase64Alphabet = 64" by (simp add: alphabet_eq)
  have "map base64_value kBase64Alphabet ! k = map int [0..<64] ! k"
    by (simp only: alphabet_eq value_table)
  then show v: "base64_value (kBase64Alphabet ! k) = int k" using assms l by simp
  show "kBase64Alphabet ! k \<noteq> 0" "kBase64Alphabet ! k \<noteq> 61"
    using v by (auto simp: base64_value_def)
qed

lemma sextet_bound: "unat (w AND 0x3F :: u32) < 64"
proof -
  have "w AND 0x3F \<le> 0x3F" by (rule word_and_le1)
  then show ?thesis by (simp add: word_le_nat_alt)
qed

text \<open>The four sextets of a triple of bytes give it back.\<close>

lemma sextets_join:
  fixes t :: u32
  assumes "t = push_bit 16 (ucast (a :: u8)) OR push_bit 8 (ucast (b :: u8)) OR ucast (c :: u8)"
  shows "push_bit 18 (drop_bit 18 t AND 0x3F) OR push_bit 12 (drop_bit 12 t AND 0x3F) OR
     push_bit 6 (drop_bit 6 t AND 0x3F) OR (t AND 0x3F) = t"
proof (rule bit_word_eqI)
  have m: "(0x3F :: u32) = mask 6" by (simp add: mask_eq_exp_minus_1)
  fix n assume "n < LENGTH(32)"
  then consider "n < 6" | "6 \<le> n" "n < 12" | "12 \<le> n" "n < 18" | "18 \<le> n" "n < 24" | "24 \<le> n"
    by fastforce
  then show "bit (push_bit 18 (drop_bit 18 t AND 0x3F) OR push_bit 12 (drop_bit 12 t AND 0x3F) OR
     push_bit 6 (drop_bit 6 t AND 0x3F) OR (t AND 0x3F)) n = bit t n"
    unfolding m by cases (auto simp: bit_simps assms dest: bit_imp_le_length)
qed

lemma triple_bytes:
  fixes t :: u32
  assumes "t = push_bit 16 (ucast (a :: u8)) OR push_bit 8 (ucast (b :: u8)) OR ucast (c :: u8)"
  shows "ucast (drop_bit 16 t AND 0xFF) = a" "ucast (drop_bit 8 t AND 0xFF) = b"
    "ucast (t AND 0xFF) = c"
proof -
  have m: "(0xFF :: u32) = mask 8" by (simp add: mask_eq_exp_minus_1)
  show "ucast (drop_bit 16 t AND 0xFF) = a" "ucast (drop_bit 8 t AND 0xFF) = b"
    "ucast (t AND 0xFF) = c"
    unfolding m assms
    by (rule bit_word_eqI; auto simp: bit_simps dest: bit_imp_le_length)+
qed

lemma word_of_sextet: "word_of_int (int (unat (w :: u32))) = w"
  by simp

lemma quad_values:
  fixes b c :: "u8 option" and a :: u8
  defines "t \<equiv> (push_bit 16 (ucast a) OR push_bit 8 (case b of Some v \<Rightarrow> ucast v | None \<Rightarrow> 0) OR
     (case c of Some v \<Rightarrow> ucast v | None \<Rightarrow> 0) :: u32)"
  assumes "b = None \<longrightarrow> c = None"
  shows "\<exists>ta tb tc td. base64_quad a b c = [ta, tb, tc, td] \<and> 0 \<le> base64_value ta \<and>
     0 \<le> base64_value tb \<and> (if b = None then base64_value tc = -2 else 0 \<le> base64_value tc) \<and>
     (if c = None then base64_value td = -2 else 0 \<le> base64_value td) \<and>
     base64_quartet (base64_value ta) (base64_value tb) (base64_value tc) (base64_value td) = t"
proof -
  define x where "x = (\<lambda>n. drop_bit n t AND 0x3F)"
  let ?ch = "\<lambda>n. kBase64Alphabet ! unat (x n)"
  have v: "base64_value (?ch n) = int (unat (x n))" for n
    unfolding x_def by (rule alphabet_values(1)) (rule sextet_bound)
  have pad: "base64_value 61 = -2" by (simp add: base64_value_def)
  have join: "push_bit 18 (x 18) OR push_bit 12 (x 12) OR push_bit 6 (x 6) OR x 0 = t"
  proof -
    have "t = push_bit 16 (ucast a) OR push_bit 8 (ucast (case b of Some v \<Rightarrow> v | None \<Rightarrow> 0)) OR
        ucast (case c of Some v \<Rightarrow> v | None \<Rightarrow> 0)"
      unfolding t_def by (cases b; cases c) simp_all
    from sextets_join [OF this] show ?thesis by (simp only: x_def drop_bit_0 id_apply)
  qed
  have none: "x 6 = 0 \<and> x 0 = 0" if "b = None"
  proof -
    have "c = None" using that assms by simp
    then have t: "t = push_bit 16 (ucast a)" using that by (simp add: t_def)
    have m: "(0x3F :: u32) = mask 6" by (simp add: mask_eq_exp_minus_1)
    show ?thesis unfolding x_def t m by (auto intro!: bit_word_eqI simp: bit_simps)
  qed
  have last: "x 0 = 0" if "c = None"
  proof -
    have m: "(0x3F :: u32) = mask 6" by (simp add: mask_eq_exp_minus_1)
    show ?thesis unfolding x_def t_def m using that
      by (auto intro!: bit_word_eqI simp: bit_simps split: option.splits)
  qed
  have q: "base64_quad a b c = [?ch 18, ?ch 12, if b \<noteq> None then ?ch 6 else 61,
      if c \<noteq> None then ?ch 0 else 61]"
    by (simp add: base64_quad_def t_def x_def Let_def)
  show ?thesis
    unfolding q using join none last assms(2) by (cases b; cases c) (simp_all add: v pad base64_quartet_def)
qed

lemma base64_text_length: "length (base64_text bs) = (length bs + 2) div 3 * 4"
  proof (induction bs rule: base64_text.induct)
  case (4 a b c rest)
  have "(5 + n) div 3 = (2 + n) div 3 + 1" for n :: nat by presburger
  then show ?case using 4 by (simp add: base64_quad_def Let_def)
qed (simp_all add: base64_quad_def Let_def)

lemma base64_text_chars: "0 \<notin> set (base64_text bs)"
proof -
  have ch: "kBase64Alphabet ! unat (w AND 0x3F) \<noteq> 0" for w :: u32
    by (rule alphabet_values(2)) (rule sextet_bound)
  have q: "0 \<notin> set (base64_quad a b c)" for a b c
    using ch by (auto simp: base64_quad_def Let_def)
  show ?thesis by (induction bs rule: base64_text.induct) (simp_all add: q)
qed

text \<open>The decoder on an encoding, with room for the bytes or without.\<close>

lemma base64_loop_text:
  "length out + length bs \<le> cap \<Longrightarrow> base64_loop cap out (base64_text bs) = Some (out @ bs)"
proof (induction bs arbitrary: out rule: base64_text.induct)
  case (2 a)
  obtain ta tb tc td where q: "base64_quad a None None = [ta, tb, tc, td]"
    "0 \<le> base64_value ta" "0 \<le> base64_value tb" "base64_value tc = -2" "base64_value td = -2"
    "base64_quartet (base64_value ta) (base64_value tb) (base64_value tc) (base64_value td) =
       push_bit 16 (ucast a)"
    using quad_values [of None None a] by auto
  show ?case
    using 2 q triple_bytes(1) [of "push_bit 16 (ucast a)" a 0 0] by (simp add: Let_def)
next
  case (3 a b)
  obtain ta tb tc td where q: "base64_quad a (Some b) None = [ta, tb, tc, td]"
    "0 \<le> base64_value ta" "0 \<le> base64_value tb" "0 \<le> base64_value tc" "base64_value td = -2"
    "base64_quartet (base64_value ta) (base64_value tb) (base64_value tc) (base64_value td) =
       push_bit 16 (ucast a) OR push_bit 8 (ucast b)"
    using quad_values [of "Some b" None a] by auto
  show ?case
    using 3 q triple_bytes(1,2) [of "push_bit 16 (ucast a) OR push_bit 8 (ucast b)" a b 0]
    by (simp add: Let_def)
next
  case (4 a b c rest)
  obtain ta tb tc td where q: "base64_quad a (Some b) (Some c) = [ta, tb, tc, td]"
    "0 \<le> base64_value ta" "0 \<le> base64_value tb" "0 \<le> base64_value tc" "0 \<le> base64_value td"
    "base64_quartet (base64_value ta) (base64_value tb) (base64_value tc) (base64_value td) =
       push_bit 16 (ucast a) OR push_bit 8 (ucast b) OR ucast c"
    using quad_values [of "Some b" "Some c" a] by auto
  have n: "base64_value tc \<noteq> -1" "base64_value td \<noteq> -1" "base64_value tc \<noteq> -2" "base64_value td \<noteq> -2"
    using q by auto
  show ?case
    using 4 q n triple_bytes [of "push_bit 16 (ucast a) OR push_bit 8 (ucast b) OR ucast c" a b c]
    by (simp add: Let_def)
qed simp

lemma base64_loop_bounded:
  "base64_loop cap out src = Some bs \<Longrightarrow> length out \<le> cap \<Longrightarrow> length bs \<le> cap"
  by (induction cap out src rule: base64_loop.induct) (auto simp: Let_def split: if_splits)

text \<open>
  Base64 is a faithful transport: whatever bytes \<open>encode_base64_bytes\<close> accepts, its text
  has the length the capacity check computed, holds no NUL inside, and \<open>decode_base64_bytes\<close>
  gives exactly those bytes back when the receiver has room for them.
\<close>

theorem base64_roundtrip:
  assumes "encode_base64_bytes data capacity = Some buffer" "data \<noteq> []" "length data \<le> room"
  shows "cstr buffer = base64_text data \<and> length buffer = (length data + 2) div 3 * 4 + 1 \<and>
     length buffer \<le> capacity \<and> decode_base64_bytes buffer room = Some data"
proof -
  have b: "buffer = base64_text data @ [0]" "length buffer \<le> capacity"
    using assms by (auto simp: encode_base64_bytes_def Let_def base64_text_length split: if_splits)
  have c: "cstr buffer = base64_text data"
    unfolding b by (rule cstr_append_nul) (rule base64_text_chars)
  have "0 < (length data + 2) div 3"
    using assms(2) by (cases data) simp_all
  then show ?thesis
    using b c assms base64_loop_text [of "[]" data room]
    by (simp add: decode_base64_bytes_def base64_text_length Let_def)
qed

lemma base64_roundtrip_witness:
  "\<exists>buffer. encode_base64_bytes [1, 2, 3, 255] 16 = Some buffer \<and>
     decode_base64_bytes buffer 256 = Some [1, 2, 3, 255]"
proof -
  obtain buffer where b: "encode_base64_bytes [1, 2, 3, 255] 16 = Some buffer"
    by (simp add: encode_base64_bytes_def)
  show ?thesis using base64_roundtrip [OF b, of 256] b by simp
qed

end
