(* ===== verification/JsonText.thy ===== *)
theory JsonText
  imports TextCodec CatalogModel
begin

text \<open>
  The JSON answers of \<open>nodenetCore.cpp\<close> and their size accounting. A document is a value of
  \<open>json\<close>; \<open>json_text esc flt\<close> is its text, where the printers of characters and floats
  belong to ArduinoJson and are arguments. The code predicts the length of every entry
  before it adds it; the lemmas show that the prediction is never too small for any printer
  that needs at most the characters of \<open>escaped_char_length\<close> and 24 for a float.
\<close>

section \<open>Documents\<close>

datatype json =
  JStr "u8 list" | JInt int | JBool bool | JFloat u32 | JArr "json list" | JObj "member list"
and member = Member string json

definition int_text :: "int \<Rightarrow> u8 list" where
  "int_text i = (if i < 0 then 45 # dec_digits (nat (- i)) else dec_digits (nat i))"

fun joined :: "u8 list list \<Rightarrow> u8 list" where
  "joined [] = []"
| "joined [x] = x"
| "joined (x # y # xs) = x @ 44 # joined (y # xs)"

fun json_text :: "(u8 \<Rightarrow> u8 list) \<Rightarrow> (u32 \<Rightarrow> u8 list) \<Rightarrow> json \<Rightarrow> u8 list"
and member_text :: "(u8 \<Rightarrow> u8 list) \<Rightarrow> (u32 \<Rightarrow> u8 list) \<Rightarrow> member \<Rightarrow> u8 list" where
  "json_text esc flt (JStr s) = 34 # concat (map esc (cstr s)) @ [34]"
| "json_text esc flt (JInt i) = int_text i"
| "json_text esc flt (JBool b) = lit (if b then ''true'' else ''false'')"
| "json_text esc flt (JFloat w) = flt w"
| "json_text esc flt (JArr js) = 91 # joined (map (json_text esc flt) js) @ [93]"
| "json_text esc flt (JObj ms) = 123 # joined (map (member_text esc flt) ms) @ [125]"
| "member_text esc flt (Member k j) = 34 # lit k @ [34, 58] @ json_text esc flt j"

lemma length_joined:
  "length (joined xs) = sum_list (map length xs) + (length xs - 1)"
  by (induction xs rule: joined.induct) simp_all

lemma joined_append:
  "length (joined (xs @ [x])) = length (joined xs) + (if xs = [] then 0 else 1) + length x"
  by (cases xs) (simp_all add: length_joined)

section \<open>Sizes of values\<close>

function decimal_u32_loop :: "u32 \<Rightarrow> nat \<Rightarrow> nat" where
  "decimal_u32_loop v digits =
     (if v \<ge> 10 then decimal_u32_loop (v div 10) (digits + 1) else digits)"
  by pat_completeness auto
termination
proof (relation "measure (\<lambda>(v, digits). unat v)", goal_cases)
  case (2 v digits)
  then have "10 \<le> unat v" by (simp add: word_le_nat_alt)
  then show ?case by (simp add: unat_div)
qed simp

declare decimal_u32_loop.simps [simp del]

definition decimal_u32_length :: "u32 \<Rightarrow> nat" where
  "decimal_u32_length v = decimal_u32_loop v 1"

definition decimal_i32_length :: "u32 \<Rightarrow> nat" where
  "decimal_i32_length v =
     (if \<not> bit v 31 then decimal_u32_length v else 1 + decimal_u32_length (- (v + 1) + 1))"

definition escaped_char_length :: "u8 \<Rightarrow> nat" where
  "escaped_char_length c =
     (if c = 34 \<or> c = 92 \<or> c = 8 \<or> c = 12 \<or> c = 10 \<or> c = 13 \<or> c = 9 then 2
      else if c < 0x20 then 6 else 1)"

definition escaped_json_string_length :: "u8 list \<Rightarrow> nat" where
  "escaped_json_string_length s = sum_list (map escaped_char_length (cstr s))"

definition json_string_value_size :: "u8 list \<Rightarrow> nat" where
  "json_string_value_size s = 2 + escaped_json_string_length s"

definition json_field_prefix_size :: "string \<Rightarrow> nat" where
  "json_field_prefix_size key = 3 + length key"

definition json_string_field_size :: "string \<Rightarrow> u8 list \<Rightarrow> nat" where
  "json_string_field_size key s = json_field_prefix_size key + json_string_value_size s"

definition json_u32_field_size :: "string \<Rightarrow> u32 \<Rightarrow> nat" where
  "json_u32_field_size key v = json_field_prefix_size key + decimal_u32_length v"

definition json_i32_field_size :: "string \<Rightarrow> u32 \<Rightarrow> nat" where
  "json_i32_field_size key v = json_field_prefix_size key + decimal_i32_length v"

definition json_bool_field_size :: "string \<Rightarrow> bool \<Rightarrow> nat" where
  "json_bool_field_size key b = json_field_prefix_size key + (if b then 4 else 5)"

definition json_float_field_size :: "string \<Rightarrow> nat" where
  "json_float_field_size key = json_field_prefix_size key + 24"

lemmas field_sizes =
  json_string_field_size_def json_u32_field_size_def json_i32_field_size_def
  json_bool_field_size_def json_float_field_size_def json_string_value_size_def
  json_field_prefix_size_def

lemma decimal_u32_loop: "decimal_u32_loop v d + 1 = d + length (dec_digits (unat v))"
proof (induction v d rule: decimal_u32_loop.induct)
  case (1 v d)
  show ?case
  proof (cases "v \<ge> 10")
    case True
    then have "\<not> unat v < 10" by (simp add: word_le_nat_alt)
    then show ?thesis
      using 1 True by (simp add: decimal_u32_loop.simps [of v] dec_digits.simps [of "unat v"] unat_div)
  next
    case False
    then have "unat v < 10" by (simp add: word_le_nat_alt)
    then show ?thesis using False by (simp add: decimal_u32_loop.simps dec_digits.simps)
  qed
qed

lemma decimal_u32_length: "decimal_u32_length v = length (dec_digits (unat v))"
  using decimal_u32_loop [of v 1] by (simp add: decimal_u32_length_def)

lemma length_uint_text: "length (int_text (uint v)) = decimal_u32_length (v :: u32)"
proof -
  have "\<not> uint v < 0" by (simp add: not_less)
  then show ?thesis by (simp add: int_text_def decimal_u32_length flip: unat_eq_nat_uint)
qed

lemma length_sint_text: "length (int_text (sint v)) = decimal_i32_length (v :: u32)"
proof (cases "bit v 31")
  case True
  have lt: "uint v < 2 ^ 32" using uint_lt2p [of v] by simp
  have "sint v < 0" using True bit_last_iff [of v] by simp
  moreover have "sint v = uint v - 2 ^ 32"
    using True lt
    by (simp add: sint_uint signed_take_bit_eq_take_bit_minus take_bit_int_eq_self_iff bit_unsigned_iff)
  moreover have "uint v \<noteq> 0"
  proof
    assume "uint v = 0"
    then have "v = 0" by (simp only: word_uint_eq_iff) simp
    then show False using True by simp
  qed
  then have "uint (- v) = 2 ^ 32 - uint v"
    using lt by (simp add: uint_word_ariths(4) zmod_zminus1_eq_if)
  ultimately have "nat (- sint v) = unat (- v)" "sint v < 0" by (simp_all add: unat_eq_nat_uint)
  then show ?thesis using True by (simp add: int_text_def decimal_i32_length_def decimal_u32_length)
next
  case False
  then have "sint v = uint v"
    using uint_lt2p [of v]
    by (simp add: sint_uint signed_take_bit_eq_take_bit_minus take_bit_int_eq_self_iff bit_unsigned_iff)
  then show ?thesis using False by (simp add: decimal_i32_length_def length_uint_text)
qed

section \<open>Sizes of entries\<close>

text \<open>The members of the NodeNet reference in the union \<open>ref\<close>.\<close>

definition ref_remote_device_id :: "point_definition \<Rightarrow> u8 list" where
  "ref_remote_device_id d = take 16 (ref d)"

definition ref_remote_feature :: "point_definition \<Rightarrow> u8 list" where
  "ref_remote_feature d = take 32 (drop 16 (ref d))"

definition ref_remote_point_id :: "point_definition \<Rightarrow> u8 list" where
  "ref_remote_point_id d = take 32 (drop 48 (ref d))"

definition JU32 :: "u32 \<Rightarrow> json" where "JU32 v = JInt (uint v)"

definition serialize_point_definition_compact :: "point_definition \<Rightarrow> json" where
  "serialize_point_definition_compact d =
     JObj ([Member ''pointId'' (JStr (point_id (pd_id d))),
       Member ''displayName'' (JStr (display_name d)),
       Member ''backend'' (JU32 (ucast (backend_raw (backend d)))),
       Member ''direction'' (JU32 (ucast (direction_raw (direction d)))),
       Member ''valueType'' (JU32 (ucast (value_type_raw (value_type d)))),
       Member ''refreshMs'' (JU32 (refresh_ms (polling d))),
       Member ''timeoutMs'' (JU32 (timeout_ms (polling d))),
       Member ''stringCapacity'' (JU32 (ucast (string_capacity d))),
       Member ''scale'' (JFloat (scale d)), Member ''unit'' (JStr (unit_text d))] @
       (case backend d of
          BackendModbus \<Rightarrow>
            [Member ''portIndex'' (JU32 (ucast (ref_port_index d))),
             Member ''slaveAddress'' (JU32 (ucast (ref_slave_address d))),
             Member ''address'' (JU32 (ucast (ref_address d))),
             Member ''registerCount'' (JU32 (ucast (ref_register_count d))),
             Member ''table'' (JU32 (ucast (modbus_table_raw (ref_table d)))),
             Member ''access'' (JU32 (ucast (modbus_access_raw (ref_access d))))]
        | BackendNodeNet \<Rightarrow>
            [Member ''remoteDeviceId'' (JStr (ref_remote_device_id d)),
             Member ''remoteFeature'' (JStr (ref_remote_feature d)),
             Member ''remotePointId'' (JStr (ref_remote_point_id d))]
        | _ \<Rightarrow> []))"

definition measure_point_definition_compact_entry :: "point_definition \<Rightarrow> nat" where
  "measure_point_definition_compact_entry d =
     2 + json_string_field_size ''pointId'' (point_id (pd_id d)) +
     (1 + json_string_field_size ''displayName'' (display_name d)) +
     (1 + json_u32_field_size ''backend'' (ucast (backend_raw (backend d)))) +
     (1 + json_u32_field_size ''direction'' (ucast (direction_raw (direction d)))) +
     (1 + json_u32_field_size ''valueType'' (ucast (value_type_raw (value_type d)))) +
     (1 + json_u32_field_size ''refreshMs'' (refresh_ms (polling d))) +
     (1 + json_u32_field_size ''timeoutMs'' (timeout_ms (polling d))) +
     (1 + json_u32_field_size ''stringCapacity'' (ucast (string_capacity d))) +
     (1 + json_float_field_size ''scale'') +
     (1 + json_string_field_size ''unit'' (unit_text d)) +
     (case backend d of
        BackendModbus \<Rightarrow>
          (1 + json_u32_field_size ''portIndex'' (ucast (ref_port_index d))) +
          (1 + json_u32_field_size ''slaveAddress'' (ucast (ref_slave_address d))) +
          (1 + json_u32_field_size ''address'' (ucast (ref_address d))) +
          (1 + json_u32_field_size ''registerCount'' (ucast (ref_register_count d))) +
          (1 + json_u32_field_size ''table'' (ucast (modbus_table_raw (ref_table d)))) +
          (1 + json_u32_field_size ''access'' (ucast (modbus_access_raw (ref_access d))))
      | BackendNodeNet \<Rightarrow>
          (1 + json_string_field_size ''remoteDeviceId'' (ref_remote_device_id d)) +
          (1 + json_string_field_size ''remoteFeature'' (ref_remote_feature d)) +
          (1 + json_string_field_size ''remotePointId'' (ref_remote_point_id d))
      | _ \<Rightarrow> 0)"

definition pv_i16 :: "point_value \<Rightarrow> u32" where
  "pv_i16 v = scast (ucast v :: u16)"

definition estimate_point_state_value_size :: "point_definition \<Rightarrow> point_state \<Rightarrow> nat" where
  "estimate_point_state_value_size d s =
     (case value_type d of
        TyBool \<Rightarrow> json_bool_field_size ''value'' (pv_b (ps_value s))
      | TyUint16 \<Rightarrow> json_u32_field_size ''value'' (ucast (pv_u16 (ps_value s)))
      | TyInt16 \<Rightarrow> json_i32_field_size ''value'' (pv_i16 (ps_value s))
      | TyUint32 \<Rightarrow> json_u32_field_size ''value'' (ps_value s)
      | TyInt32 \<Rightarrow> json_i32_field_size ''value'' (ps_value s)
      | TyEnum \<Rightarrow> json_i32_field_size ''value'' (ps_value s)
      | TyString \<Rightarrow> json_string_field_size ''value'' (string_value s)
      | TyFloat \<Rightarrow> json_field_prefix_size ''value'' + 24
      | TyRaw _ \<Rightarrow> json_field_prefix_size ''value'' + 4)"

text \<open>How long ago, by the clock that wraps; 0 for never.\<close>

definition age_ms :: "u32 \<Rightarrow> u32 \<Rightarrow> u32" where
  "age_ms now stamp = (if stamp = 0 then 0 else now - stamp)"

definition serialize_point_state_compact :: "point_definition \<Rightarrow> point_state \<Rightarrow> u32 \<Rightarrow> json" where
  "serialize_point_state_compact d s now_ms =
     JObj ([Member ''pointId'' (JStr (point_id (pd_id d))),
       Member ''quality'' (JU32 (ucast (quality_raw (quality s)))),
       Member ''upMs'' (JU32 (age_ms now_ms (last_update_ms s))),
       Member ''goodMs'' (JU32 (age_ms now_ms (last_good_update_ms s)))] @
       (case value_type d of
          TyBool \<Rightarrow> [Member ''value'' (JBool (pv_b (ps_value s)))]
        | TyUint16 \<Rightarrow> [Member ''value'' (JU32 (ucast (pv_u16 (ps_value s))))]
        | TyInt16 \<Rightarrow> [Member ''value'' (JInt (sint (pv_i16 (ps_value s))))]
        | TyUint32 \<Rightarrow> [Member ''value'' (JU32 (ps_value s))]
        | TyInt32 \<Rightarrow> [Member ''value'' (JInt (sint (ps_value s)))]
        | TyFloat \<Rightarrow> [Member ''value'' (JFloat (ps_value s))]
        | TyEnum \<Rightarrow> [Member ''value'' (JInt (sint (ps_value s)))]
        | TyString \<Rightarrow> [Member ''value'' (JStr (string_value s))]
        | TyRaw _ \<Rightarrow> []))"

definition measure_point_state_compact_entry ::
  "point_definition \<Rightarrow> point_state \<Rightarrow> u32 \<Rightarrow> nat" where
  "measure_point_state_compact_entry d s now_ms =
     2 + json_string_field_size ''pointId'' (point_id (pd_id d)) +
     (1 + json_u32_field_size ''quality'' (ucast (quality_raw (quality s)))) +
     (1 + json_u32_field_size ''upMs'' (age_ms now_ms (last_update_ms s))) +
     (1 + json_u32_field_size ''goodMs'' (age_ms now_ms (last_good_update_ms s))) +
     (1 + estimate_point_state_value_size d s)"

definition measure_feature_points_group_entry :: "u8 list \<Rightarrow> string \<Rightarrow> nat \<Rightarrow> nat" where
  "measure_feature_points_group_entry feature_name points_key first_point_size =
     2 + json_string_field_size ''feature'' feature_name +
     (1 + json_field_prefix_size points_key + 2) + first_point_size"

text \<open>The printers of the JSON library: what the accounting takes for granted.\<close>

definition compact_printer :: "(u8 \<Rightarrow> u8 list) \<Rightarrow> (u32 \<Rightarrow> u8 list) \<Rightarrow> bool" where
  "compact_printer esc flt =
     ((\<forall>c. length (esc c) \<le> escaped_char_length c) \<and> (\<forall>w. length (flt w) \<le> 24))"

lemma length_string_text:
  assumes "compact_printer esc flt"
  shows "length (json_text esc flt (JStr s)) \<le> json_string_value_size s"
proof -
  have "length (concat (map esc xs)) \<le> sum_list (map escaped_char_length xs)" for xs
    using assms by (induction xs) (auto simp: compact_printer_def intro: add_mono)
  then show ?thesis by (simp add: json_string_value_size_def escaped_json_string_length_def)
qed

lemma length_member_text:
  "length (member_text esc flt (Member k j)) = json_field_prefix_size k + length (json_text esc flt j)"
  by (simp add: json_field_prefix_size_def lit_def)

lemma length_JU32: "length (json_text esc flt (JU32 v)) = decimal_u32_length v"
  by (simp add: JU32_def length_uint_text)

lemma length_leaf_text:
  "length (json_text esc flt (JFloat w)) = length (flt w)"
  "length (json_text esc flt (JInt (sint v))) = decimal_i32_length v"
  "length (json_text esc flt (JBool b)) = (if b then 4 else 5)"
  by (simp_all add: length_sint_text lit_def)

lemma length_object_text:
  "length (json_text esc flt (JObj (m # ms))) =
     2 + length (member_text esc flt m) + sum_list (map (\<lambda>m. 1 + length (member_text esc flt m)) ms)"
  by (simp add: length_joined sum_list_Suc del: member_text.simps)
    (induction ms; simp del: member_text.simps)

lemma definition_entry_size:
  assumes "compact_printer esc flt"
  shows "length (json_text esc flt (serialize_point_definition_compact d))
     \<le> measure_point_definition_compact_entry d"
proof -
  have str: "length (json_text esc flt (JStr s)) \<le> json_string_value_size s" for s
    using assms by (rule length_string_text)
  have flt: "length (flt w) \<le> 24" for w using assms by (simp add: compact_printer_def)
  note sizes = length_object_text length_member_text length_JU32 length_leaf_text
  show ?thesis
  proof (cases "backend d")
    case BackendModbus
    then show ?thesis
      using str [of "point_id (pd_id d)"] str [of "display_name d"] str [of "unit_text d"] flt [of "scale d"]
      by (simp add: serialize_point_definition_compact_def measure_point_definition_compact_entry_def
          sizes json_string_field_size_def json_u32_field_size_def json_float_field_size_def
          del: member_text.simps json_text.simps)
  next
    case BackendNodeNet
    then show ?thesis
      using str [of "point_id (pd_id d)"] str [of "display_name d"] str [of "unit_text d"] flt [of "scale d"]
        str [of "ref_remote_device_id d"] str [of "ref_remote_feature d"] str [of "ref_remote_point_id d"]
      by (simp add: serialize_point_definition_compact_def measure_point_definition_compact_entry_def
          sizes json_string_field_size_def json_u32_field_size_def json_float_field_size_def
          del: member_text.simps json_text.simps)
  qed (use str [of "point_id (pd_id d)"] str [of "display_name d"] str [of "unit_text d"] flt [of "scale d"]
      in \<open>simp_all add: serialize_point_definition_compact_def
          measure_point_definition_compact_entry_def
          sizes json_string_field_size_def json_u32_field_size_def json_float_field_size_def
          del: member_text.simps json_text.simps\<close>)
qed

lemma state_entry_size:
  assumes "compact_printer esc flt"
  shows "length (json_text esc flt (serialize_point_state_compact d s now_ms))
     \<le> measure_point_state_compact_entry d s now_ms"
proof -
  have str: "length (json_text esc flt (JStr s)) \<le> json_string_value_size s" for s
    using assms by (rule length_string_text)
  have flt: "length (flt w) \<le> 24" for w using assms by (simp add: compact_printer_def)
  note sizes = length_object_text length_member_text length_JU32 length_leaf_text
  show ?thesis
    using str [of "point_id (pd_id d)"] str [of "string_value s"] flt [of "ps_value s"]
    by (cases "value_type d")
      (simp_all add: serialize_point_state_compact_def measure_point_state_compact_entry_def sizes
        estimate_point_state_value_size_def json_string_field_size_def json_u32_field_size_def
        json_i32_field_size_def json_bool_field_size_def
        del: member_text.simps json_text.simps)
qed

end
