(* ===== verification/PointQueries.thy ===== *)
theory PointQueries
  imports JsonText CatalogOps
begin

text \<open>
  The catalogue queries of \<open>nodenetCore.cpp\<close>: classification of a dotted path, the paged
  listings of devices, point definitions and point states, and the size accounting that keeps
  an answer within one NodeNet message. \<open>measureJson\<close> is \<open>measureJson\<close> of ArduinoJson; \<open>base\<close> is
  what the dispatcher put into the answer before the handler ran. The answer is built at the
  end of a handler from the state of its loop, with its members in the order in which the
  code creates them. The counters of the loops are natural numbers: they count rows of the
  catalogue, of which there are at most 1024.
\<close>

section \<open>Paths\<close>

datatype PointPathMatchKind = MatchNone | MatchDevice | MatchFeature | MatchPoint

text \<open>\<open>prefix\<close> and a dot at the start of \<open>path\<close>; the rest of the path.\<close>

definition after_dotted :: "u8 list \<Rightarrow> u8 list \<Rightarrow> u8 list option" where
  "after_dotted path prefix =
     (if take (length prefix) path = prefix \<and> length prefix < length path \<and>
         path ! length prefix = 46
      then Some (drop (length prefix + 1) path) else None)"

definition path_matches_feature :: "u8 list \<Rightarrow> point_definition \<Rightarrow> bool" where
  "path_matches_feature path d =
     (case after_dotted (cstr path) (cstr (device_id (pd_id d))) of
        None \<Rightarrow> False
      | Some rest \<Rightarrow> rest = cstr (feature (pd_id d)))"

definition path_matches_point :: "u8 list \<Rightarrow> point_definition \<Rightarrow> bool" where
  "path_matches_point path d =
     (case after_dotted (cstr path) (cstr (device_id (pd_id d))) of
        None \<Rightarrow> False
      | Some feature_part \<Rightarrow>
          (case after_dotted feature_part (cstr (feature (pd_id d))) of
             None \<Rightarrow> False
           | Some rest \<Rightarrow> rest = cstr (point_id (pd_id d))))"

fun classify_rows ::
  "u8 list \<Rightarrow> point_definition list \<Rightarrow> PointPathMatchKind \<Rightarrow> PointPathMatchKind" where
  "classify_rows path [] m = m"
| "classify_rows path (d # ds) m =
     (if path_matches_point path d then MatchPoint
      else if path_matches_feature path d then classify_rows path ds MatchFeature
      else if strcmp_eq path (device_id (pd_id d)) then classify_rows path ds MatchDevice
      else classify_rows path ds m)"

definition classify_point_catalog_path ::
  "u8 list \<Rightarrow> point_definition list \<Rightarrow> PointPathMatchKind" where
  "classify_point_catalog_path path definitions =
     (if cstr path = [] then MatchDevice else classify_rows path definitions MatchNone)"

lemma after_dotted_iff: "after_dotted p pre = Some rest \<longleftrightarrow> p = pre @ 46 # rest"
proof
  assume "after_dotted p pre = Some rest"
  then have t: "take (length pre) p = pre" "length pre < length p" "p ! length pre = 46"
    "rest = drop (length pre + 1) p"
    by (auto simp: after_dotted_def split: if_splits)
  then show "p = pre @ 46 # rest"
    by (metis Suc_eq_plus1 append_take_drop_id Cons_nth_drop_Suc)
qed (simp add: after_dotted_def)

lemma after_dotted_self [simp]: "after_dotted (pre @ 46 # rest) pre = Some rest"
  by (simp add: after_dotted_iff)

lemma path_matches_feature_iff:
  "path_matches_feature path d \<longleftrightarrow>
     cstr path = cstr (device_id (pd_id d)) @ 46 # cstr (feature (pd_id d))"
  by (auto simp: path_matches_feature_def after_dotted_iff split: option.splits)

lemma path_matches_point_iff:
  "path_matches_point path d \<longleftrightarrow>
     cstr path = cstr (device_id (pd_id d)) @ 46 # cstr (feature (pd_id d)) @ 46 # cstr (point_id (pd_id d))"
  by (auto simp: path_matches_point_def after_dotted_iff split: option.splits)

section \<open>Requests and answers\<close>

fun json_get :: "string \<Rightarrow> member list \<Rightarrow> json option" where
  "json_get k [] = None"
| "json_get k (Member k' v # ms) = (if k' = k then Some v else json_get k ms)"

definition req_u32 :: "member list \<Rightarrow> string \<Rightarrow> u32 \<Rightarrow> u32" where
  "req_u32 request key dflt =
     (case json_get key request of
        Some (JInt i) \<Rightarrow> if 0 \<le> i \<and> i < 2 ^ 32 then of_int i else dflt
      | _ \<Rightarrow> dflt)"

definition req_str :: "member list \<Rightarrow> string \<Rightarrow> u8 list \<Rightarrow> u8 list" where
  "req_str request key dflt =
     (case json_get key request of Some (JStr s) \<Rightarrow> s | _ \<Rightarrow> dflt)"

definition kPagedResponseSizeReserve :: nat where "kPagedResponseSizeReserve = 64"

definition kMessageSize :: nat where "kMessageSize = 2048"

definition response_can_append_size :: "nat \<Rightarrow> nat \<Rightarrow> bool" where
  "response_can_append_size current_size extra_size =
     (if extra_size > kMessageSize then False
      else if current_size + extra_size > kMessageSize then False
      else current_size + extra_size \<le> kMessageSize - kPagedResponseSizeReserve)"

definition response_can_append_item :: "nat \<Rightarrow> nat \<Rightarrow> nat \<Rightarrow> bool" where
  "response_can_append_item current_size emitted_count item_size =
     (if item_size > kMessageSize then False
      else (let next_size = current_size + (if emitted_count = 0 then 0 else 1) + item_size in
            if next_size > kMessageSize then False
            else next_size \<le> kMessageSize - kPagedResponseSizeReserve))"

definition response_commit_item_size :: "nat \<Rightarrow> nat \<Rightarrow> nat \<Rightarrow> nat" where
  "response_commit_item_size current_size emitted_count item_size =
     current_size + ((if emitted_count = 0 then 0 else 1) + item_size)"

text \<open>What the dispatcher puts into every answer: the requester's address and the node's header.\<close>

record node_identity =
  node_addr :: u8
  node_device_id :: "u8 list"
  node_instrument_name :: "u8 list"
  node_master :: bool
  node_hardware_type :: u8

definition nodeHeader :: "node_identity \<Rightarrow> member list" where
  "nodeHeader node =
     [Member ''from'' (JU32 (ucast (node_addr node))), Member ''deviceId'' (JStr (node_device_id node)),
      Member ''instrumentName'' (JStr (node_instrument_name node)),
      Member ''master'' (JBool (node_master node)),
      Member ''hardwareType'' (JU32 (ucast (node_hardware_type node)))]"

definition answer_base :: "node_identity \<Rightarrow> member list \<Rightarrow> member list" where
  "answer_base node request = Member ''to'' (JU32 (req_u32 request ''from'' 0)) # nodeHeader node"

text \<open>The members of a paged answer, in the order of their creation.\<close>

definition page_members ::
  "member list \<Rightarrow> string \<Rightarrow> u8 list \<Rightarrow> u32 \<Rightarrow> nat \<Rightarrow> nat \<Rightarrow> bool \<Rightarrow> string \<Rightarrow> string \<Rightarrow> json list \<Rightarrow>
   member list" where
  "page_members base cmd path offset cnt total_rows has_more kind array_key items =
     base @
     [Member ''cmd'' (JStr (lit cmd)), Member ''path'' (JStr path), Member ''offset'' (JU32 offset),
      Member ''count'' (JU32 (of_nat cnt)), Member ''total'' (JU32 (of_nat total_rows)),
      Member ''hasMore'' (JBool has_more), Member ''kind'' (JStr (lit kind)),
      Member array_key (JArr items)]"

definition has_more_rows :: "u32 \<Rightarrow> nat \<Rightarrow> nat \<Rightarrow> bool" where
  "has_more_rows offset cnt total_rows = (unat (offset + of_nat cnt) < total_rows)"

section \<open>Devices\<close>

definition measure_device_browse_entry :: "browse_device_meta \<Rightarrow> u8 list \<Rightarrow> nat" where
  "measure_device_browse_entry m dev =
     2 + json_string_field_size ''deviceId'' dev +
     (1 + json_field_prefix_size ''features'' + 2 + unat (encoded_features_size m))"

text \<open>The names up to the first that is missing.\<close>

fun device_features :: "point_catalog \<Rightarrow> browse_device_meta \<Rightarrow> nat list \<Rightarrow> json list" where
  "device_features c m [] = []"
| "device_features c m (f # fs) =
     (case browseFeatureName c m f of None \<Rightarrow> []
      | Some name \<Rightarrow> JStr name # device_features c m fs)"

definition append_device_features :: "point_catalog \<Rightarrow> browse_device_meta \<Rightarrow> json list" where
  "append_device_features c m = device_features c m [0..<unat (feature_count m)]"

definition device_entry :: "point_catalog \<Rightarrow> nat \<Rightarrow> json" where
  "device_entry c browse_index =
     (let m = browseDeviceMeta c browse_index;
          d = cat_entries c (unat (bd_catalog_index m))
      in JObj [Member ''deviceId'' (JStr (device_id (pd_id d))),
               Member ''features'' (JArr (append_device_features c m))])"

definition device_entry_size :: "point_catalog \<Rightarrow> nat \<Rightarrow> nat" where
  "device_entry_size c browse_index =
     (let m = browseDeviceMeta c browse_index
      in measure_device_browse_entry m (device_id (pd_id (cat_entries c (unat (bd_catalog_index m))))))"

text \<open>The loop over the devices \<open>rest\<close>: the browse indices emitted.\<close>

fun device_loop :: "(nat \<Rightarrow> nat) \<Rightarrow> nat \<Rightarrow> nat list \<Rightarrow> nat list \<Rightarrow> nat \<Rightarrow> nat list" where
  "device_loop dsize limit [] out sz = out"
| "device_loop dsize limit (i # rest) out sz =
     (if length out \<ge> limit then out
      else if \<not> response_can_append_item sz (length out) (dsize i) then out
      else device_loop dsize limit rest (out @ [i])
             (response_commit_item_size sz (length out) (dsize i)))"

definition device_page ::
  "(json \<Rightarrow> nat) \<Rightarrow> string \<Rightarrow> point_catalog \<Rightarrow> member list \<Rightarrow> u8 list \<Rightarrow> u32 \<Rightarrow> u32 \<Rightarrow> member list" where
  "device_page measureJson cmd c base path offset limit =
     (let sz = measureJson (JObj (page_members base cmd path offset 0 0 False ''devices'' ''devices'' []));
          browse_offset = (if cstr path = [] then 0 else findBrowseDeviceIndex c (Some path));
          total_rows = (if cstr path = [] then browseDeviceCount c
                   else if browse_offset < browseDeviceCount c then 1 else 0);
          out = device_loop (device_entry_size c) (unat limit)
                  (map ((+) browse_offset) [unat offset..<total_rows]) [] sz
      in page_members base cmd path offset (length out) total_rows (has_more_rows offset (length out) total_rows)
           ''devices'' ''devices'' (map (device_entry c) out))"

section \<open>Points\<close>

text \<open>
  The loop over the catalogue rows \<open>rest\<close>: the rows emitted. \<open>psize\<close> is the size of a row's
  entry, \<open>gsize\<close> that of the feature group it opens as the first.
\<close>

fun point_loop ::
  "(nat \<Rightarrow> bool) \<Rightarrow> (nat \<Rightarrow> nat) \<Rightarrow> (nat \<Rightarrow> nat) \<Rightarrow> nat \<Rightarrow> nat \<Rightarrow> nat list \<Rightarrow> nat \<Rightarrow> nat list \<Rightarrow> nat \<Rightarrow>
   nat list" where
  "point_loop matches psize gsize offset limit [] matched out sz = out"
| "point_loop matches psize gsize offset limit (i # rest) matched out sz =
     (if \<not> matches i then point_loop matches psize gsize offset limit rest matched out sz
      else if matched < offset then point_loop matches psize gsize offset limit rest (matched + 1) out sz
      else if length out \<ge> limit
      then point_loop matches psize gsize offset limit rest (matched + 1) out sz
      else
        (let extra = (if out \<noteq> [] then 1 + psize i else gsize i) in
         if \<not> response_can_append_size sz extra then out
         else point_loop matches psize gsize offset limit rest (matched + 1) (out @ [i]) (sz + extra)))"

definition path_selects :: "u8 list \<Rightarrow> PointPathMatchKind \<Rightarrow> point_definition \<Rightarrow> bool" where
  "path_selects path kind d =
     (case kind of
        MatchPoint \<Rightarrow> path_matches_point path d
      | MatchFeature \<Rightarrow> path_matches_feature path d
      | _ \<Rightarrow> False)"

text \<open>The feature group of the emitted rows.\<close>

definition feature_group :: "point_catalog \<Rightarrow> string \<Rightarrow> (nat \<Rightarrow> json) \<Rightarrow> nat list \<Rightarrow> json list" where
  "feature_group c key entry out =
     (case out of [] \<Rightarrow> []
      | i # _ \<Rightarrow> [JObj [Member ''feature'' (JStr (feature (pd_id (cat_entries c i)))),
                       Member key (JArr (map entry out))]])"

definition point_rows ::
  "(json \<Rightarrow> nat) \<Rightarrow> string \<Rightarrow> string \<Rightarrow> (nat \<Rightarrow> nat) \<Rightarrow> point_catalog \<Rightarrow> member list \<Rightarrow> u8 list \<Rightarrow>
   u32 \<Rightarrow> u32 \<Rightarrow> PointPathMatchKind \<Rightarrow> nat list" where
  "point_rows measureJson cmd key psize c base path offset limit kind =
     point_loop (\<lambda>i. path_selects path kind (cat_entries c i)) psize
       (\<lambda>i. measure_feature_points_group_entry (feature (pd_id (cat_entries c i))) key (psize i))
       (unat offset) (unat limit) [0..<cat_count c] 0 []
       (measureJson (JObj (page_members base cmd path offset 0 0 False ''points'' ''pointFeatures'' [])))"

definition point_page ::
  "(json \<Rightarrow> nat) \<Rightarrow> string \<Rightarrow> string \<Rightarrow> (nat \<Rightarrow> json) \<Rightarrow> (nat \<Rightarrow> nat) \<Rightarrow> point_catalog \<Rightarrow> member list \<Rightarrow>
   u8 list \<Rightarrow> u32 \<Rightarrow> u32 \<Rightarrow> PointPathMatchKind \<Rightarrow> member list" where
  "point_page measureJson cmd key entry psize c base path offset limit kind =
     (let out = point_rows measureJson cmd key psize c base path offset limit kind;
          total_rows =
            length (filter (\<lambda>i. path_selects path kind (cat_entries c i)) [0..<cat_count c])
      in page_members base cmd path offset (length out) total_rows (has_more_rows offset (length out) total_rows)
           ''points'' ''pointFeatures'' (feature_group c key entry out))"

section \<open>The handlers\<close>

definition catalog_rows :: "point_catalog \<Rightarrow> point_definition list" where
  "catalog_rows c = map (cat_entries c) [0..<cat_count c]"

definition handlePointDefinitionsRequest ::
  "(json \<Rightarrow> nat) \<Rightarrow> point_catalog \<Rightarrow> member list \<Rightarrow> member list \<Rightarrow> member list" where
  "handlePointDefinitionsRequest measureJson c request base =
     (let path = req_str request ''path'' []; offset = req_u32 request ''offset'' 0;
          limit = req_u32 request ''limit'' 4;
          kind = classify_point_catalog_path path (catalog_rows c)
      in if cstr path = [] \<or> kind = MatchDevice
         then device_page measureJson ''pointDefsRes'' c base path offset limit
         else point_page measureJson ''pointDefsRes'' ''points''
                (\<lambda>i. serialize_point_definition_compact (cat_entries c i))
                (\<lambda>i. measure_point_definition_compact_entry (cat_entries c i))
                c base path offset limit kind)"

text \<open>
  \<open>virtual_state i\<close> is the state \<open>buildVirtualPlcPointState\<close> makes up for row \<open>i\<close>, when it is a
  point of the local PLC.
\<close>

definition reported_state :: "(nat \<Rightarrow> point_state option) \<Rightarrow> point_catalog \<Rightarrow> nat \<Rightarrow> point_state" where
  "reported_state virtual_state c i =
     (case virtual_state i of Some s \<Rightarrow> s | None \<Rightarrow> cat_states c i)"

definition handlePointStatesRequest ::
  "(json \<Rightarrow> nat) \<Rightarrow> (nat \<Rightarrow> point_state option) \<Rightarrow> u32 \<Rightarrow> point_catalog \<Rightarrow> member list \<Rightarrow> member list \<Rightarrow>
   member list" where
  "handlePointStatesRequest measureJson virtual_state now_ms c request base =
     (let path = req_str request ''path'' []; offset = req_u32 request ''offset'' 0;
          limit = req_u32 request ''limit'' 4;
          kind = classify_point_catalog_path path (catalog_rows c);
          state = reported_state virtual_state c
      in if cstr path = [] \<or> kind = MatchDevice
         then device_page measureJson ''pointStatesRes'' c base path offset limit
         else point_page measureJson ''pointStatesRes'' ''pointStates''
                (\<lambda>i. serialize_point_state_compact (cat_entries c i) (state i) now_ms)
                (\<lambda>i. measure_point_state_compact_entry (cat_entries c i) (state i) now_ms)
                c base path offset limit kind)"

end
