(* ===== verification/PointQueryProps.thy ===== *)
theory PointQueryProps
  imports PointQueries CatalogBrowse
begin

text \<open>
  What the catalogue queries guarantee: a path is classified by the rows it names, an answer
  never outgrows a NodeNet message, and a client that asks for page after page receives every
  row its path selects exactly once and in order.
\<close>

section \<open>Classification\<close>

lemma classify_no_point:
  assumes "\<forall>d\<in>set ds. \<not> path_matches_point path d"
    and "\<forall>d\<in>set ds. \<not> path_matches_feature path d \<or> (\<forall>e\<in>set ds. \<not> strcmp_eq path (device_id (pd_id e)))"
  shows "classify_rows path ds m =
     (if \<exists>d\<in>set ds. path_matches_feature path d then MatchFeature
      else if \<exists>d\<in>set ds. strcmp_eq path (device_id (pd_id d)) then MatchDevice else m)"
  using assms by (induction path ds m rule: classify_rows.induct) auto

lemma classify_some_point:
  "(\<exists>d\<in>set ds. path_matches_point path d) \<Longrightarrow> classify_rows path ds m = MatchPoint"
  by (induction path ds m rule: classify_rows.induct) auto

text \<open>C32: With device names that hold no dot, a path is a point's exactly when it is the dotted
  name of a row, else a feature's when it is the dotted name of a row's feature, else a
  device's when it is empty or names a row's device, and nothing otherwise; the order of the
  rows does not matter.\<close>

theorem path_classified:
  assumes "\<forall>d\<in>set ds. 46 \<notin> set (cstr (device_id (pd_id d)))" "cstr path \<noteq> []"
  shows "classify_point_catalog_path path ds =
     (if \<exists>d\<in>set ds. cstr path = cstr (device_id (pd_id d)) @ 46 # cstr (feature (pd_id d)) @ 46 #
           cstr (point_id (pd_id d)) then MatchPoint
      else if \<exists>d\<in>set ds. cstr path = cstr (device_id (pd_id d)) @ 46 # cstr (feature (pd_id d))
      then MatchFeature
      else if \<exists>d\<in>set ds. cstr path = cstr (device_id (pd_id d)) then MatchDevice else MatchNone)"
proof (cases "\<exists>d\<in>set ds. path_matches_point path d")
  case True
  then show ?thesis
    using assms classify_some_point [of ds path MatchNone]
    by (simp add: classify_point_catalog_path_def path_matches_point_iff)
next
  case False
  have "\<not> path_matches_feature path d \<or> (\<forall>e\<in>set ds. \<not> strcmp_eq path (device_id (pd_id e)))"
    if "d \<in> set ds" for d
  proof (cases "path_matches_feature path d")
    case True
    then have "46 \<in> set (cstr path)" by (simp add: path_matches_feature_iff)
    then show ?thesis using assms(1) by (auto simp: strcmp_eq_def)
  qed simp
  then have "classify_rows path ds MatchNone =
     (if \<exists>d\<in>set ds. path_matches_feature path d then MatchFeature
      else if \<exists>d\<in>set ds. strcmp_eq path (device_id (pd_id d)) then MatchDevice else MatchNone)"
    using False by (intro classify_no_point) auto
  then show ?thesis
    using assms False
    by (simp add: classify_point_catalog_path_def path_matches_point_iff path_matches_feature_iff
        strcmp_eq_def)
qed

section \<open>The loop over the rows\<close>

text \<open>What the emitted rows add to the answer.\<close>

fun rows_size :: "(nat \<Rightarrow> nat) \<Rightarrow> (nat \<Rightarrow> nat) \<Rightarrow> nat list \<Rightarrow> nat" where
  "rows_size psize gsize [] = 0"
| "rows_size psize gsize (i # rest) = gsize i + sum_list (map (\<lambda>j. 1 + psize j) rest)"

lemma rows_size_snoc:
  "rows_size psize gsize (out @ [i]) =
     rows_size psize gsize out + (if out \<noteq> [] then 1 + psize i else gsize i)"
  by (cases out) simp_all

lemma can_append_size_iff:
  "response_can_append_size s e \<longleftrightarrow> s + e \<le> kMessageSize - kPagedResponseSizeReserve"
  by (auto simp: response_can_append_size_def kMessageSize_def kPagedResponseSizeReserve_def)

lemma point_loop_prefix:
  "\<exists>k \<le> limit - length out. point_loop matches psize gsize offset limit rest matched out sz =
     out @ take k (drop (offset - matched) (filter matches rest))"
proof (induction matches psize gsize offset limit rest matched out sz rule: point_loop.induct)
  case (2 matches psize gsize offset limit i rest matched out sz)
  consider "\<not> matches i" | "matches i" "matched < offset"
    | "matches i" "\<not> matched < offset" "length out \<ge> limit"
    | "matches i" "\<not> matched < offset" "\<not> length out \<ge> limit" by blast
  then show ?case
  proof cases
    case 1
    then show ?thesis using 2 by simp
  next
    case c: 2
    then obtain j where "offset - matched = Suc j" "offset - (matched + 1) = j"
      by (metis Suc_diff_Suc Suc_eq_plus1)
    then show ?thesis using 2(2) c by simp
  next
    case 3
    then show ?thesis using 2(3) by simp
  next
    case 4
    define extra where "extra = (if out \<noteq> [] then 1 + psize i else gsize i)"
    show ?thesis
    proof (cases "response_can_append_size sz extra")
      case True
      then obtain k where "k \<le> limit - length (out @ [i])"
        "point_loop matches psize gsize offset limit rest (matched + 1) (out @ [i]) (sz + extra) =
           (out @ [i]) @ take k (drop (offset - (matched + 1)) (filter matches rest))"
        using 2(4) [of extra] 4 extra_def by auto
      then show ?thesis
        using 4 True by (intro exI [of _ "Suc k"]) (simp add: extra_def [symmetric] Let_def)
    next
      case False
      then show ?thesis using 4 by (intro exI [of _ 0]) (simp add: extra_def [symmetric] Let_def)
    qed
  qed
qed auto

lemma point_loop_size:
  assumes "out \<noteq> [] \<Longrightarrow> s0 + rows_size psize gsize out \<le> kMessageSize - kPagedResponseSizeReserve"
    "sz = s0 + rows_size psize gsize out"
    "res = point_loop matches psize gsize offset limit rest matched out sz" "res \<noteq> []"
  shows "s0 + rows_size psize gsize res \<le> kMessageSize - kPagedResponseSizeReserve"
  using assms
proof (induction rest arbitrary: matched out sz)
  case (Cons i rest)
  define extra where "extra = (if out \<noteq> [] then 1 + psize i else gsize i)"
  show ?case
  proof (cases "matches i \<and> \<not> matched < offset \<and> \<not> length out \<ge> limit")
    case True
    show ?thesis
    proof (cases "response_can_append_size sz extra")
      case fits: True
      have grown: "sz + extra = s0 + rows_size psize gsize (out @ [i])"
        using Cons.prems(2) by (simp add: rows_size_snoc extra_def)
      show ?thesis
      proof (rule Cons.IH)
        show "sz + extra = s0 + rows_size psize gsize (out @ [i])" by (rule grown)
        show "s0 + rows_size psize gsize (out @ [i]) \<le> kMessageSize - kPagedResponseSizeReserve"
          using fits by (simp add: can_append_size_iff flip: grown)
        show "res = point_loop matches psize gsize offset limit rest (matched + 1) (out @ [i]) (sz + extra)"
          using Cons.prems(3) True fits by (simp add: extra_def [symmetric] Let_def)
      qed (rule Cons.prems(4))
    next
      case False
      then have "res = out" using Cons.prems(3) True by (simp add: extra_def [symmetric] Let_def)
      then show ?thesis using Cons.prems(1,4) by simp
    qed
  next
    case False
    then have "res = point_loop matches psize gsize offset limit rest matched out sz \<or>
        res = point_loop matches psize gsize offset limit rest (matched + 1) out sz"
      using Cons.prems(3) by auto
    then show ?thesis using Cons.IH Cons.prems(1,2,4) by blast
  qed
qed simp

text \<open>A page is not empty while rows are left, when a first row always fits.\<close>

lemma point_loop_progress:
  assumes "0 < limit" "\<And>i. i \<in> set rest \<Longrightarrow> matches i \<Longrightarrow> response_can_append_size sz (gsize i)"
    "offset - matched < length (filter matches rest)"
  shows "point_loop matches psize gsize offset limit rest matched [] sz \<noteq> []"
  using assms
proof (induction rest arbitrary: matched)
  case (Cons i rest)
  consider "\<not> matches i" | "matches i" "matched < offset" | "matches i" "\<not> matched < offset" by blast
  then show ?case
  proof cases
    case 1
    then show ?thesis using Cons by simp
  next
    case 2
    then have "offset - (matched + 1) < length (filter matches rest)" using Cons.prems(3) by simp
    then show ?thesis using Cons 2 by simp
  next
    case 3
    then obtain k where "point_loop matches psize gsize offset limit rest (matched + 1) ([] @ [i]) (sz + gsize i) =
        ([] @ [i]) @ take k (drop (offset - (matched + 1)) (filter matches rest))"
      using point_loop_prefix [of limit "[] @ [i]"] by metis
    then show ?thesis using Cons.prems 3 by (simp add: Let_def)
  qed
qed simp

section \<open>Answers fit a message\<close>

lemma length_dec_digits: "n < 10 ^ Suc k \<Longrightarrow> length (dec_digits n) \<le> Suc k"
proof (induction k arbitrary: n)
  case 0
  then show ?case by (simp add: dec_digits.simps)
next
  case (Suc k)
  show ?case
  proof (cases "n < 10")
    case True
    then show ?thesis by (simp add: dec_digits.simps)
  next
    case False
    then have "n div 10 < 10 ^ Suc k" using Suc.prems by (simp add: less_mult_imp_div_less)
    then show ?thesis using Suc.IH [of "n div 10"] False by (simp add: dec_digits.simps [of n])
  qed
qed

lemma u32_digits: "1 \<le> decimal_u32_length v \<and> decimal_u32_length v \<le> 10"
proof -
  have "unat v < 2 ^ 32" using unsigned_less [of v] by simp
  then have "unat v < 10 ^ Suc 9" by simp
  moreover have "dec_digits (unat v) \<noteq> []" by (subst dec_digits.simps) simp
  ultimately show ?thesis
    using length_dec_digits [of "unat v" 9] by (simp add: decimal_u32_length Suc_le_eq)
qed

lemma length_object:
  "length (json_text esc flt (JObj (ms @ [m]))) =
     2 + sum_list (map (\<lambda>m. length (member_text esc flt m)) ms) + length ms + length (member_text esc flt m)"
  by (simp add: length_joined comp_def del: member_text.simps)

lemma page_growth:
  assumes "length (json_text esc flt (JArr items)) \<le> 2 + extra"
  shows "length (json_text esc flt (JObj (page_members base cmd path offset cnt nrows hm kind key items)))
     \<le> length (json_text esc flt (JObj (page_members base cmd path offset 0 0 False kind key []))) +
       18 + extra"
proof -
  have d: "decimal_u32_length (of_nat cnt) \<le> 10" "decimal_u32_length (of_nat nrows) \<le> 10"
    "decimal_u32_length 0 = 1"
    using u32_digits by (auto simp: decimal_u32_length dec_digits.simps)
  have app: "page_members base cmd path offset cnt nrows hm kind key items =
      (base @ [Member ''cmd'' (JStr (lit cmd)), Member ''path'' (JStr path), Member ''offset'' (JU32 offset),
        Member ''count'' (JU32 (of_nat cnt)), Member ''total'' (JU32 (of_nat nrows)),
        Member ''hasMore'' (JBool hm), Member ''kind'' (JStr (lit kind))]) @ [Member key (JArr items)]"
    for cnt nrows hm items
    by (simp add: page_members_def)
  have e: "length (json_text esc flt (JArr [])) = 2" by simp
  show ?thesis
    unfolding app length_object
    using assms d e
    by (simp add: length_member_text length_JU32 length_leaf_text del: member_text.simps json_text.simps)
qed

lemma length_array:
  "length (json_text esc flt (JArr (j # js))) =
     2 + length (json_text esc flt j) + sum_list (map (\<lambda>j. 1 + length (json_text esc flt j)) js)"
  by (simp add: length_joined sum_list_Suc del: json_text.simps(1-4) json_text.simps(6))
    (induction js; simp)

lemma feature_group_size:
  assumes "compact_printer esc flt" "\<And>i. i \<in> set out \<Longrightarrow> length (json_text esc flt (entry i)) \<le> psize i"
  shows "length (json_text esc flt (JArr (feature_group c key entry out))) \<le> 2 + rows_size psize
     (\<lambda>i. measure_feature_points_group_entry (feature (pd_id (cat_entries c i))) key (psize i)) out"
proof (cases out)
  case Nil
  then show ?thesis by (simp add: feature_group_def)
next
  case (Cons i rest)
  define name where "name = feature (pd_id (cat_entries c i))"
  have m: "sum_list (map (\<lambda>j. 1 + length (json_text esc flt (entry j))) rest) \<le>
      sum_list (map (\<lambda>j. 1 + psize j) rest)"
    using assms(2) Cons by (intro sum_list_mono) simp
  have arr: "length (json_text esc flt (JArr (map entry out))) \<le>
      2 + psize i + sum_list (map (\<lambda>j. 1 + psize j) rest)"
    using m assms(2) [of i] Cons by (simp add: length_array comp_def del: json_text.simps)
  have grp: "feature_group c key entry out =
      [JObj [Member ''feature'' (JStr name), Member key (JArr (map entry out))]]"
    by (simp add: feature_group_def Cons name_def)
  have "length (json_text esc flt (JArr (feature_group c key entry out))) =
      2 + (2 + (json_field_prefix_size ''feature'' + length (json_text esc flt (JStr name))) +
        (1 + (json_field_prefix_size key + length (json_text esc flt (JArr (map entry out))))))"
    unfolding grp length_array
    by (simp add: length_object_text length_member_text del: json_text.simps member_text.simps)
  then show ?thesis
    using arr length_string_text [OF assms(1), of name] Cons
    by (simp add: measure_feature_points_group_entry_def json_string_field_size_def name_def
        del: json_text.simps)
qed

lemma point_page_fits:
  assumes "compact_printer esc flt" "\<And>i. length (json_text esc flt (entry i)) \<le> psize i"
    "length (json_text esc flt (JObj (page_members base cmd path offset 0 0 False ''points'' ''pointFeatures'' [])))
       \<le> 2030"
  shows "length (json_text esc flt (JObj (point_page (\<lambda>j. length (json_text esc flt j)) cmd key entry psize
     c base path offset limit kind))) \<le> kMessageSize"
proof -
  let ?s0 = "length (json_text esc flt (JObj (page_members base cmd path offset 0 0 False ''points'' ''pointFeatures'' [])))"
  define out where "out = point_rows (\<lambda>j. length (json_text esc flt j)) cmd key psize c base path offset limit kind"
  define gsize where "gsize = (\<lambda>i. measure_feature_points_group_entry (feature (pd_id (cat_entries c i))) key (psize i))"
  have b: "?s0 + rows_size psize gsize out \<le> kMessageSize - kPagedResponseSizeReserve" if "out \<noteq> []"
    by (rule point_loop_size [where out = "[]" and sz = ?s0])
      (use that in \<open>simp_all add: out_def point_rows_def gsize_def\<close>)
  have "length (json_text esc flt (JArr (feature_group c key entry out))) \<le> 2 + rows_size psize gsize out"
    using feature_group_size [OF assms(1,2)] by (simp add: gsize_def)
  then have g: "length (json_text esc flt (JObj (page_members base cmd path offset (length out) nrows hm
      ''points'' ''pointFeatures'' (feature_group c key entry out)))) \<le> ?s0 + 18 + rows_size psize gsize out"
    for nrows hm
    by (rule page_growth)
  have "?s0 + 18 + rows_size psize gsize out \<le> kMessageSize"
    using b assms(3) by (cases out) (simp_all add: kMessageSize_def kPagedResponseSizeReserve_def)
  then show ?thesis
    using order_trans [OF g] by (simp only: point_page_def Let_def out_def [symmetric])
qed

text \<open>C31: The size accounting keeps the answers to point queries within one NodeNet message: as
  long as the answer without its points takes at most 2030 bytes, the complete answer
  takes at most 2048, for definitions and for states, for every offset and limit, whatever
  strings the points hold and whatever the requester asked.\<close>

theorem point_answers_fit:
  assumes "compact_printer esc flt" "path = req_str request ''path'' []" "cstr path \<noteq> []"
    "classify_point_catalog_path path (catalog_rows c) \<noteq> MatchDevice"
    "\<forall>cmd. cmd = ''pointDefsRes'' \<or> cmd = ''pointStatesRes'' \<longrightarrow>
       length (json_text esc flt (JObj (page_members (answer_base node request) cmd path
         (req_u32 request ''offset'' 0) 0 0 False ''points'' ''pointFeatures'' []))) \<le> 2030"
  shows "length (json_text esc flt (JObj (handlePointDefinitionsRequest (\<lambda>j. length (json_text esc flt j))
       c request (answer_base node request)))) \<le> kMessageSize \<and>
     length (json_text esc flt (JObj (handlePointStatesRequest (\<lambda>j. length (json_text esc flt j))
       virtual_state now_ms c request (answer_base node request)))) \<le> kMessageSize"
  using assms(3-5)
  by (simp add: handlePointDefinitionsRequest_def handlePointStatesRequest_def Let_def
      point_page_fits [OF assms(1)] definition_entry_size [OF assms(1)] state_entry_size [OF assms(1)]
      flip: assms(2) del: json_text.simps)

section \<open>Page after page\<close>

text \<open>A client that asks for the points of a path from an offset on and goes on while the answer
  says that there are more, in at most \<open>f\<close> requests.\<close>

definition client_request :: "u32 \<Rightarrow> u8 list \<Rightarrow> u32 \<Rightarrow> u32 \<Rightarrow> member list" where
  "client_request requester path limit offset =
     [Member ''from'' (JU32 requester), Member ''path'' (JStr path), Member ''offset'' (JU32 offset),
      Member ''limit'' (JU32 limit)]"

definition answer_points :: "member list \<Rightarrow> json list" where
  "answer_points ms =
     (case json_get ''pointFeatures'' ms of
        Some (JArr [JObj [_, Member _ (JArr items)]]) \<Rightarrow> items
      | _ \<Rightarrow> [])"

fun read_pages :: "nat \<Rightarrow> (u32 \<Rightarrow> member list) \<Rightarrow> u32 \<Rightarrow> json list" where
  "read_pages 0 ask offset = []"
| "read_pages (Suc f) ask offset =
     (let ms = ask offset; items = answer_points ms
      in items @ (if json_get ''hasMore'' ms = Some (JBool True)
                  then read_pages f ask (offset + of_nat (length items)) else []))"

lemma client_request_fields [simp]:
  "req_str (client_request requester path limit offset) ''path'' [] = path"
  "req_u32 (client_request requester path limit offset) ''offset'' 0 = offset"
  "req_u32 (client_request requester path limit offset) ''limit'' 4 = limit"
  using uint_lt2p [of offset] uint_lt2p [of limit]
  by (simp_all add: client_request_def req_str_def req_u32_def JU32_def)

lemma answer_points_page:
  "answer_points (page_members (answer_base node request) cmd path offset cnt nrows hm kind
     ''pointFeatures'' (feature_group c key entry out)) = map entry out"
  by (simp add: answer_points_def page_members_def answer_base_def nodeHeader_def feature_group_def
      split: list.split)

lemma has_more_page:
  "json_get ''hasMore'' (page_members (answer_base node request) cmd path offset cnt nrows hm kind
     ''pointFeatures'' items) = Some (JBool hm)"
  by (simp add: page_members_def answer_base_def nodeHeader_def)

lemma has_more_rows_iff:
  assumes "out = take k (drop (unat offset) sel)" "length sel \<le> kMaxPoints"
  shows "has_more_rows offset (length out) (length sel) \<longleftrightarrow> unat offset + length out < length sel"
    "out \<noteq> [] \<Longrightarrow> unat (offset + of_nat (length out)) = unat offset + length out"
proof -
  have w: "unat (offset + of_nat (length out)) = unat offset + length out" if "out \<noteq> []"
  proof -
    have "unat offset + length out \<le> length sel" using that assms(1) by (cases "unat offset < length sel") auto
    then have le: "unat offset + length out \<le> 1024" using assms(2) by (simp add: kMaxPoints_def)
    then have "unat (of_nat (length out) :: u32) = length out" by (simp add: unat_of_nat)
    then show ?thesis using le by (simp add: unat_word_ariths)
  qed
  show "out \<noteq> [] \<Longrightarrow> unat (offset + of_nat (length out)) = unat offset + length out" by (rule w)
  show "has_more_rows offset (length out) (length sel) \<longleftrightarrow> unat offset + length out < length sel"
    using w by (cases "out = []") (simp_all add: has_more_rows_def)
qed

lemma read_pages_complete:
  assumes ask: "\<And>at. ask at = page_members (answer_base node (request at)) cmd path at (length (out at)) (length sel)
      (has_more_rows at (length (out at)) (length sel)) ''points'' ''pointFeatures''
      (feature_group c key entry (out at))"
    and pre: "\<And>at. \<exists>k. out at = take k (drop (unat at) sel)"
    and progress: "\<And>at. unat at < length sel \<Longrightarrow> out at \<noteq> []"
    and small: "length sel \<le> kMaxPoints"
  shows "length sel - unat at < f \<Longrightarrow> read_pages f ask at = map entry (drop (unat at) sel)"
proof (induction f arbitrary: at)
  case (Suc f)
  obtain k where k: "out at = take k (drop (unat at) sel)" using pre by blast
  note hm = has_more_rows_iff [OF k small]
  have len: "length (out at) = min k (length sel - unat at)" by (simp add: k)
  show ?case
  proof (cases "unat at + length (out at) < length sel")
    case True
    then have ne: "out at \<noteq> []" using progress [of at] by linarith
    have next_o: "unat (at + of_nat (length (out at))) = unat at + length (out at)" using hm(2) ne by blast
    have pos: "0 < length (out at)" using ne by simp
    have "length sel - (unat at + length (out at)) < f" using Suc.prems True pos by linarith
    then have "read_pages f ask (at + of_nat (length (out at))) = map entry (drop (unat at + length (out at)) sel)"
      using Suc.IH [of "at + of_nat (length (out at))"] by (simp only: next_o)
    moreover have "out at @ drop (unat at + length (out at)) sel = drop (unat at) sel"
    proof -
      have "drop (unat at + length (out at)) sel = drop k (drop (unat at) sel)"
        using True len by (simp add: add.commute min_def split: if_splits)
      then show ?thesis by (simp only: k append_take_drop_id)
    qed
    then have "map entry (out at) @ map entry (drop (unat at + length (out at)) sel) = map entry (drop (unat at) sel)"
      by (simp only: map_append [symmetric])
    ultimately show ?thesis
      using True hm(1) by (simp add: ask [of at] answer_points_page has_more_page Let_def)
  next
    case False
    then have "out at = drop (unat at) sel" using len by (simp add: k)
    then show ?thesis using False hm(1) by (simp add: ask [of at] answer_points_page has_more_page Let_def)
  qed
qed simp

lemma pages_of_points:
  assumes "0 < limit" "cat_count c \<le> kMaxPoints"
    and fits: "\<forall>offset. \<forall>i<cat_count c. path_selects path kind (cat_entries c i) \<longrightarrow>
       measureJson (JObj (page_members (answer_base node (client_request requester path limit offset)) cmd path
         offset 0 0 False ''points'' ''pointFeatures'' [])) +
       measure_feature_points_group_entry (feature (pd_id (cat_entries c i))) key (psize i)
       \<le> kMessageSize - kPagedResponseSizeReserve"
    and ask: "\<And>offset. ask offset = point_page measureJson cmd key entry psize c
       (answer_base node (client_request requester path limit offset)) path offset limit kind"
  shows "read_pages (cat_count c + 1) ask 0 =
     map entry (filter (\<lambda>i. path_selects path kind (cat_entries c i)) [0..<cat_count c])"
proof -
  let ?sel = "filter (\<lambda>i. path_selects path kind (cat_entries c i)) [0..<cat_count c]"
  define out where "out offset = point_rows measureJson cmd key psize c
      (answer_base node (client_request requester path limit offset)) path offset limit kind" for offset
  have pre: "\<exists>k. out at = take k (drop (unat at) ?sel)" for at
  proof -
    obtain k where "out at = [] @ take k (drop (unat at - 0) ?sel)"
      unfolding out_def point_rows_def
      using point_loop_prefix [where out = "[]" and matched = 0 and offset = "unat at"] by blast
    then show ?thesis by auto
  qed
  have progress: "out at \<noteq> []" if "unat at < length ?sel" for at
    unfolding out_def point_rows_def
    using assms(1) fits that by (intro point_loop_progress) (auto simp: can_append_size_iff word_less_nat_alt)
  have len: "length ?sel \<le> cat_count c" using length_filter_le [of _ "[0..<cat_count c]"] by simp
  have "read_pages (cat_count c + 1) ask 0 = map entry (drop (unat (0 :: u32)) ?sel)"
  proof (rule read_pages_complete [where out = out])
    show "ask at = page_members (answer_base node (client_request requester path limit at)) cmd path at
       (length (out at)) (length ?sel) (has_more_rows at (length (out at)) (length ?sel)) ''points''
       ''pointFeatures'' (feature_group c key entry (out at))" for at
      by (simp only: ask point_page_def out_def Let_def)
  qed (use pre progress len assms(2) in auto)
  then show ?thesis by simp
qed


text \<open>A device whose entry is too large for an answer: the page is empty and says that there is
  more, so that a client that follows \<open>hasMore\<close> asks for the same page for ever.\<close>

lemma oversized_device_stalls:
  assumes "cstr path = []" "unat offset < browseDeviceCount c"
    "\<not> response_can_append_item
       (measureJson (JObj (page_members base cmd path offset 0 0 False ''devices'' ''devices'' [])))
       0 (device_entry_size c (unat offset))"
  shows "device_page measureJson cmd c base path offset limit =
     page_members base cmd path offset 0 (browseDeviceCount c) True ''devices'' ''devices'' []"
proof -
  have "device_loop (device_entry_size c) (unat limit) [unat offset..<browseDeviceCount c] []
      (measureJson (JObj (page_members base cmd path offset 0 0 False ''devices'' ''devices'' []))) = []"
    using assms(2,3) by (simp add: upt_conv_Cons)
  then show ?thesis using assms by (simp add: device_page_def Let_def has_more_rows_def map_add_upt cong: map_cong)
qed

section \<open>Witnesses\<close>

definition sample_queries :: point_catalog where
  "sample_queries = sample_rows
     [sample_point ''devA'' ''f1'' ''p'', sample_point ''devB'' ''f1'' ''p'', sample_point ''devA'' ''f1'' ''q'']"

definition sample_node_identity :: node_identity where
  "sample_node_identity =
     \<lparr>node_addr = 7, node_device_id = buf_of 12 ''node7'', node_instrument_name = buf_of 30 ''bench'',
      node_master = False, node_hardware_type = 1\<rparr>"

definition plain_size :: "json \<Rightarrow> nat" where
  "plain_size j = length (json_text (\<lambda>c. [c]) (\<lambda>w. [48]) j)"

lemma plain_printer: "compact_printer (\<lambda>c. [c]) (\<lambda>w. [48])"
  by (simp add: compact_printer_def escaped_char_length_def)

lemma sample_rows_list:
  "catalog_rows sample_queries =
     [sample_point ''devA'' ''f1'' ''p'', sample_point ''devB'' ''f1'' ''p'', sample_point ''devA'' ''f1'' ''q'']"
  by (simp add: catalog_rows_def sample_queries_def sample_rows_def upt_rec)

lemma sample_ids:
  "cstr (device_id (pd_id (sample_point dev feat pt))) = cstr (buf_of 16 dev)"
  "cstr (feature (pd_id (sample_point dev feat pt))) = cstr (buf_of 32 feat)"
  "cstr (point_id (pd_id (sample_point dev feat pt))) = cstr (buf_of 32 pt)"
  by (simp_all add: sample_point_def)

lemma sample_names:
  "cstr (buf_of 16 ''devA'') = lit ''devA''" "cstr (buf_of 16 ''devB'') = lit ''devB''"
  "cstr (buf_of 32 ''f1'') = lit ''f1''" "cstr (buf_of 32 ''p'') = lit ''p''" "cstr (buf_of 32 ''q'') = lit ''q''"
  "cstr (lit ''devA.f1'') = lit ''devA.f1''" "cstr (buf_of 12 ''node7'') = lit ''node7''"
  "cstr (buf_of 30 ''bench'') = lit ''bench''"
  by (code_simp)+

lemma sample_path_kind:
  "classify_point_catalog_path (lit ''devA.f1'') (catalog_rows sample_queries) = MatchFeature"
  unfolding sample_rows_list by code_simp

lemma path_classified_witness:
  "classify_point_catalog_path (lit ''devA.f1'') (catalog_rows sample_queries) = MatchFeature"
proof -
  have h: "\<forall>d\<in>set (catalog_rows sample_queries). 46 \<notin> set (cstr (device_id (pd_id d)))"
    unfolding sample_rows_list by (simp add: sample_ids sample_names) (simp add: lit_def)
  have p: "cstr (lit ''devA.f1'') \<noteq> []" by (simp add: sample_names) (simp add: lit_def)
  show ?thesis
    by (rule path_classified [OF h p, THEN trans])
      (simp add: sample_rows_list sample_ids sample_names, simp add: lit_def)
qed

lemma sample_page_size:
  "plain_size (JObj (page_members (answer_base sample_node_identity request) cmd path offset 0 0 False
     ''points'' ''pointFeatures'' [])) \<le> 300 + length cmd + length (cstr path)"
proof -
  have app: "page_members base cmd path offset 0 0 False ''points'' ''pointFeatures'' [] =
      (base @ [Member ''cmd'' (JStr (lit cmd)), Member ''path'' (JStr path), Member ''offset'' (JU32 offset),
        Member ''count'' (JU32 (of_nat 0)), Member ''total'' (JU32 (of_nat 0)),
        Member ''hasMore'' (JBool False), Member ''kind'' (JStr (lit ''points''))]) @
      [Member ''pointFeatures'' (JArr [])]" for base
    by (simp add: page_members_def)
  have str: "length (json_text (\<lambda>c. [c]) (\<lambda>w. [48]) (JStr t)) = 2 + length (cstr t)" for t
    by (simp add: length_concat comp_def sum_list_triv)
  have c: "length (cstr t) \<le> length t" for t :: "u8 list" by (simp add: cstr_def length_takeWhile_le)
  have cmd: "length (cstr (lit cmd)) \<le> length cmd" using c [of "lit cmd"] by (simp add: lit_def)
  have pts: "length (cstr (lit ''points'')) \<le> 6" using c [of "lit ''points''"] by (simp add: lit_def)
  have ids: "length (cstr (node_device_id sample_node_identity)) = 5"
    "length (cstr (node_instrument_name sample_node_identity)) = 5"
    by (simp_all add: sample_node_identity_def sample_names) (simp_all add: lit_def)
  have d: "decimal_u32_length v \<le> 10" for v using u32_digits by blast
  have arr: "length (json_text (\<lambda>c. [c]) (\<lambda>w. [48]) (JArr [])) = 2" by simp
  show ?thesis
    unfolding plain_size_def app length_object
    using cmd pts ids arr d [of "req_u32 request ''from'' 0"] d [of "ucast (node_addr sample_node_identity)"]
      d [of "ucast (node_hardware_type sample_node_identity)"] d [of offset] d [of 0]
    by (simp add: answer_base_def nodeHeader_def length_member_text str length_JU32 length_leaf_text
        json_field_prefix_size_def del: member_text.simps json_text.simps)
qed

lemma point_answers_fit_witness:
  "\<exists>request. let c = sample_queries; base = answer_base sample_node_identity request in
     plain_size (JObj (handlePointDefinitionsRequest plain_size c request base)) \<le> kMessageSize \<and>
     plain_size (JObj (handlePointStatesRequest plain_size (\<lambda>_. None) 0 c request base)) \<le> kMessageSize"
proof -
  let ?request = "client_request 1 (lit ''devA.f1'') 4 0"
  have s: "\<forall>cmd. cmd = ''pointDefsRes'' \<or> cmd = ''pointStatesRes'' \<longrightarrow>
       length (json_text (\<lambda>c. [c]) (\<lambda>w. [48]) (JObj (page_members (answer_base sample_node_identity ?request) cmd
         (lit ''devA.f1'') (req_u32 ?request ''offset'' 0) 0 0 False ''points'' ''pointFeatures'' []))) \<le> 2030"
    using sample_page_size [of ?request "''pointDefsRes''" "lit ''devA.f1''" 0]
      sample_page_size [of ?request "''pointStatesRes''" "lit ''devA.f1''" 0]
    by (auto simp: plain_size_def sample_names simp del: json_text.simps) (simp_all add: lit_def del: json_text.simps)
  have ne: "cstr (lit ''devA.f1'') \<noteq> []" by (simp add: sample_names) (simp add: lit_def)
  have plain_size_fun: "plain_size = (\<lambda>j. length (json_text (\<lambda>c. [c]) (\<lambda>w. [48]) j))"
    by (rule ext) (simp add: plain_size_def)
  show ?thesis
    using point_answers_fit [OF plain_printer _ _ _ s, of sample_queries "\<lambda>_. None" 0] sample_path_kind ne
    by (intro exI [of _ ?request]) (simp add: plain_size_fun del: json_text.simps)
qed


end
